(* ===== verification/Lw_Prelude.thy ===== *)
theory Lw_Prelude
  imports Main "HOL-Library.Word" "HOL-Library.List_Lexorder" "HOL-Library.Char_ord"
    "HOL-Library.Product_Lexorder" "HOL-Library.Finite_Map"
begin

text \<open>
  Shared vocabulary of the development.

  \<^item> Fixed-width unsigned arithmetic of the standard library (\<open>saturating_add\<close>,
    \<open>checked_sub\<close>, ...) on \<open>nat\<close> with the width as an argument: \<open>usize\<close> and \<open>u64\<close>
    are width 64 (every supported target is 64-bit), \<open>u128\<close> is width 128.
  \<^item> \<open>Result\<close> values are sums with the error on the left; \<open>ok_then\<close> is the source's
    question-mark operator.
  \<^item> Ordered maps (\<open>BTreeMap\<close>, \<open>BTreeSet\<close>, redb tables) are finite maps and finite sets over
    a linear order; \<open>bt_keys\<close> and \<open>bt_first\<close> read them in key order.
  \<^item> Instants are nanoseconds since an arbitrary origin.
\<close>

type_synonym instant = nat
type_synonym ('e, 'a) result = "'e + 'a"

named_theorems width_simps \<open>unfolding rules of the fixed-width operations\<close>

section \<open>Definitions\<close>

definition max_of :: "nat \<Rightarrow> nat" where
  "max_of w = 2 ^ w - 1"

definition saturating_add :: "nat \<Rightarrow> nat \<Rightarrow> nat \<Rightarrow> nat" where
  "saturating_add w a b = min (a + b) (max_of w)"

definition saturating_mul :: "nat \<Rightarrow> nat \<Rightarrow> nat \<Rightarrow> nat" where
  "saturating_mul w a b = min (a * b) (max_of w)"

definition checked_add :: "nat \<Rightarrow> nat \<Rightarrow> nat \<Rightarrow> nat option" where
  "checked_add w a b = (if a + b \<le> max_of w then Some (a + b) else None)"

definition checked_sub :: "nat \<Rightarrow> nat \<Rightarrow> nat option" where
  "checked_sub a b = (if b \<le> a then Some (a - b) else None)"

definition div_ceil :: "nat \<Rightarrow> nat \<Rightarrow> nat" where
  "div_ceil a b = (if a mod b = 0 then a div b else a div b + 1)"

definition ok_then :: "('e, 'a) result \<Rightarrow> ('a \<Rightarrow> ('e, 'b) result) \<Rightarrow> ('e, 'b) result" where
  "ok_then m f = (case m of Inl e \<Rightarrow> Inl e | Inr a \<Rightarrow> f a)"

definition map_err :: "('e \<Rightarrow> 'd) \<Rightarrow> ('e, 'a) result \<Rightarrow> ('d, 'a) result" where
  "map_err g m = (case m of Inl e \<Rightarrow> Inl (g e) | Inr a \<Rightarrow> Inr a)"

definition ok_or :: "'e \<Rightarrow> 'a option \<Rightarrow> ('e, 'a) result" where
  "ok_or e m = (case m of None \<Rightarrow> Inl e | Some a \<Rightarrow> Inr a)"

definition bt_keys :: "('k::linorder, 'v) fmap \<Rightarrow> 'k list" where
  "bt_keys t = sorted_list_of_fset (fmdom t)"

definition bt_first :: "'k::linorder fset \<Rightarrow> 'k option" where
  "bt_first s = (case sorted_list_of_fset s of [] \<Rightarrow> None | k # _ \<Rightarrow> Some k)"

section \<open>Fixed-width arithmetic\<close>

lemmas width_defs [width_simps] =
  max_of_def saturating_add_def saturating_mul_def checked_add_def checked_sub_def

lemma saturating_add_exact: "a + b \<le> max_of w \<Longrightarrow> saturating_add w a b = a + b"
  by (simp add: saturating_add_def)

lemma saturating_mul_exact: "a * b \<le> max_of w \<Longrightarrow> saturating_mul w a b = a * b"
  by (simp add: saturating_mul_def)

lemma saturating_add_le [simp]: "saturating_add w a b \<le> a + b"
  by (simp add: saturating_add_def)

lemma saturating_mul_le [simp]: "saturating_mul w a b \<le> a * b"
  by (simp add: saturating_mul_def)

lemma checked_add_Some [simp]:
  "checked_add w a b = Some c \<longleftrightarrow> a + b \<le> max_of w \<and> c = a + b"
  by (auto simp: checked_add_def)

lemma checked_add_None [simp]: "checked_add w a b = None \<longleftrightarrow> max_of w < a + b"
  by (auto simp: checked_add_def)

lemma checked_sub_Some [simp]: "checked_sub a b = Some c \<longleftrightarrow> b \<le> a \<and> c = a - b"
  by (auto simp: checked_sub_def)

lemma checked_sub_None [simp]: "checked_sub a b = None \<longleftrightarrow> a < b"
  by (auto simp: checked_sub_def)

lemma div_ceil_least:
  assumes "0 < b"
  shows "a \<le> d * b \<longleftrightarrow> div_ceil a b \<le> d"
proof -
  have eq: "a = a div b * b + a mod b" and less: "a mod b < b"
    using assms by simp_all
  show ?thesis
  proof (cases "a mod b = 0")
    case True
    then have "a = a div b * b" using eq by simp
    then have "a \<le> d * b \<longleftrightarrow> a div b * b \<le> d * b" by simp
    with True assms show ?thesis by (simp add: div_ceil_def)
  next
    case False
    have "a \<le> d * b \<longleftrightarrow> a div b < d"
    proof
      assume "a \<le> d * b"
      then have "a div b * b < d * b" using eq False by linarith
      then show "a div b < d" by simp
    next
      assume "a div b < d"
      then have "(a div b + 1) * b \<le> d * b" by (intro mult_le_mono1) simp
      then have "a div b * b + b \<le> d * b" by simp
      then show "a \<le> d * b" using eq less by linarith
    qed
    with False show ?thesis by (simp add: div_ceil_def Suc_le_eq)
  qed
qed

section \<open>Results\<close>

lemma ok_then_simps [simp]:
  "ok_then (Inl e) f = Inl e"
  "ok_then (Inr a) f = f a"
  by (simp_all add: ok_then_def)

lemma ok_then_Inr_iff [simp]:
  "ok_then m f = Inr b \<longleftrightarrow> (\<exists>a. m = Inr a \<and> f a = Inr b)"
  by (cases m) simp_all

lemma ok_thenE: "ok_then m f = Inr b \<Longrightarrow> (\<And>a. m = Inr a \<Longrightarrow> f a = Inr b \<Longrightarrow> P) \<Longrightarrow> P"
  by (cases m) simp_all

lemma ok_then_Inl_iff:
  "ok_then m f = Inl e \<longleftrightarrow> m = Inl e \<or> (\<exists>a. m = Inr a \<and> f a = Inl e)"
  by (cases m) auto

lemma map_err_simps [simp]:
  "map_err g (Inl e) = Inl (g e)"
  "map_err g (Inr a) = Inr a"
  by (simp_all add: map_err_def)

lemma map_err_Inr_iff [simp]: "map_err g m = Inr a \<longleftrightarrow> m = Inr a"
  by (cases m) simp_all

lemma ok_or_simps [simp]:
  "ok_or e None = Inl e"
  "ok_or e (Some a) = Inr a"
  by (simp_all add: ok_or_def)

lemma ok_or_Inr_iff [simp]: "ok_or e m = Inr a \<longleftrightarrow> m = Some a"
  by (cases m) simp_all

section \<open>Ordered maps and sets\<close>

lemma bt_keys_set [simp]: "set (bt_keys t) = fset (fmdom t)"
  by (simp add: bt_keys_def)

lemma bt_first_None [simp]: "bt_first s = None \<longleftrightarrow> s = {||}"
proof -
  have "bt_first s = None \<longleftrightarrow> sorted_list_of_fset s = []"
    by (auto simp: bt_first_def split: list.splits)
  also have "\<dots> \<longleftrightarrow> fset s = {}" by (simp add: sorted_list_of_fset.rep_eq)
  also have "\<dots> \<longleftrightarrow> s = {||}" by (auto simp: fset_inject [symmetric] simp del: fset_inject)
  finally show ?thesis .
qed

lemma bt_first_Some:
  "bt_first s = Some k \<longleftrightarrow> k |\<in>| s \<and> (\<forall>j. j |\<in>| s \<longrightarrow> k \<le> j)"
proof -
  let ?xs = "sorted_list_of_fset s"
  have set: "set ?xs = fset s" and sorted: "sorted ?xs"
    by (simp_all add: sorted_list_of_fset.rep_eq)
  show ?thesis
  proof (cases ?xs)
    case Nil
    then have "s = {||}" using set by (simp add: fset_inject [symmetric])
    with Nil show ?thesis by (simp add: bt_first_def)
  next
    case (Cons a as)
    have "a |\<in>| s" using set Cons by (metis list.set_intros(1))
    moreover have "\<forall>j. j |\<in>| s \<longrightarrow> a \<le> j"
      using sorted set Cons by (metis order_refl set_ConsD sorted_simps(2))
    ultimately show ?thesis
      using Cons by (auto simp: bt_first_def intro: antisym)
  qed
qed

end
