(* ===== verification/Token_Bucket.thy ===== *)
theory Token_Bucket
  imports Lw_Prelude
begin

text \<open>
  The token bucket of \<open>lonewolf-util/src/token_bucket.rs\<close>, which every rate limit of the server
  is built on. \<open>TokenBucket\<close> is the struct, one definition per method. \<open>consume\<close> returns
  \<open>None\<close> where the source panics. The arithmetic is the source's: \<open>u128\<close> saturating credit, \<open>usize\<close>
  saturating tokens.
\<close>

section \<open>Definitions\<close>

definition NANOS_PER_SECOND :: nat where
  "NANOS_PER_SECOND = 1000000000"

record TokenBucket =
  tokens :: nat
  remainder :: nat
  updated_at :: instant

definition new_bucket :: "nat \<Rightarrow> instant \<Rightarrow> TokenBucket" where
  "new_bucket burst now = \<lparr>tokens = burst, remainder = 0, updated_at = now\<rparr>"

definition replenish :: "nat \<Rightarrow> nat \<Rightarrow> instant \<Rightarrow> TokenBucket \<Rightarrow> TokenBucket" where
  "replenish per_second burst now b =
     (let elapsed = now - updated_at b;
          credit = saturating_add 128 (saturating_mul 128 elapsed per_second) (remainder b);
          replenished = min (credit div NANOS_PER_SECOND) burst;
          tokens' = min (saturating_add 64 (tokens b) replenished) burst
      in b\<lparr>tokens := tokens',
           remainder := (if tokens' = burst then 0 else credit mod NANOS_PER_SECOND),
           updated_at := max (updated_at b) now\<rparr>)"

definition available :: "TokenBucket \<Rightarrow> nat" where
  "available b = tokens b"

definition consume :: "nat \<Rightarrow> TokenBucket \<Rightarrow> TokenBucket option" where
  "consume amount b =
     (if amount \<le> tokens b then Some (b\<lparr>tokens := tokens b - amount\<rparr>) else None)"

definition refill_delay :: "nat \<Rightarrow> TokenBucket \<Rightarrow> nat" where
  "refill_delay per_second b =
     (let remaining = NANOS_PER_SECOND - remainder b;
          nanos = max (div_ceil remaining per_second) 1
      in nanos mod 2 ^ 64)"

text \<open>
  The invariant of a bucket with a given burst. A run of a bucket is a sequence of timed requests:
  each replenishes at its time and takes the requested amount when it is available, which is how
  every limiter of the server uses the bucket.
\<close>

definition bucket_ok :: "nat \<Rightarrow> TokenBucket \<Rightarrow> bool" where
  "bucket_ok burst b \<longleftrightarrow>
     tokens b \<le> burst \<and> remainder b < NANOS_PER_SECOND \<and> (tokens b = burst \<longrightarrow> remainder b = 0)"

fun serve :: "nat \<Rightarrow> nat \<Rightarrow> TokenBucket \<Rightarrow> (instant \<times> nat) list \<Rightarrow> nat \<times> TokenBucket" where
  "serve rate burst b [] = (0, b)"
| "serve rate burst b ((now, amount) # reqs) =
     (let b1 = replenish rate burst now b
      in case consume amount b1 of
           None \<Rightarrow> serve rate burst b1 reqs
         | Some b2 \<Rightarrow> (let (n, b3) = serve rate burst b2 reqs in (amount + n, b3)))"

section \<open>Invariant\<close>

lemma nps_pos [simp]: "0 < NANOS_PER_SECOND"
  by (simp add: NANOS_PER_SECOND_def)

lemma nps_neq: "NANOS_PER_SECOND \<noteq> 0"
  by (simp add: NANOS_PER_SECOND_def)

lemma new_bucket_ok: "bucket_ok burst (new_bucket burst now)"
  by (simp add: bucket_ok_def new_bucket_def)

lemma replenish_ok: "bucket_ok burst (replenish rate burst now b)"
  by (simp add: bucket_ok_def replenish_def Let_def)

lemma consume_ok: "bucket_ok burst b \<Longrightarrow> consume n b = Some b' \<Longrightarrow> bucket_ok burst b'"
  by (auto simp: bucket_ok_def consume_def split: if_splits)

lemma updated_at_replenish [simp]:
  "updated_at (replenish rate burst now b) = max (updated_at b) now"
  by (simp add: replenish_def Let_def)

lemma consume_Some_iff:
  "consume n b = Some b' \<longleftrightarrow> n \<le> tokens b \<and> b' = b\<lparr>tokens := tokens b - n\<rparr>"
  by (auto simp: consume_def)

section \<open>Credit accounting\<close>

text \<open>
  \<open>credit_of\<close> is the bucket's content in nanosecond-tokens: whole tokens and the fraction.
\<close>

definition credit_of :: "TokenBucket \<Rightarrow> nat" where
  "credit_of b = tokens b * NANOS_PER_SECOND + remainder b"

lemma credit_replenish:
  "credit_of (replenish rate burst now b)
     \<le> credit_of b + rate * (updated_at (replenish rate burst now b) - updated_at b)"
proof -
  define credit where
    "credit = saturating_add 128 (saturating_mul 128 (now - updated_at b) rate) (remainder b)"
  define t where "t = min (saturating_add 64 (tokens b) (min (credit div NANOS_PER_SECOND) burst)) burst"
  have "credit \<le> saturating_mul 128 (now - updated_at b) rate + remainder b"
    unfolding credit_def by simp
  also have "\<dots> \<le> (now - updated_at b) * rate + remainder b" by simp
  finally have credit: "credit \<le> (now - updated_at b) * rate + remainder b" .
  have "t \<le> tokens b + credit div NANOS_PER_SECOND"
    unfolding t_def saturating_add_def by linarith
  then have "t * NANOS_PER_SECOND \<le> (tokens b + credit div NANOS_PER_SECOND) * NANOS_PER_SECOND"
    by (rule mult_le_mono1)
  then have "t * NANOS_PER_SECOND + credit mod NANOS_PER_SECOND
      \<le> tokens b * NANOS_PER_SECOND + credit"
    using div_mult_mod_eq [of credit NANOS_PER_SECOND] unfolding add_mult_distrib by linarith
  then have "t * NANOS_PER_SECOND + (if t = burst then 0 else credit mod NANOS_PER_SECOND)
      \<le> tokens b * NANOS_PER_SECOND + ((now - updated_at b) * rate + remainder b)"
    using credit by (auto split: if_splits)
  moreover have "max (updated_at b) now - updated_at b = now - updated_at b" by simp
  moreover have "credit_of (replenish rate burst now b)
      = t * NANOS_PER_SECOND + (if t = burst then 0 else credit mod NANOS_PER_SECOND)"
    by (simp add: credit_of_def replenish_def Let_def t_def credit_def)
  ultimately show ?thesis by (simp add: credit_of_def mult.commute add.assoc add.commute)
qed

lemma credit_consume:
  assumes "consume n b = Some b'"
  shows "credit_of b' + n * NANOS_PER_SECOND = credit_of b"
proof -
  from assms have n: "n \<le> tokens b" and b': "b' = b\<lparr>tokens := tokens b - n\<rparr>"
    by (simp_all add: consume_Some_iff)
  have "(tokens b - n) * NANOS_PER_SECOND + n * NANOS_PER_SECOND = tokens b * NANOS_PER_SECOND"
    using n by (simp flip: add_mult_distrib)
  with b' show ?thesis by (simp add: credit_of_def)
qed

lemma updated_at_consume: "consume n b = Some b' \<Longrightarrow> updated_at b' = updated_at b"
  by (auto simp: consume_Some_iff)

lemma serve_updated_at: "serve rate burst b reqs = (n, b') \<Longrightarrow> updated_at b \<le> updated_at b'"
proof (induction rate burst b reqs arbitrary: n rule: serve.induct)
  case (1 rate burst b)
  then show ?case by simp
next
  case (2 rate burst b now amount reqs)
  let ?b1 = "replenish rate burst now b"
  have le: "updated_at b \<le> updated_at ?b1" by simp
  show ?case
  proof (cases "consume amount ?b1")
    case None
    with 2 have "updated_at ?b1 \<le> updated_at b'" by (simp add: Let_def)
    with le show ?thesis by linarith
  next
    case (Some b2)
    with "2.prems" obtain m where m: "serve rate burst b2 reqs = (m, b')"
      by (auto simp: Let_def split: prod.splits)
    have "updated_at b2 \<le> updated_at b'" using "2.IH"(2) Some m by auto
    with le updated_at_consume [OF Some] show ?thesis by linarith
  qed
qed

lemma serve_credit:
  "serve rate burst b reqs = (n, b') \<Longrightarrow>
   n * NANOS_PER_SECOND + credit_of b' \<le> credit_of b + rate * (updated_at b' - updated_at b)"
proof (induction rate burst b reqs arbitrary: n rule: serve.induct)
  case (1 rate burst b)
  then show ?case by simp
next
  case (2 rate burst b now amount reqs)
  let ?b1 = "replenish rate burst now b"
  have first: "credit_of ?b1 \<le> credit_of b + rate * (updated_at ?b1 - updated_at b)"
    by (rule credit_replenish)
  have le1: "updated_at b \<le> updated_at ?b1" by simp
  have join: "rate * (updated_at ?b1 - updated_at b) + rate * (u - updated_at ?b1)
      = rate * (u - updated_at b)" if "updated_at ?b1 \<le> u" for u
    using that le1 by (metis add.commute add_mult_distrib2 diff_add_assoc2 le_add_diff_inverse2)
  show ?case
  proof (cases "consume amount ?b1")
    case None
    with "2.prems" have s: "serve rate burst ?b1 reqs = (n, b')" by (simp add: Let_def)
    have "n * NANOS_PER_SECOND + credit_of b'
        \<le> credit_of ?b1 + rate * (updated_at b' - updated_at ?b1)"
      using "2.IH"(1) None s by simp
    with first join [OF serve_updated_at [OF s]] show ?thesis by linarith
  next
    case (Some b2)
    with "2.prems" obtain m where m: "serve rate burst b2 reqs = (m, b')" and n: "n = amount + m"
      by (auto simp: Let_def split: prod.splits)
    have "m * NANOS_PER_SECOND + credit_of b'
        \<le> credit_of b2 + rate * (updated_at b' - updated_at ?b1)"
      using "2.IH"(2) [OF refl Some m] updated_at_consume [OF Some] by simp
    moreover have "updated_at ?b1 \<le> updated_at b'"
      using serve_updated_at [OF m] updated_at_consume [OF Some] by simp
    ultimately show ?thesis
      using first join credit_consume [OF Some] n by (fastforce simp: add_mult_distrib)
  qed
qed

lemma serve_ok: "bucket_ok burst b \<Longrightarrow> serve rate burst b reqs = (n, b') \<Longrightarrow> bucket_ok burst b'"
proof (induction rate burst b reqs arbitrary: n rule: serve.induct)
  case (1 rate burst b)
  then show ?case by simp
next
  case (2 rate burst b now amount reqs)
  let ?b1 = "replenish rate burst now b"
  show ?case
  proof (cases "consume amount ?b1")
    case None
    with "2.prems" have "serve rate burst ?b1 reqs = (n, b')" by (simp add: Let_def)
    with "2.IH"(1) [OF refl None replenish_ok] show ?thesis by blast
  next
    case (Some b2)
    with "2.prems" obtain m where "serve rate burst b2 reqs = (m, b')"
      by (auto simp: Let_def split: prod.splits)
    with "2.IH"(2) [OF refl Some consume_ok [OF replenish_ok Some]] show ?thesis by blast
  qed
qed

lemma credit_bound:
  assumes "bucket_ok burst b"
  shows "credit_of b \<le> burst * NANOS_PER_SECOND"
proof (cases "tokens b = burst")
  case True
  with assms show ?thesis by (simp add: bucket_ok_def credit_of_def)
next
  case False
  with assms have "(tokens b + 1) * NANOS_PER_SECOND \<le> burst * NANOS_PER_SECOND"
    by (intro mult_le_mono1) (simp add: bucket_ok_def)
  with assms show ?thesis by (simp add: bucket_ok_def credit_of_def)
qed

section \<open>Refilling\<close>

text \<open>
  Away from saturation the refill is exact: \<open>exact_credit\<close> bounds the elapsed time so that the
  \<open>u128\<close> product cannot saturate, and bursts fit a \<open>usize\<close>.
\<close>

definition exact_credit :: "nat \<Rightarrow> nat \<Rightarrow> instant \<Rightarrow> TokenBucket \<Rightarrow> bool" where
  "exact_credit rate burst now b \<longleftrightarrow>
     (now - updated_at b) * rate + remainder b \<le> max_of 128 \<and> burst + burst \<le> max_of 64"

lemma replenish_exact:
  assumes "exact_credit rate burst now b" and "tokens b \<le> burst"
  shows "replenish rate burst now b =
     (let c = (now - updated_at b) * rate + remainder b;
          t = min (tokens b + c div NANOS_PER_SECOND) burst
      in b\<lparr>tokens := t, remainder := (if t = burst then 0 else c mod NANOS_PER_SECOND),
           updated_at := max (updated_at b) now\<rparr>)"
proof -
  let ?c = "(now - updated_at b) * rate + remainder b"
  have c: "saturating_add 128 (saturating_mul 128 (now - updated_at b) rate) (remainder b) = ?c"
    using assms(1) by (simp add: exact_credit_def saturating_add_def saturating_mul_def)
  have "saturating_add 64 (tokens b) (min (?c div NANOS_PER_SECOND) burst)
      = tokens b + min (?c div NANOS_PER_SECOND) burst"
    using assms by (intro saturating_add_exact) (auto simp: exact_credit_def)
  then have "min (saturating_add 64 (tokens b) (min (?c div NANOS_PER_SECOND) burst)) burst
      = min (tokens b + ?c div NANOS_PER_SECOND) burst"
    by auto
  then show ?thesis by (simp add: replenish_def Let_def c)
qed

lemma refill_delay_value:
  assumes "0 < rate" and "remainder b < NANOS_PER_SECOND"
  shows "refill_delay rate b = div_ceil (NANOS_PER_SECOND - remainder b) rate"
proof -
  let ?r = "NANOS_PER_SECOND - remainder b"
  have ge: "1 \<le> div_ceil ?r rate"
    using div_ceil_least [OF assms(1), of ?r 0] assms(2) by simp
  have "?r \<le> NANOS_PER_SECOND * rate" using assms(1) by (cases rate) auto
  then have "div_ceil ?r rate \<le> NANOS_PER_SECOND"
    using div_ceil_least [OF assms(1)] by blast
  also have "\<dots> < 2 ^ 64" by (simp add: NANOS_PER_SECOND_def)
  finally show ?thesis using ge by (simp add: refill_delay_def Let_def max_def)
qed

lemmas bucket_eval = replenish_def consume_def available_def refill_delay_def Let_def
  NANOS_PER_SECOND_def width_simps

section \<open>The interface the limiters rely on\<close>

text \<open>
  What a limiter needs of a bucket: filling gains at most the rate times the time that passed and
  never more than the capacity; spending takes exactly what it grants. The potential of a bucket at
  time \<open>t\<close> towards a horizon \<open>T\<close> bounds everything it can still grant until \<open>T\<close>.
\<close>

locale credit_bucket =
  fixes fill :: "nat \<Rightarrow> 'b \<Rightarrow> 'b" and spend :: "nat \<Rightarrow> 'b \<Rightarrow> 'b option"
    and credit :: "'b \<Rightarrow> nat" and clock :: "'b \<Rightarrow> nat" and ok :: "'b \<Rightarrow> bool"
    and rate :: nat and cap :: nat and token :: nat
  assumes fill_credit: "credit (fill now b) \<le> credit b + rate * (clock (fill now b) - clock b)"
    and fill_clock: "clock (fill now b) = max (clock b) now"
    and fill_ok: "ok (fill now b)"
    and ok_cap: "ok b \<Longrightarrow> credit b \<le> cap"
    and spend_credit: "spend n b = Some b' \<Longrightarrow> credit b' + n * token = credit b"
    and spend_clock: "spend n b = Some b' \<Longrightarrow> clock b' = clock b"
begin

definition potential :: "nat \<Rightarrow> nat \<Rightarrow> 'b \<Rightarrow> nat" where
  "potential T t b = min (credit b + rate * (T - clock b)) (cap + rate * (T - t))"

lemma potential_bound: "potential T t b \<le> cap + rate * (T - t)"
  by (simp add: potential_def)

lemma potential_mono: "t \<le> t' \<Longrightarrow> potential T t' b \<le> potential T t b"
  unfolding potential_def by (intro min.mono add_left_mono mult_le_mono2) auto

lemma potential_fill:
  assumes "clock b \<le> t" and "t \<le> now" and "now \<le> T"
  shows "potential T now (fill now b) \<le> potential T t b"
proof -
  have c: "clock (fill now b) = now" using assms by (simp add: fill_clock)
  have "credit (fill now b) + rate * (T - now) \<le> credit b + (rate * (now - clock b) + rate * (T - now))"
    using fill_credit [of now b] by (simp add: c)
  also have "rate * (now - clock b) + rate * (T - now) = rate * (T - clock b)"
    using assms by (simp flip: add_mult_distrib2)
  finally have 1: "credit (fill now b) + rate * (T - now) \<le> credit b + rate * (T - clock b)" .
  have 2: "cap + rate * (T - now) \<le> cap + rate * (T - t)"
    using assms by (intro add_left_mono mult_le_mono2) auto
  show ?thesis unfolding potential_def c by (rule min.mono [OF 1 2])
qed

lemma potential_spend:
  assumes "spend n b = Some b'" and "ok b" and "clock b = t"
  shows "potential T t b' + n * token \<le> potential T t b"
proof -
  have c: "credit b' + n * token = credit b" and k: "clock b' = t"
    using spend_credit spend_clock assms by auto
  have "potential T t b' + n * token \<le> credit b + rate * (T - t)"
    using c k by (simp add: potential_def)
  also have "\<dots> = potential T t b"
    using ok_cap [OF assms(2)] assms(3) by (simp add: potential_def)
  finally show ?thesis .
qed

end

interpretation bucket: credit_bucket "replenish rate burst" consume credit_of updated_at
  "bucket_ok burst" rate "burst * NANOS_PER_SECOND" NANOS_PER_SECOND for rate burst
  by unfold_locales (fact credit_replenish updated_at_replenish replenish_ok credit_bound
    credit_consume updated_at_consume)+

section \<open>Properties\<close>

text \<open>
  C18. Rate conformance. In any window of a run that starts with a full bucket, the tokens granted
  never exceed the burst plus the configured rate times the time the bucket's clock advanced in
  that window; requests may arrive with any times, also going backwards.
\<close>
theorem bucket_rate_bound:
  assumes "serve rate burst (new_bucket burst t0) earlier = (m, b1)"
    and "serve rate burst b1 window = (n, b2)"
  shows "n * NANOS_PER_SECOND
    \<le> burst * NANOS_PER_SECOND + rate * (updated_at b2 - updated_at b1)"
proof -
  have "credit_of b1 \<le> burst * NANOS_PER_SECOND"
    by (rule credit_bound [OF serve_ok [OF new_bucket_ok assms(1)]])
  with serve_credit [OF assms(2)] show ?thesis by linarith
qed

theorem bucket_rate_bound_witness:
  "serve 3 2 (new_bucket 2 0) [(0, 2)] = (2, \<lparr>tokens = 0, remainder = 0, updated_at = 0\<rparr>) \<and>
   (1::nat) * NANOS_PER_SECOND \<le> 2 * NANOS_PER_SECOND + 3 * (333333334 - 0)"
proof -
  have e: "serve 3 2 (new_bucket 2 0) [(0, 2)] = (2, \<lparr>tokens = 0, remainder = 0, updated_at = 0\<rparr>)"
    by (simp add: new_bucket_def bucket_eval)
  have w: "serve 3 2 \<lparr>tokens = 0, remainder = 0, updated_at = 0\<rparr> [(333333334, 1)]
      = (1, \<lparr>tokens = 0, remainder = 2, updated_at = 333333334\<rparr>)"
    by (simp add: new_bucket_def bucket_eval)
  show ?thesis using e bucket_rate_bound [OF e w] by simp
qed

text \<open>
  C19. The delay is exact. For an empty bucket, waiting \<open>d\<close> nanoseconds makes a token available if
  and only if \<open>d\<close> is at least \<open>refill_delay\<close>: the delay is enough, and no shorter wait is.
\<close>
theorem refill_delay_exact:
  assumes "bucket_ok burst b" and "tokens b = 0" and "0 < rate" and "0 < burst"
    and "exact_credit rate burst (updated_at b + d) b"
  shows "0 < available (replenish rate burst (updated_at b + d) b) \<longleftrightarrow> refill_delay rate b \<le> d"
proof -
  let ?c = "d * rate + remainder b"
  have rem: "remainder b < NANOS_PER_SECOND" using assms(1) by (simp add: bucket_ok_def)
  have "0 < available (replenish rate burst (updated_at b + d) b) \<longleftrightarrow> 0 < ?c div NANOS_PER_SECOND"
    using assms by (simp add: replenish_exact available_def Let_def)
  also have "\<dots> \<longleftrightarrow> NANOS_PER_SECOND \<le> ?c"
    by (simp add: div_greater_zero_iff)
  also have "\<dots> \<longleftrightarrow> NANOS_PER_SECOND - remainder b \<le> d * rate"
    using rem by linarith
  also have "\<dots> \<longleftrightarrow> refill_delay rate b \<le> d"
    using div_ceil_least [OF assms(3)] refill_delay_value [OF assms(3) rem] by simp
  finally show ?thesis .
qed

theorem refill_delay_exact_witness:
  "refill_delay 3 \<lparr>tokens = 0, remainder = 300000000, updated_at = 7\<rparr> = 233333334 \<and>
   0 < available (replenish 3 2 (7 + 233333334) \<lparr>tokens = 0, remainder = 300000000, updated_at = 7\<rparr>)"
proof -
  let ?b = "\<lparr>tokens = 0, remainder = 300000000, updated_at = 7\<rparr>"
  have ok: "bucket_ok 2 ?b" by (simp add: bucket_ok_def NANOS_PER_SECOND_def)
  have ex: "exact_credit 3 2 (updated_at ?b + 233333334) ?b"
    by (simp add: exact_credit_def max_of_def)
  have d: "refill_delay 3 ?b = 233333334"
    by (simp add: refill_delay_def NANOS_PER_SECOND_def div_ceil_def)
  show ?thesis using refill_delay_exact [OF ok _ _ _ ex] d by simp
qed

text \<open>
  Polling does not change the refill. Replenishing at an intermediate time and again later
  gives the same bucket as replenishing once at the later time: no fractional credit is lost or
  gained by how often a limiter looks at its bucket.
\<close>
theorem replenish_split:
  assumes "bucket_ok burst b" and "updated_at b \<le> t1" and "t1 \<le> t2"
    and "exact_credit rate burst t2 b"
  shows "replenish rate burst t2 (replenish rate burst t1 b) = replenish rate burst t2 b"
proof -
  let ?N = NANOS_PER_SECOND
  let ?b1 = "replenish rate burst t1 b"
  define c1 where "c1 = (t1 - updated_at b) * rate + remainder b"
  define c2 where "c2 = (t2 - updated_at b) * rate + remainder b"
  have ok: "tokens b \<le> burst" using assms(1) by (simp add: bucket_ok_def)
  have "t2 - updated_at b = (t2 - t1) + (t1 - updated_at b)" using assms(2,3) by simp
  then have c2: "c2 = (t2 - t1) * rate + c1"
    by (simp add: c1_def c2_def add_mult_distrib)
  have ex1: "exact_credit rate burst t1 b"
    using assms(4) c2 by (simp add: exact_credit_def c1_def c2_def)
  have b1: "?b1 = (let t = min (tokens b + c1 div ?N) burst
      in b\<lparr>tokens := t, remainder := (if t = burst then 0 else c1 mod ?N), updated_at := t1\<rparr>)"
    using replenish_exact [OF ex1 ok] assms(2) by (simp add: c1_def Let_def max_def)
  have b2: "replenish rate burst t2 b = (let t = min (tokens b + c2 div ?N) burst
      in b\<lparr>tokens := t, remainder := (if t = burst then 0 else c2 mod ?N), updated_at := t2\<rparr>)"
    using replenish_exact [OF assms(4) ok] assms(2,3) by (simp add: c2_def Let_def max_def)
  have rem: "remainder ?b1 \<le> c1" by (simp add: b1 Let_def)
  have ex2: "exact_credit rate burst t2 ?b1"
    using assms(2-4) c2 rem by (simp add: exact_credit_def c2_def [symmetric] max_def)
  have ok1: "tokens ?b1 \<le> burst" using replenish_ok by (simp add: bucket_ok_def)
  have eq: "replenish rate burst t2 ?b1 = (let c = (t2 - t1) * rate + remainder ?b1;
        t = min (tokens ?b1 + c div ?N) burst
      in ?b1\<lparr>tokens := t, remainder := (if t = burst then 0 else c mod ?N), updated_at := t2\<rparr>)"
    using replenish_exact [OF ex2 ok1] assms(2,3) by (simp add: Let_def max_def)
  show ?thesis
  proof (cases "burst \<le> tokens b + c1 div ?N")
    case True
    moreover have "c1 div ?N \<le> c2 div ?N" using c2 by (simp add: div_le_mono)
    ultimately show ?thesis unfolding eq b2 by (simp add: b1 Let_def)
  next
    case False
    have "c2 = c1 div ?N * ?N + ((t2 - t1) * rate + c1 mod ?N)" using c2 by simp
    then have "c2 div ?N = c1 div ?N + ((t2 - t1) * rate + c1 mod ?N) div ?N"
      and "c2 mod ?N = ((t2 - t1) * rate + c1 mod ?N) mod ?N"
      using div_mult_self3 [OF nps_neq] mod_mult_self3 by metis+
    with False show ?thesis unfolding eq b2 by (simp add: b1 Let_def add.assoc)
  qed
qed

end
