(* ===== verification/Admission.thy ===== *)
theory Admission
  imports Token_Bucket
begin

text \<open>
  Admission control (\<open>lonewolf-core/src/admission\<close> and \<open>c2s/unauthenticated_limit.rs\<close>): the
  rejection report that throttles log lines, the per-source attempt limiter, the per-source
  connection limiter with its shared counters, and the global limit on unauthenticated streams.

  A source address is any type \<open>'ip\<close>. Each limiter's mutex makes one call one step, so a call is a
  function on the limiter's state. The connection limiter hands out permits that share a counter
  with the limiter (an \<open>Arc\<close>); the counters live in an explicit store, and the permits that
  are alive are part of the system state.
\<close>

section \<open>Definitions\<close>

subsection \<open>Rejection report\<close>

record RejectionReport =
  last_report_at :: "instant option"
  unreported_rejections :: nat

definition default_report :: RejectionReport where
  "default_report = \<lparr>last_report_at = None, unreported_rejections = 0\<rparr>"

definition REPORT_INTERVAL :: nat where
  "REPORT_INTERVAL = 1 * NANOS_PER_SECOND"

definition record_rejection :: "instant \<Rightarrow> RejectionReport \<Rightarrow> nat option \<times> RejectionReport" where
  "record_rejection now r =
     (let n = saturating_add 64 (unreported_rejections r) 1
      in if (case last_report_at r of None \<Rightarrow> True | Some prev \<Rightarrow> REPORT_INTERVAL \<le> now - prev)
         then (Some n, r\<lparr>unreported_rejections := 0, last_report_at := Some now\<rparr>)
         else (None, r\<lparr>unreported_rejections := n\<rparr>))"

subsection \<open>Attempt limiter\<close>

definition MAX_TRACKED_SOURCES :: nat where
  "MAX_TRACKED_SOURCES = 16384"

definition CLEANUP_INTERVAL :: nat where
  "CLEANUP_INTERVAL = 1 * NANOS_PER_SECOND"

datatype Admission = Allowed | Denied string "nat option"

record 'ip AttemptState =
  sources :: "('ip, TokenBucket) fmap"
  next_cleanup :: instant
  report :: RejectionReport

definition new_attempts :: "instant \<Rightarrow> 'ip AttemptState" where
  "new_attempts now = \<lparr>sources = fmempty, next_cleanup = now, report = default_report\<rparr>"

definition deny :: "instant \<Rightarrow> string \<Rightarrow> 'ip AttemptState \<Rightarrow> Admission \<times> 'ip AttemptState" where
  "deny now outcome st =
     (let (count, r) = record_rejection now (report st)
      in (Denied outcome count, st\<lparr>report := r\<rparr>))"

definition cleanup_attempts :: "nat \<Rightarrow> nat \<Rightarrow> instant \<Rightarrow> 'ip AttemptState \<Rightarrow> 'ip AttemptState" where
  "cleanup_attempts per_second burst now st =
     (let refreshed = fmmap (replenish per_second burst now) (sources st)
      in st\<lparr>sources := fmfilter (\<lambda>ip. case fmlookup refreshed ip of
                 Some bucket \<Rightarrow> available bucket < burst | None \<Rightarrow> False) refreshed,
            next_cleanup := now + CLEANUP_INTERVAL\<rparr>)"

definition attempt_room :: "nat \<Rightarrow> nat \<Rightarrow> 'ip \<Rightarrow> instant \<Rightarrow> 'ip AttemptState
    \<Rightarrow> (Admission \<times> 'ip AttemptState, 'ip AttemptState) result" where
  "attempt_room per_second burst source now st =
     (if fmlookup (sources st) source = None \<and> MAX_TRACKED_SOURCES \<le> fcard (fmdom (sources st))
      then (let st = (if next_cleanup st \<le> now then cleanup_attempts per_second burst now st else st)
            in if MAX_TRACKED_SOURCES \<le> fcard (fmdom (sources st))
               then Inl (deny now ''source_tracking_full'' st) else Inr st)
      else Inr st)"

definition spend_attempt :: "nat \<Rightarrow> nat \<Rightarrow> 'ip \<Rightarrow> instant \<Rightarrow> 'ip AttemptState
    \<Rightarrow> (Admission \<times> 'ip AttemptState) option" where
  "spend_attempt per_second burst source now st =
     (let bucket = (case fmlookup (sources st) source of
            Some b \<Rightarrow> b | None \<Rightarrow> new_bucket burst now);
          bucket = replenish per_second burst now bucket;
          st = st\<lparr>sources := fmupd source bucket (sources st)\<rparr>
      in if available bucket = 0 then Some (deny now ''rate_limited'' st)
         else map_option (\<lambda>b. (Allowed, st\<lparr>sources := fmupd source b (sources st)\<rparr>))
                (consume 1 bucket))"

definition admit :: "nat \<Rightarrow> nat \<Rightarrow> 'ip \<Rightarrow> instant \<Rightarrow> 'ip AttemptState
    \<Rightarrow> (Admission \<times> 'ip AttemptState) option" where
  "admit per_second burst source now st =
     (case attempt_room per_second burst source now st of
        Inl denied \<Rightarrow> Some denied
      | Inr st \<Rightarrow> spend_attempt per_second burst source now st)"

text \<open>
  A run of the limiter over the timed attempts of all sources; \<open>None\<close> when some call panics.
\<close>

fun admit_all :: "nat \<Rightarrow> nat \<Rightarrow> ('ip \<times> instant) list \<Rightarrow> 'ip AttemptState
    \<Rightarrow> (Admission list \<times> 'ip AttemptState) option" where
  "admit_all per_second burst [] st = Some ([], st)"
| "admit_all per_second burst ((source, now) # reqs) st =
     (case admit per_second burst source now st of None \<Rightarrow> None
      | Some (a, st1) \<Rightarrow> (case admit_all per_second burst reqs st1 of None \<Rightarrow> None
          | Some (as, st2) \<Rightarrow> Some (a # as, st2)))"

definition granted :: "'ip \<Rightarrow> ('ip \<times> instant) list \<Rightarrow> Admission list \<Rightarrow> nat" where
  "granted ip reqs as = length (filter (\<lambda>((source, _), a). source = ip \<and> a = Allowed) (zip reqs as))"

subsection \<open>Connection limiter\<close>

type_synonym addr = nat

record 'ip ConnState =
  csources :: "('ip, addr) fmap"
  cnext_cleanup :: instant
  creport :: RejectionReport
  counters :: "addr \<Rightarrow> nat"
  next_addr :: addr

datatype ConnectionAdmission = ConnAllowed addr | ConnDenied string "nat option"

definition new_connections :: "instant \<Rightarrow> 'ip ConnState" where
  "new_connections now = \<lparr>csources = fmempty, cnext_cleanup = now, creport = default_report,
     counters = (\<lambda>_. 0), next_addr = 0\<rparr>"

definition conn_deny :: "instant \<Rightarrow> string \<Rightarrow> 'ip ConnState \<Rightarrow> ConnectionAdmission \<times> 'ip ConnState" where
  "conn_deny now outcome st =
     (let (count, r) = record_rejection now (creport st)
      in (ConnDenied outcome count, st\<lparr>creport := r\<rparr>))"

definition cleanup_connections :: "instant \<Rightarrow> 'ip ConnState \<Rightarrow> 'ip ConnState" where
  "cleanup_connections now st =
     st\<lparr>csources := fmfilter (\<lambda>ip. case fmlookup (csources st) ip of
              Some active \<Rightarrow> counters st active \<noteq> 0 | None \<Rightarrow> False) (csources st),
        cnext_cleanup := now + CLEANUP_INTERVAL\<rparr>"

definition entry_or_insert :: "'ip \<Rightarrow> 'ip ConnState \<Rightarrow> addr \<times> 'ip ConnState" where
  "entry_or_insert source st =
     (case fmlookup (csources st) source of
        Some active \<Rightarrow> (active, st)
      | None \<Rightarrow> (next_addr st, st\<lparr>csources := fmupd source (next_addr st) (csources st),
                   counters := (counters st)(next_addr st := 0), next_addr := next_addr st + 1\<rparr>))"

definition connection_room :: "'ip \<Rightarrow> instant \<Rightarrow> 'ip ConnState
    \<Rightarrow> (ConnectionAdmission \<times> 'ip ConnState, 'ip ConnState) result" where
  "connection_room source now st =
     (if fmlookup (csources st) source = None \<and> MAX_TRACKED_SOURCES \<le> fcard (fmdom (csources st))
      then (let st = (if cnext_cleanup st \<le> now then cleanup_connections now st else st)
            in if MAX_TRACKED_SOURCES \<le> fcard (fmdom (csources st))
               then Inl (conn_deny now ''source_tracking_full'' st) else Inr st)
      else Inr st)"

definition check_connection :: "nat \<Rightarrow> 'ip \<Rightarrow> instant \<Rightarrow> 'ip ConnState
    \<Rightarrow> ConnectionAdmission \<times> 'ip ConnState" where
  "check_connection max_per_ip source now st =
     (case connection_room source now st of
        Inl denied \<Rightarrow> denied
      | Inr st \<Rightarrow>
          (let (active, st) = entry_or_insert source st
           in if max_per_ip \<le> counters st active then conn_deny now ''connection_limit'' st
              else (ConnAllowed active, st)))"

definition fetch_add :: "addr \<Rightarrow> 'ip ConnState \<Rightarrow> 'ip ConnState" where
  "fetch_add active st = st\<lparr>counters := (counters st)(active := (counters st active + 1) mod 2 ^ 64)\<rparr>"

definition reserve :: "nat \<Rightarrow> 'ip \<Rightarrow> instant \<Rightarrow> 'ip ConnState \<Rightarrow> ConnectionAdmission \<times> 'ip ConnState" where
  "reserve max_per_ip source now st =
     (case check_connection max_per_ip source now st of
        (ConnAllowed active, st) \<Rightarrow> (ConnAllowed active, fetch_add active st)
      | denied \<Rightarrow> denied)"

definition drop_permit :: "addr \<Rightarrow> 'ip ConnState \<Rightarrow> 'ip ConnState" where
  "drop_permit active st =
     st\<lparr>counters := (counters st)(active :=
        (if counters st active = 0 then max_of 64 else counters st active - 1))\<rparr>"

text \<open>
  The system of one connection limiter and the connections it admitted. \<open>permits\<close> lists the source
  and the counter of every permit that is alive. The limiter's mutex admits one \<open>reserve\<close> at a
  time, but dropping a permit takes no lock: a drop may fall between the load of a counter and its
  \<open>fetch_add\<close>. \<open>pending\<close> is the \<open>reserve\<close> between these two, so connections end at any moment.
\<close>

record 'ip ConnSystem =
  limiter :: "'ip ConnState"
  pending :: "('ip \<times> addr) option"
  permits :: "('ip \<times> addr) list"

inductive conn_step :: "nat \<Rightarrow> 'ip ConnSystem \<Rightarrow> 'ip ConnSystem \<Rightarrow> bool" for max_per_ip where
  checked: "pending s = None \<Longrightarrow> check_connection max_per_ip ip now (limiter s) = (ConnAllowed a, st) \<Longrightarrow>
     conn_step max_per_ip s (s\<lparr>limiter := st, pending := Some (ip, a)\<rparr>)"
| added: "pending s = Some (ip, a) \<Longrightarrow>
     conn_step max_per_ip s
       (s\<lparr>limiter := fetch_add a (limiter s), pending := None, permits := (ip, a) # permits s\<rparr>)"
| refused: "pending s = None \<Longrightarrow>
     check_connection max_per_ip ip now (limiter s) = (ConnDenied why count, st) \<Longrightarrow>
     conn_step max_per_ip s (s\<lparr>limiter := st\<rparr>)"
| closed: "(ip, a) \<in> set (permits s) \<Longrightarrow>
     conn_step max_per_ip s
       (s\<lparr>limiter := drop_permit a (limiter s), permits := remove1 (ip, a) (permits s)\<rparr>)"

inductive conn_reachable :: "nat \<Rightarrow> 'ip ConnSystem \<Rightarrow> bool" for max_per_ip where
  conn_start: "conn_reachable max_per_ip \<lparr>limiter = new_connections now, pending = None, permits = []\<rparr>"
| conn_next: "conn_reachable max_per_ip s \<Longrightarrow> conn_step max_per_ip s t \<Longrightarrow> conn_reachable max_per_ip t"

subsection \<open>Unauthenticated limiter\<close>

record UnauthenticatedLimiter =
  umax :: nat
  active :: nat
  ureport :: RejectionReport

datatype UnauthAdmission = UnauthAllowed | UnauthDenied "nat option"

definition new_unauthenticated :: "nat \<Rightarrow> UnauthenticatedLimiter" where
  "new_unauthenticated maximum = \<lparr>umax = maximum, active = 0, ureport = default_report\<rparr>"

definition unauth_reserve :: "instant \<Rightarrow> UnauthenticatedLimiter \<Rightarrow> UnauthAdmission \<times> UnauthenticatedLimiter" where
  "unauth_reserve now l =
     (if active l < umax l then (UnauthAllowed, l\<lparr>active := active l + 1\<rparr>)
      else (let (count, r) = record_rejection now (ureport l)
            in (UnauthDenied count, l\<lparr>ureport := r\<rparr>)))"

definition unauth_drop :: "UnauthenticatedLimiter \<Rightarrow> UnauthenticatedLimiter" where
  "unauth_drop l = l\<lparr>active := (if active l = 0 then max_of 64 else active l - 1)\<rparr>"

section \<open>Attempt limiter: potential of a source\<close>

text \<open>
  A source's potential at time \<open>t\<close> towards a horizon \<open>T\<close>: what its bucket can still grant until
  \<open>T\<close>. An untracked source has the potential of a full bucket created now, which is why dropping
  full buckets in the cleanup gives nothing away.
\<close>

definition source_potential :: "nat \<Rightarrow> nat \<Rightarrow> instant \<Rightarrow> instant \<Rightarrow> 'ip AttemptState \<Rightarrow> 'ip \<Rightarrow> nat" where
  "source_potential rate burst T t st ip =
     (case fmlookup (sources st) ip of
        Some b \<Rightarrow> bucket.potential rate burst T t b
      | None \<Rightarrow> burst * NANOS_PER_SECOND + rate * (T - t))"

definition attempts_ok :: "nat \<Rightarrow> instant \<Rightarrow> 'ip AttemptState \<Rightarrow> bool" where
  "attempts_ok burst t st \<longleftrightarrow>
     (\<forall>ip b. fmlookup (sources st) ip = Some b \<longrightarrow> bucket_ok burst b \<and> updated_at b \<le> t)"

lemma attempts_ok_new: "attempts_ok burst t (new_attempts t0)"
  by (simp add: attempts_ok_def new_attempts_def)

lemma attempts_okD:
  "attempts_ok burst t st \<Longrightarrow> fmlookup (sources st) ip = Some b \<Longrightarrow> bucket_ok burst b \<and> updated_at b \<le> t"
  by (simp add: attempts_ok_def)

lemma attempts_ok_mono: "attempts_ok burst t st \<Longrightarrow> t \<le> now \<Longrightarrow> attempts_ok burst now st"
  by (fastforce simp: attempts_ok_def)

lemma attempts_ok_upd:
  "attempts_ok burst t st \<Longrightarrow> bucket_ok burst b \<Longrightarrow> updated_at b \<le> t \<Longrightarrow>
   attempts_ok burst t (st\<lparr>sources := fmupd ip b (sources st)\<rparr>)"
  by (simp add: attempts_ok_def)

lemma deny_sources [simp]: "sources (snd (deny now why st)) = sources st"
  by (simp add: deny_def split_beta)

lemma deny_Denied: "\<exists>count. fst (deny now why st) = Denied why count"
  by (simp add: deny_def split_beta)

lemma source_potential_cong:
  "sources st = sources st' \<Longrightarrow> source_potential rate burst T t st = source_potential rate burst T t st'"
  by (simp add: source_potential_def fun_eq_iff)

lemma attempts_ok_cong: "sources st = sources st' \<Longrightarrow> attempts_ok burst t st = attempts_ok burst t st'"
  by (simp add: attempts_ok_def)

lemma source_potential_mono:
  "t \<le> now \<Longrightarrow> source_potential rate burst T now st ip \<le> source_potential rate burst T t st ip"
  by (auto simp: source_potential_def bucket.potential_mono split: option.splits)

lemma cleanup_lookup:
  "fmlookup (sources (cleanup_attempts rate burst now st)) ip =
     (case fmlookup (sources st) ip of None \<Rightarrow> None
      | Some b \<Rightarrow> (let b' = replenish rate burst now b
                  in if available b' < burst then Some b' else None))"
  by (simp add: cleanup_attempts_def Let_def split: option.splits)

lemma cleanup_ok:
  assumes "attempts_ok burst t st" and "t \<le> now"
  shows "attempts_ok burst now (cleanup_attempts rate burst now st)"
  unfolding attempts_ok_def
proof (intro allI impI)
  fix ip b
  assume "fmlookup (sources (cleanup_attempts rate burst now st)) ip = Some b"
  then obtain b0 where b0: "fmlookup (sources st) ip = Some b0" and b: "b = replenish rate burst now b0"
    by (auto simp: cleanup_lookup Let_def split: option.splits if_splits)
  have "updated_at b0 \<le> now" using assms b0 by (fastforce simp: attempts_ok_def)
  then show "bucket_ok burst b \<and> updated_at b \<le> now" by (simp add: b replenish_ok)
qed

lemma full_credit: "bucket_ok burst b \<Longrightarrow> burst \<le> available b \<Longrightarrow> credit_of b = burst * NANOS_PER_SECOND"
  by (auto simp: bucket_ok_def available_def credit_of_def)

lemma cleanup_potential:
  assumes "attempts_ok burst t st" and "t \<le> now" and "now \<le> T"
  shows "source_potential rate burst T now (cleanup_attempts rate burst now st) ip
      \<le> source_potential rate burst T t st ip"
proof (cases "fmlookup (sources st) ip")
  case None
  with assms show ?thesis by (simp add: source_potential_def cleanup_lookup diff_le_mono2)
next
  case (Some b)
  let ?b = "replenish rate burst now b"
  have u: "updated_at b \<le> t" using attempts_okD [OF assms(1) Some] by simp
  have fill: "bucket.potential rate burst T now ?b \<le> bucket.potential rate burst T t b"
    by (rule bucket.potential_fill [OF u assms(2,3)])
  show ?thesis
  proof (cases "available ?b < burst")
    case True
    with Some fill show ?thesis by (simp add: source_potential_def cleanup_lookup Let_def)
  next
    case False
    then have "credit_of ?b = burst * NANOS_PER_SECOND" by (simp add: full_credit replenish_ok)
    moreover have "updated_at ?b = now" using u assms(2) by simp
    ultimately have "bucket.potential rate burst T now ?b = burst * NANOS_PER_SECOND + rate * (T - now)"
      by (simp add: bucket.potential_def del: updated_at_replenish)
    with fill have "burst * NANOS_PER_SECOND + rate * (T - now) \<le> bucket.potential rate burst T t b"
      by simp
    with Some False show ?thesis by (simp add: source_potential_def cleanup_lookup Let_def)
  qed
qed

lemma attempt_room_cases:
  assumes "attempts_ok burst t st" and "t \<le> now" and "now \<le> T"
  obtains (full) count st1 where "attempt_room rate burst ip0 now st = Inl (Denied ''source_tracking_full'' count, st1)"
      "attempts_ok burst now st1" "source_potential rate burst T now st1 ip \<le> source_potential rate burst T t st ip"
  | (room) st1 where "attempt_room rate burst ip0 now st = Inr st1"
      "attempts_ok burst now st1" "source_potential rate burst T now st1 ip \<le> source_potential rate burst T t st ip"
proof -
  let ?st = "if next_cleanup st \<le> now then cleanup_attempts rate burst now st else st"
  have ok: "attempts_ok burst now ?st" "attempts_ok burst now st"
    using assms cleanup_ok attempts_ok_mono by auto
  have pot: "source_potential rate burst T now ?st ip \<le> source_potential rate burst T t st ip"
    "source_potential rate burst T now st ip \<le> source_potential rate burst T t st ip"
    using assms cleanup_potential source_potential_mono by auto
  obtain count where d: "fst (deny now ''source_tracking_full'' ?st) = Denied ''source_tracking_full'' count"
    using deny_Denied by blast
  let ?d = "snd (deny now ''source_tracking_full'' ?st)"
  have deq: "deny now ''source_tracking_full'' ?st = (Denied ''source_tracking_full'' count, ?d)"
    using d by (metis prod.collapse)
  have s: "sources ?d = sources ?st" by simp
  have dok: "attempts_ok burst now ?d" using ok(1) attempts_ok_cong [OF s] by simp
  have dpot: "source_potential rate burst T now ?d ip \<le> source_potential rate burst T t st ip"
    using pot(1) source_potential_cong [OF s] by metis
  show thesis
  proof (cases "fmlookup (sources st) ip0 = None \<and> MAX_TRACKED_SOURCES \<le> fcard (fmdom (sources st))")
    case False
    then have "attempt_room rate burst ip0 now st = Inr st" by (auto simp: attempt_room_def)
    with ok pot room show ?thesis by blast
  next
    case True
    show ?thesis
    proof (cases "MAX_TRACKED_SOURCES \<le> fcard (fmdom (sources ?st))")
      case full': True
      then have "attempt_room rate burst ip0 now st = Inl (deny now ''source_tracking_full'' ?st)"
        using True by (simp add: attempt_room_def Let_def)
      then show ?thesis using full deq dok dpot by metis
    next
      case space: False
      then have "attempt_room rate burst ip0 now st = Inr ?st"
        using True by (simp add: attempt_room_def Let_def)
      then show ?thesis using room ok(1) pot(1) by blast
    qed
  qed
qed

lemma fmupd_twice [simp]: "fmupd k v (fmupd k w m) = fmupd k v m"
  by (rule fmap_ext) simp

lemma spend_attempt_cases:
  obtains (limited) count r b where
      "spend_attempt rate burst source now st = Some (Denied ''rate_limited'' count,
         st\<lparr>sources := fmupd source b (sources st), report := r\<rparr>)"
      "b = replenish rate burst now
         (case fmlookup (sources st) source of Some b \<Rightarrow> b | None \<Rightarrow> new_bucket burst now)"
  | (spent) b b' where
      "spend_attempt rate burst source now st = Some (Allowed, st\<lparr>sources := fmupd source b' (sources st)\<rparr>)"
      "consume 1 b = Some b'"
      "b = replenish rate burst now
         (case fmlookup (sources st) source of Some b \<Rightarrow> b | None \<Rightarrow> new_bucket burst now)"
proof -
  define b where "b = replenish rate burst now
      (case fmlookup (sources st) source of Some b \<Rightarrow> b | None \<Rightarrow> new_bucket burst now)"
  show thesis
  proof (cases "available b = 0")
    case True
    then show ?thesis
      using limited [OF _ b_def]
      by (simp add: spend_attempt_def Let_def b_def [symmetric] deny_def split_beta)
  next
    case False
    then obtain b' where b': "consume 1 b = Some b'" by (simp add: consume_def available_def)
    with False show ?thesis
      using spent [OF _ b' b_def]
      by (simp add: spend_attempt_def Let_def b_def [symmetric])
  qed
qed

lemma spend_attempt_step:
  assumes ok: "attempts_ok burst now st" and "now \<le> T"
  obtains a st' where "spend_attempt rate burst source now st = Some (a, st')"
    "attempts_ok burst now st'"
    "(if source = ip \<and> a = Allowed then NANOS_PER_SECOND else 0) + source_potential rate burst T now st' ip
       \<le> source_potential rate burst T now st ip"
proof -
  define b0 where "b0 = (case fmlookup (sources st) source of Some b \<Rightarrow> b | None \<Rightarrow> new_bucket burst now)"
  define b where "b = replenish rate burst now b0"
  have b0u: "updated_at b0 \<le> now"
    using ok by (auto simp: b0_def attempts_ok_def new_bucket_def split: option.splits)
  have bok: "bucket_ok burst b" and bu: "updated_at b = now" using b0u by (simp_all add: b_def replenish_ok)
  have old: "source_potential rate burst T now st source = bucket.potential rate burst T now b0"
    by (auto simp: b0_def source_potential_def bucket.potential_def new_bucket_def credit_of_def
        split: option.splits)
  have fill: "bucket.potential rate burst T now b \<le> source_potential rate burst T now st source"
    unfolding old b_def by (rule bucket.potential_fill [OF b0u order_refl \<open>now \<le> T\<close>])
  have upd: "source_potential rate burst T now (st\<lparr>sources := fmupd source b1 (sources st)\<rparr>) ip =
      (if source = ip then bucket.potential rate burst T now b1 else source_potential rate burst T now st ip)" for b1
    by (simp add: source_potential_def)
  show thesis
  proof (cases rule: spend_attempt_cases [where st = st and source = source and now = now and rate = rate
        and burst = burst])
    case (limited count r b1)
    have b1: "b1 = b" using limited(2) by (simp add: b_def b0_def)
    let ?st = "st\<lparr>sources := fmupd source b (sources st), report := r\<rparr>"
    have "attempts_ok burst now ?st"
      using attempts_ok_upd [OF ok bok] bu
        attempts_ok_cong [of ?st "st\<lparr>sources := fmupd source b (sources st)\<rparr>"] by simp
    moreover have "source_potential rate burst T now ?st ip \<le> source_potential rate burst T now st ip"
      using upd [of b] fill source_potential_cong [of ?st "st\<lparr>sources := fmupd source b (sources st)\<rparr>"]
      by auto
    ultimately show ?thesis using that limited(1) b1 by simp
  next
    case (spent b1 b')
    have c: "consume 1 b = Some b'" using spent(2,3) by (simp add: b_def b0_def)
    have "attempts_ok burst now (st\<lparr>sources := fmupd source b' (sources st)\<rparr>)"
      using attempts_ok_upd [OF ok consume_ok [OF bok c]] updated_at_consume [OF c] bu by simp
    moreover have "bucket.potential rate burst T now b' + 1 * NANOS_PER_SECOND
        \<le> source_potential rate burst T now st source"
      using bucket.potential_spend [OF c bok bu] fill by (rule order_trans)
    ultimately show ?thesis
      by (intro that [OF spent(1)]) (auto simp: upd [of b'] add.commute)
  qed
qed

lemma admit_step:
  assumes "attempts_ok burst t st" and "t \<le> now" and "now \<le> T"
  obtains a st' where "admit rate burst source now st = Some (a, st')"
    "attempts_ok burst now st'"
    "(if source = ip \<and> a = Allowed then NANOS_PER_SECOND else 0) + source_potential rate burst T now st' ip
       \<le> source_potential rate burst T t st ip"
  using assms
proof (cases rule: attempt_room_cases [where rate = rate and ?ip0.0 = source and ip = ip])
  case (full count st1)
  then show ?thesis using that by (simp add: admit_def)
next
  case (room st1)
  obtain a st' where "spend_attempt rate burst source now st1 = Some (a, st')"
    "attempts_ok burst now st'"
    "(if source = ip \<and> a = Allowed then NANOS_PER_SECOND else 0) + source_potential rate burst T now st' ip
       \<le> source_potential rate burst T now st1 ip"
    by (rule spend_attempt_step [OF room(2) assms(3)])
  then show ?thesis using that [of a st'] room(1,3) by (simp add: admit_def)
qed

lemma admit_all_potential:
  "attempts_ok burst t st \<Longrightarrow> sorted (t # map snd reqs @ [T]) \<Longrightarrow>
   \<exists>as st'. admit_all rate burst reqs st = Some (as, st') \<and> length as = length reqs \<and>
     attempts_ok burst T st' \<and>
     granted ip reqs as * NANOS_PER_SECOND \<le> source_potential rate burst T t st ip"
proof (induction reqs arbitrary: t st)
  case Nil
  then show ?case by (auto simp: granted_def attempts_ok_mono)
next
  case (Cons req reqs)
  obtain source now where req: "req = (source, now)" by force
  have t: "t \<le> now" "now \<le> T" and s: "sorted (now # map snd reqs @ [T])"
    using Cons.prems(2) by (auto simp: req)
  obtain a st1 where a: "admit rate burst source now st = Some (a, st1)" "attempts_ok burst now st1"
    "(if source = ip \<and> a = Allowed then NANOS_PER_SECOND else 0) + source_potential rate burst T now st1 ip
       \<le> source_potential rate burst T t st ip"
    by (rule admit_step [OF Cons.prems(1) t])
  obtain as st' where as: "admit_all rate burst reqs st1 = Some (as, st')" "length as = length reqs"
    "attempts_ok burst T st'"
    "granted ip reqs as * NANOS_PER_SECOND \<le> source_potential rate burst T now st1 ip"
    using Cons.IH [OF a(2) s] by blast
  have "granted ip (req # reqs) (a # as) = (if source = ip \<and> a = Allowed then 1 else 0) + granted ip reqs as"
    by (simp add: granted_def req)
  then show ?case using a as by (auto simp: req split: if_splits)
qed

lemma source_potential_bound:
  "source_potential rate burst T t st ip \<le> burst * NANOS_PER_SECOND + rate * (T - t)"
  using bucket.potential_bound by (auto simp: source_potential_def split: option.splits)

lemma fcard_fmupd: "fcard (fmdom (fmupd k v m)) = (if fmlookup m k = None then fcard (fmdom m) + 1 else fcard (fmdom m))"
  by (auto simp: fcard_finsert_if fmlookup_dom_iff)

lemma spend_attempt_table:
  assumes "spend_attempt rate burst source now st = Some (a, st')"
  shows "\<exists>b. sources st' = fmupd source b (sources st)"
  using assms by (cases rule: spend_attempt_cases [where st = st and source = source and now = now
      and rate = rate and burst = burst]) auto

lemma cleanup_attempts_table: "fmdom (sources (cleanup_attempts rate burst now st)) |\<subseteq>| fmdom (sources st)"
  by (auto simp: cleanup_attempts_def Let_def)

lemma admit_table:
  assumes "admit rate burst source now st = Some (a, st')"
    and bound: "fcard (fmdom (sources st)) \<le> MAX_TRACKED_SOURCES"
  shows "fcard (fmdom (sources st')) \<le> MAX_TRACKED_SOURCES"
proof -
  let ?st = "if next_cleanup st \<le> now then cleanup_attempts rate burst now st else st"
  have le: "fcard (fmdom (sources ?st)) \<le> MAX_TRACKED_SOURCES"
    using bound fcard_mono [OF cleanup_attempts_table [of rate burst now st]] by auto
  have room: "fcard (fmdom (sources st1)) \<le> MAX_TRACKED_SOURCES \<and>
      (fmlookup (sources st1) source = None \<longrightarrow> fcard (fmdom (sources st1)) < MAX_TRACKED_SOURCES)"
    if "attempt_room rate burst source now st = Inr st1" for st1
    using that bound le by (auto simp: attempt_room_def Let_def split: if_splits)
  have full: "fcard (fmdom (sources (snd d))) \<le> MAX_TRACKED_SOURCES"
    if "attempt_room rate burst source now st = Inl d" for d
    using that le by (auto simp: attempt_room_def Let_def split: if_splits)
  show ?thesis
  proof (cases "attempt_room rate burst source now st")
    case (Inl d)
    with full [OF Inl] assms(1) show ?thesis by (simp add: admit_def)
  next
    case (Inr st1)
    with assms(1) have "spend_attempt rate burst source now st1 = Some (a, st')" by (simp add: admit_def)
    from spend_attempt_table [OF this] room [OF Inr] show ?thesis by (auto simp: fcard_fmupd simp del: fmdom_fmupd)
  qed
qed

section \<open>Connection limiter: counters and permits\<close>

definition live :: "'ip ConnSystem \<Rightarrow> addr \<Rightarrow> nat" where
  "live s a = length (filter (\<lambda>p. snd p = a) (permits s))"

definition conn_inv :: "nat \<Rightarrow> 'ip ConnSystem \<Rightarrow> bool" where
  "conn_inv max_per_ip s \<longleftrightarrow>
     (\<forall>a. counters (limiter s) a = live s a) \<and>
     (\<forall>ip a. (ip, a) \<in> set (permits s) \<or> pending s = Some (ip, a)
        \<longrightarrow> fmlookup (csources (limiter s)) ip = Some a) \<and>
     (\<forall>ip a. fmlookup (csources (limiter s)) ip = Some a \<longrightarrow> a < next_addr (limiter s)) \<and>
     (\<forall>ip ip' a. fmlookup (csources (limiter s)) ip = Some a \<and> fmlookup (csources (limiter s)) ip' = Some a
        \<longrightarrow> ip = ip') \<and>
     (\<forall>a. live s a \<le> max_per_ip) \<and>
     (\<forall>ip a. pending s = Some (ip, a) \<longrightarrow> live s a < max_per_ip) \<and>
     fcard (fmdom (csources (limiter s))) \<le> MAX_TRACKED_SOURCES"

text \<open>
  What a cleanup or a report may do to the limiter: forget sources whose counter is zero.
\<close>

definition forgets :: "'ip ConnState \<Rightarrow> 'ip ConnState \<Rightarrow> bool" where
  "forgets st st' \<longleftrightarrow>
     counters st' = counters st \<and> next_addr st' = next_addr st \<and>
     fmdom (csources st') |\<subseteq>| fmdom (csources st) \<and>
     (\<forall>ip a. fmlookup (csources st') ip = Some a \<longrightarrow> fmlookup (csources st) ip = Some a) \<and>
     (\<forall>ip a. fmlookup (csources st) ip = Some a \<and> counters st a \<noteq> 0 \<longrightarrow> fmlookup (csources st') ip = Some a)"

lemma forgetsD:
  assumes "forgets st st'"
  shows "counters st' = counters st" and "next_addr st' = next_addr st"
    and "fmdom (csources st') |\<subseteq>| fmdom (csources st)"
    and "fmlookup (csources st') ip = Some a \<Longrightarrow> fmlookup (csources st) ip = Some a"
    and "fmlookup (csources st) ip = Some a \<Longrightarrow> counters st a \<noteq> 0 \<Longrightarrow> fmlookup (csources st') ip = Some a"
  using assms unfolding forgets_def by blast+

lemma forgets_cleanup: "forgets st (cleanup_connections now st)"
  by (auto simp: forgets_def cleanup_connections_def)

lemma forgets_deny [simp]: "forgets st (snd (conn_deny now why st')) = forgets st st'"
  by (simp add: conn_deny_def split_beta) (simp add: forgets_def)

lemma forgets_refl: "forgets st st"
  by (simp add: forgets_def)

lemma conn_deny_Denied: "\<exists>why' count. fst (conn_deny now why st) = ConnDenied why' count"
  by (simp add: conn_deny_def split_beta)

lemma connection_room_forgets:
  "connection_room ip now st = Inr st' \<Longrightarrow> forgets st st'"
  "connection_room ip now st = Inl d \<Longrightarrow> forgets st (snd d) \<and> (\<exists>why count. fst d = ConnDenied why count)"
  using conn_deny_Denied
  by (auto simp: connection_room_def Let_def forgets_cleanup forgets_refl forgets_deny split: if_splits)

lemma connection_room_space:
  "connection_room ip now st = Inr st' \<Longrightarrow> fcard (fmdom (csources st)) \<le> MAX_TRACKED_SOURCES \<Longrightarrow>
   fmlookup (csources st') ip = None \<longrightarrow> fcard (fmdom (csources st')) < MAX_TRACKED_SOURCES"
  by (auto simp: connection_room_def Let_def split: if_splits)

lemma live_zero_iff: "live s a = 0 \<longleftrightarrow> a \<notin> snd ` set (permits s)"
  by (auto simp: live_def filter_empty_conv)

lemma conn_invD:
  assumes "conn_inv m s"
  shows "counters (limiter s) a = live s a"
    and "(ip, a) \<in> set (permits s) \<Longrightarrow> fmlookup (csources (limiter s)) ip = Some a"
    and "pending s = Some (ip, a) \<Longrightarrow> fmlookup (csources (limiter s)) ip = Some a"
    and "fmlookup (csources (limiter s)) ip = Some a \<Longrightarrow> a < next_addr (limiter s)"
    and "fmlookup (csources (limiter s)) ip = Some a \<Longrightarrow> fmlookup (csources (limiter s)) ip' = Some a \<Longrightarrow> ip = ip'"
    and "live s a \<le> m"
    and "pending s = Some (ip, a) \<Longrightarrow> live s a < m"
    and "fcard (fmdom (csources (limiter s))) \<le> MAX_TRACKED_SOURCES"
  using assms unfolding conn_inv_def by blast+

lemma conn_invI:
  assumes "\<And>a. counters (limiter s) a = live s a"
    and "\<And>ip a. (ip, a) \<in> set (permits s) \<Longrightarrow> fmlookup (csources (limiter s)) ip = Some a"
    and "\<And>ip a. pending s = Some (ip, a) \<Longrightarrow> fmlookup (csources (limiter s)) ip = Some a \<and> live s a < m"
    and "\<And>ip a. fmlookup (csources (limiter s)) ip = Some a \<Longrightarrow> a < next_addr (limiter s)"
    and "\<And>ip ip' a. fmlookup (csources (limiter s)) ip = Some a \<Longrightarrow>
       fmlookup (csources (limiter s)) ip' = Some a \<Longrightarrow> ip = ip'"
    and "\<And>a. live s a \<le> m"
    and "fcard (fmdom (csources (limiter s))) \<le> MAX_TRACKED_SOURCES"
  shows "conn_inv m s"
  unfolding conn_inv_def by (intro conjI allI impI) (use assms in \<open>blast+\<close>)

lemma live_limiter [simp]:
  "live (s\<lparr>limiter := st\<rparr>) = live s" "live (s\<lparr>pending := p\<rparr>) = live s"
  by (simp_all add: live_def fun_eq_iff)

lemma conn_inv_forget:
  assumes inv: "conn_inv m s" and "pending s = None" and f: "forgets (limiter s) st"
  shows "conn_inv m (s\<lparr>limiter := st\<rparr>)"
proof -
  note d = conn_invD [OF inv]
  have card: "fcard (fmdom (csources st)) \<le> MAX_TRACKED_SOURCES"
    by (rule order_trans [OF fcard_mono [OF forgetsD(3) [OF f]] d(8)])
  have held: "fmlookup (csources st) ip = Some a" if "(ip, a) \<in> set (permits s)" for ip a
  proof (rule forgetsD(5) [OF f d(2) [OF that]])
    show "counters (limiter s) a \<noteq> 0" using that by (auto simp: d(1) live_zero_iff intro: rev_image_eqI)
  qed
  note sub = forgetsD(4) [OF f] and st = forgetsD(1,2) [OF f]
  show ?thesis
    by (rule conn_invI)
      (use assms(2) card held d(4) [OF sub] d(1,6) in \<open>simp_all add: st\<close>, use d(5) [OF sub sub] in blast)
qed

lemma conn_inv_entry:
  assumes inv: "conn_inv m s" and "pending s = None"
    and e: "entry_or_insert ip (limiter s) = (a, st)"
    and space: "fmlookup (csources (limiter s)) ip = None \<longrightarrow>
      fcard (fmdom (csources (limiter s))) < MAX_TRACKED_SOURCES"
  shows "conn_inv m (s\<lparr>limiter := st\<rparr>)" and "fmlookup (csources st) ip = Some a"
proof -
  note d = conn_invD [OF inv]
  show "fmlookup (csources st) ip = Some a"
    using e by (auto simp: entry_or_insert_def split: option.splits)
  show "conn_inv m (s\<lparr>limiter := st\<rparr>)"
  proof (cases "fmlookup (csources (limiter s)) ip")
    case (Some a')
    with e have "s\<lparr>limiter := st\<rparr> = s" by (cases s) (simp add: entry_or_insert_def)
    with inv show ?thesis by simp
  next
    case None
    let ?n = "next_addr (limiter s)" and ?m = "csources (limiter s)"
    have st: "st = (limiter s)\<lparr>csources := fmupd ip ?n ?m,
        counters := (counters (limiter s))(?n := 0), next_addr := ?n + 1\<rparr>"
      using e None by (auto simp: entry_or_insert_def)
    have "?n \<notin> snd ` set (permits s)" using d(2,4) by fastforce
    then have c: "live s ?n = 0" by (simp add: live_zero_iff)
    have held: "fmlookup (fmupd ip ?n ?m) ip' = Some b" if "(ip', b) \<in> set (permits s)" for ip' b
      using d(2) [OF that] None by auto
    have lt: "b < ?n + 1" if "fmlookup (fmupd ip ?n ?m) ip' = Some b" for ip' b
      using that d(4) by (fastforce split: if_splits)
    have inj: "ip1 = ip2" if "fmlookup (fmupd ip ?n ?m) ip1 = Some b" "fmlookup (fmupd ip ?n ?m) ip2 = Some b"
      for ip1 ip2 b
      using that d(5) d(4) [of _ ?n] by (auto split: if_splits)
    have card: "fcard (fmdom (fmupd ip ?n ?m)) \<le> MAX_TRACKED_SOURCES"
      using None space by (simp add: fcard_fmupd del: fmdom_fmupd)
    show ?thesis
      by (rule conn_invI)
        (use assms(2) c d(1,6) card held lt in \<open>simp_all add: st del: fmdom_fmupd fmupd_lookup\<close>,
          use inj in blast)
  qed
qed

lemma conn_inv_pending:
  assumes "conn_inv m s" and "fmlookup (csources (limiter s)) ip = Some a"
    and "counters (limiter s) a < m"
  shows "conn_inv m (s\<lparr>pending := Some (ip, a)\<rparr>)"
  by (rule conn_invI)
    (use conn_invD(1,2,4,6,8) [OF assms(1)] assms(2,3) in simp_all, use conn_invD(5) [OF assms(1)] in blast)

lemma conn_inv_checked:
  assumes inv: "conn_inv m s" and p: "pending s = None"
    and c: "check_connection m ip now (limiter s) = (ConnAllowed a, st)"
  shows "conn_inv m (s\<lparr>limiter := st, pending := Some (ip, a)\<rparr>)"
proof -
  obtain st1 where room: "connection_room ip now (limiter s) = Inr st1"
    using c connection_room_forgets(2) [of ip now "limiter s"]
    by (cases "connection_room ip now (limiter s)") (auto simp: check_connection_def)
  have inv1: "conn_inv m (s\<lparr>limiter := st1\<rparr>)"
    by (rule conn_inv_forget [OF inv p connection_room_forgets(1) [OF room]])
  obtain a' st' where e: "entry_or_insert ip st1 = (a', st')" by force
  have ok: "a' = a" "st' = st" "counters st a < m"
    using c conn_deny_Denied [of now "''connection_limit''" st']
    by (auto simp: check_connection_def room e split: if_splits)
  have space: "fmlookup (csources st1) ip = None \<longrightarrow> fcard (fmdom (csources st1)) < MAX_TRACKED_SOURCES"
    by (rule connection_room_space [OF room conn_invD(8) [OF inv]])
  have e': "entry_or_insert ip (limiter (s\<lparr>limiter := st1\<rparr>)) = (a, st)" using e ok by simp
  have inv2: "conn_inv m (s\<lparr>limiter := st\<rparr>)" and l: "fmlookup (csources st) ip = Some a"
    using conn_inv_entry [OF inv1 _ e'] p space by simp_all
  show ?thesis using conn_inv_pending [OF inv2] l ok(3) by simp
qed

lemma conn_inv_refused:
  assumes inv: "conn_inv m s" and p: "pending s = None"
    and c: "check_connection m ip now (limiter s) = (ConnDenied why count, st)"
  shows "conn_inv m (s\<lparr>limiter := st\<rparr>)"
proof (cases "connection_room ip now (limiter s)")
  case (Inl d)
  have st: "st = snd d" using c Inl by (simp add: check_connection_def)
  show ?thesis unfolding st
    by (rule conn_inv_forget [OF inv p]) (use connection_room_forgets(2) [OF Inl] in blast)
next
  case (Inr st1)
  have inv1: "conn_inv m (s\<lparr>limiter := st1\<rparr>)"
    by (rule conn_inv_forget [OF inv p connection_room_forgets(1) [OF Inr]])
  obtain a st' where e: "entry_or_insert ip st1 = (a, st')" by force
  have st: "st = snd (conn_deny now ''connection_limit'' st')"
    using c by (auto simp: check_connection_def Inr e split: if_splits)
  have space: "fmlookup (csources st1) ip = None \<longrightarrow> fcard (fmdom (csources st1)) < MAX_TRACKED_SOURCES"
    by (rule connection_room_space [OF Inr conn_invD(8) [OF inv]])
  have e': "entry_or_insert ip (limiter (s\<lparr>limiter := st1\<rparr>)) = (a, st')" using e by simp
  have "conn_inv m (s\<lparr>limiter := st'\<rparr>)"
    using conn_inv_entry(1) [OF inv1 _ e'] p space by simp
  from conn_inv_forget [OF this, of st] show ?thesis using p st forgets_refl [of st'] by simp
qed

lemma conn_inv_added:
  assumes inv: "conn_inv m s" and p: "pending s = Some (ip, a)" and m: "m \<le> max_of 64"
  shows "conn_inv m (s\<lparr>limiter := fetch_add a (limiter s), pending := None, permits := (ip, a) # permits s\<rparr>)"
    (is "conn_inv m ?s")
proof -
  note d = conn_invD [OF inv]
  have "live s a + 1 < 2 ^ 64" using d(7) [OF p] m by (simp add: max_of_def)
  then have c: "counters (limiter ?s) b = live ?s b" for b
    by (simp add: fetch_add_def d(1) live_def)
  have l: "live ?s b \<le> m" for b using d(6) [of b] d(7) [OF p] by (auto simp: live_def)
  show ?thesis
    by (rule conn_invI) (use c l d(2,3,4,8) p in \<open>auto simp: fetch_add_def\<close>, use d(5) in blast)
qed

lemma live_remove1:
  "(ip, a) \<in> set (permits s) \<Longrightarrow>
   live (s\<lparr>permits := remove1 (ip, a) (permits s)\<rparr>) b = (if b = a then live s b - 1 else live s b)"
  by (auto simp: live_def filter_remove1 length_remove1)

lemma conn_inv_closed:
  assumes inv: "conn_inv m s" and held: "(ip, a) \<in> set (permits s)"
  shows "conn_inv m (s\<lparr>limiter := drop_permit a (limiter s), permits := remove1 (ip, a) (permits s)\<rparr>)"
    (is "conn_inv m ?s")
proof -
  note d = conn_invD [OF inv]
  have "live s a \<noteq> 0" using held by (auto simp: live_zero_iff intro: rev_image_eqI)
  moreover have l: "live ?s b = (if b = a then live s b - 1 else live s b)" for b
    using live_remove1 [OF held, of b] by (simp add: live_def)
  ultimately have c: "counters (limiter ?s) b = live ?s b" for b
    by (simp add: drop_permit_def d(1))
  have le: "live ?s b \<le> live s b" for b by (simp add: l)
  have lim: "live ?s b \<le> m" for b using le d(6) by (rule order_trans)
  have pend: "live ?s b < m" if "pending s = Some (ip', b)" for ip' b
    using le d(7) [OF that] by (rule le_less_trans)
  show ?thesis
    by (rule conn_invI)
      (use c lim pend d(2,3,4,8) in \<open>auto simp: drop_permit_def dest: set_remove1_subset [THEN subsetD]\<close>, use d(5) in blast)
qed

lemma conn_inv_step: "conn_step m s t \<Longrightarrow> m \<le> max_of 64 \<Longrightarrow> conn_inv m s \<Longrightarrow> conn_inv m t"
  by (induction rule: conn_step.induct)
    (auto intro: conn_inv_checked conn_inv_added conn_inv_refused conn_inv_closed)

lemma conn_inv_reachable: "conn_reachable m s \<Longrightarrow> m \<le> max_of 64 \<Longrightarrow> conn_inv m s"
proof (induction rule: conn_reachable.induct)
  case (conn_start now)
  show ?case by (rule conn_invI) (simp_all add: new_connections_def live_def fcard_fempty)
next
  case (conn_next s t)
  then show ?case using conn_inv_step by blast
qed

lemma permits_of_source:
  assumes "conn_inv m s" and "fmlookup (csources (limiter s)) ip = Some a"
  shows "filter (\<lambda>p. fst p = ip) (permits s) = filter (\<lambda>p. snd p = a) (permits s)"
proof (rule filter_cong [OF refl])
  fix p assume "p \<in> set (permits s)"
  then have "fmlookup (csources (limiter s)) (fst p) = Some (snd p)"
    using conn_invD(2) [OF assms(1), of "fst p" "snd p"] by simp
  then show "(fst p = ip) = (snd p = a)" using assms conn_invD(5) [OF assms(1)] by auto
qed

lemma permits_of_unknown:
  assumes "conn_inv m s" and "fmlookup (csources (limiter s)) ip = None"
  shows "filter (\<lambda>p. fst p = ip) (permits s) = []"
  using conn_invD(2) [OF assms(1)] assms(2) by (fastforce simp: filter_empty_conv)

section \<open>Pools of permits\<close>

text \<open>
  The contract of a counter with permits: taking succeeds exactly below the limit and counts one
  more, failing leaves the count, giving back counts one less. A run keeps the number of permits alive.
\<close>

datatype 'x pool_op = Take 'x | Give

fun pool_run :: "('x \<Rightarrow> 's \<Rightarrow> bool \<times> 's) \<Rightarrow> ('s \<Rightarrow> 's) \<Rightarrow> 'x pool_op list \<Rightarrow> 's \<times> nat \<Rightarrow> 's \<times> nat" where
  "pool_run tak giv [] (s, n) = (s, n)"
| "pool_run tak giv (Take x # ops) (s, n) =
     (case tak x s of (True, s') \<Rightarrow> pool_run tak giv ops (s', n + 1)
      | (False, s') \<Rightarrow> pool_run tak giv ops (s', n))"
| "pool_run tak giv (Give # ops) (s, n) =
     (if n = 0 then pool_run tak giv ops (s, n) else pool_run tak giv ops (giv s, n - 1))"

locale permit_pool =
  fixes tak :: "'x \<Rightarrow> 's \<Rightarrow> bool \<times> 's" and giv :: "'s \<Rightarrow> 's"
    and used :: "'s \<Rightarrow> nat" and limit :: "'s \<Rightarrow> nat"
  assumes take_iff: "fst (tak x s) \<longleftrightarrow> used s < limit s"
    and take_used: "used (snd (tak x s)) = (if fst (tak x s) then used s + 1 else used s)"
    and take_limit: "limit (snd (tak x s)) = limit s"
    and give_used: "used s \<noteq> 0 \<Longrightarrow> used (giv s) = used s - 1"
    and give_limit: "limit (giv s) = limit s"
begin

lemma run_exact:
  "pool_run tak giv ops (s, n) = (s', n') \<Longrightarrow> used s = n \<Longrightarrow> n \<le> limit s \<Longrightarrow>
   used s' = n' \<and> n' \<le> limit s' \<and> limit s' = limit s"
proof (induction ops arbitrary: s n)
  case (Cons op ops)
  show ?case
  proof (cases op)
    case (Take x)
    obtain r t where t: "tak x s = (r, t)" by force
    have facts: "r \<longleftrightarrow> used s < limit s" "used t = (if r then used s + 1 else used s)" "limit t = limit s"
      using take_iff [of x s] take_used [of x s] take_limit [of x s] by (simp_all add: t)
    have "pool_run tak giv ops (t, if r then n + 1 else n) = (s', n')"
      using Cons.prems(1) by (cases r) (simp_all add: Take t)
    from Cons.IH [OF this] show ?thesis using facts Cons.prems(2,3) by (cases r) simp_all
  next
    case Give
    show ?thesis
    proof (cases "n = 0")
      case True
      then show ?thesis using Cons.IH [of s n] Cons.prems by (simp add: Give)
    next
      case False
      then have "pool_run tak giv ops (giv s, n - 1) = (s', n')" "used (giv s) = n - 1"
        using Cons.prems by (simp_all add: Give give_used)
      moreover have "n - 1 \<le> limit (giv s)" using Cons.prems(3) by (simp add: give_limit)
      ultimately show ?thesis using Cons.IH give_limit by metis
    qed
  qed
qed simp

end

interpretation unauth: permit_pool
  "\<lambda>now l. case unauth_reserve now l of (UnauthAllowed, l') \<Rightarrow> (True, l') | (UnauthDenied _, l') \<Rightarrow> (False, l')"
  unauth_drop active umax
  by unfold_locales (auto simp: unauth_reserve_def unauth_drop_def Let_def split: prod.splits if_splits)

lemma connection_room_outcome:
  "connection_room ip now st = Inl d \<Longrightarrow> \<exists>count. fst d = ConnDenied ''source_tracking_full'' count"
  by (auto simp: connection_room_def conn_deny_def Let_def split_beta split: if_splits)

lemma admit_all_table:
  "admit_all rate burst reqs st0 = Some (as, st) \<Longrightarrow>
   fcard (fmdom (sources st0)) \<le> MAX_TRACKED_SOURCES \<Longrightarrow> fcard (fmdom (sources st)) \<le> MAX_TRACKED_SOURCES"
proof (induction reqs arbitrary: st0 as)
  case (Cons req reqs)
  obtain source now where req: "req = (source, now)" by force
  obtain a st1 as' where a: "admit rate burst source now st0 = Some (a, st1)"
    and as: "admit_all rate burst reqs st1 = Some (as', st)"
    using Cons.prems(1) by (auto simp: req split: option.splits)
  show ?case by (rule Cons.IH [OF as admit_table [OF a Cons.prems(2)]])
qed simp

text \<open>A system with one live connection, for the witnesses.\<close>

definition one_connection :: "'ip \<Rightarrow> instant \<Rightarrow> 'ip ConnSystem" where
  "one_connection ip now =
     \<lparr>limiter = fetch_add 0 (snd (check_connection 1 ip now (new_connections now))),
      pending = None, permits = [(ip, 0)]\<rparr>"

lemmas attempt_eval = admit_def attempt_room_def spend_attempt_def new_attempts_def new_bucket_def
  MAX_TRACKED_SOURCES_def deny_def fcard_fempty bucket_eval

lemmas connection_eval = check_connection_def connection_room_def entry_or_insert_def conn_deny_def
  new_connections_def MAX_TRACKED_SOURCES_def fetch_add_def record_rejection_def default_report_def
  fcard_fempty width_simps

lemma one_connection_reachable: "conn_reachable 1 (one_connection ip now)"
proof -
  let ?s0 = "\<lparr>limiter = new_connections now, pending = None, permits = []\<rparr>"
  let ?c = "check_connection 1 ip now (new_connections now)"
  have c: "check_connection 1 ip now (limiter ?s0) = (ConnAllowed 0, snd ?c)"
    by (simp add: connection_eval)
  have "conn_reachable 1 (?s0\<lparr>limiter := snd ?c, pending := Some (ip, 0)\<rparr>)"
    by (rule conn_next [OF conn_start checked]) (use c in simp_all)
  from conn_next [OF this added] show ?thesis by (simp add: one_connection_def)
qed

section \<open>Rejection report: accounting\<close>

fun record_all :: "instant list \<Rightarrow> RejectionReport \<Rightarrow> nat option list \<times> RejectionReport" where
  "record_all [] r = ([], r)"
| "record_all (now # nows) r =
     (let (out, r1) = record_rejection now r; (outs, r2) = record_all nows r1 in (out # outs, r2))"

definition reported :: "nat option list \<Rightarrow> nat" where
  "reported outs = sum_list (map (\<lambda>o'. case o' of None \<Rightarrow> 0 | Some n \<Rightarrow> n) outs)"

lemma record_rejection_count:
  assumes "unreported_rejections r < max_of 64" and "record_rejection now r = (out, r')"
  shows "reported [out] + unreported_rejections r' = unreported_rejections r + 1"
  using assms by (auto simp: record_rejection_def reported_def saturating_add_exact Let_def split: if_splits)

lemma record_all_count:
  "unreported_rejections r + length nows \<le> max_of 64 \<Longrightarrow> record_all nows r = (outs, r') \<Longrightarrow>
   reported outs + unreported_rejections r' = unreported_rejections r + length nows"
proof (induction nows arbitrary: r outs)
  case (Cons now nows)
  obtain out r1 where 1: "record_rejection now r = (out, r1)" by force
  obtain outs' where 2: "record_all nows r1 = (outs', r')" "outs = out # outs'"
    using Cons.prems(2) by (auto simp: 1 split: prod.splits)
  have c: "reported [out] + unreported_rejections r1 = unreported_rejections r + 1"
    using record_rejection_count [OF _ 1] Cons.prems(1) by simp
  then have "reported outs' + unreported_rejections r' = unreported_rejections r1 + length nows"
    using Cons.IH [OF _ 2(1)] Cons.prems(1) by simp
  with c show ?case by (simp add: 2(2) reported_def)
qed (simp add: reported_def)

section \<open>Properties\<close>

text \<open>
  C13. Per-source rate conformance of the attempt limiter. For any interleaving of the attempts of
  all sources, with the clock not going backwards, no call panics and the attempts of one source
  admitted in a window of the run are at most the burst plus the rate times the length of the
  window. Dropping the buckets of idle sources when the table is full does not break the bound.
\<close>
theorem attempts_rate_bound:
  assumes "sorted (t0 # map snd earlier @ [t])" and "sorted (t # map snd window @ [T])"
  shows "\<exists>as1 st1 as2 st2.
    admit_all rate burst earlier (new_attempts t0) = Some (as1, st1) \<and>
    admit_all rate burst window st1 = Some (as2, st2) \<and>
    granted ip window as2 * NANOS_PER_SECOND \<le> burst * NANOS_PER_SECOND + rate * (T - t)"
proof -
  obtain as1 st1 where 1: "admit_all rate burst earlier (new_attempts t0) = Some (as1, st1)"
    "attempts_ok burst t st1"
    using admit_all_potential [OF attempts_ok_new assms(1)] by blast
  obtain as2 st2 where "admit_all rate burst window st1 = Some (as2, st2)"
    "granted ip window as2 * NANOS_PER_SECOND \<le> source_potential rate burst T t st1 ip"
    using admit_all_potential [OF 1(2) assms(2)] by blast
  with 1(1) source_potential_bound [of rate burst T t st1 ip] show ?thesis
    by (meson order_trans)
qed

theorem attempts_rate_bound_witness:
  "\<exists>as1 st1 as2 st2.
    admit_all 2 3 [(''a'', 0), (''b'', 5)] (new_attempts 0) = Some (as1, st1) \<and>
    admit_all 2 3 [(''a'', 7), (''a'', 9)] st1 = Some (as2, st2) \<and>
    granted ''a'' [(''a'', 7), (''a'', 9)] as2 * NANOS_PER_SECOND \<le> 3 * NANOS_PER_SECOND + 2 * (20 - 6)"
  using attempts_rate_bound [of 0 "[(''a'', 0), (''b'', 5)]" 6 "[(''a'', 7), (''a'', 9)]" 20 2 3 "''a''"]
  by simp

text \<open>
  C20. The attempt limiter's table never holds more than the tracked-source limit, whatever the
  sources and times of the attempts.
\<close>
theorem attempts_table_bound:
  "admit_all rate burst reqs (new_attempts t0) = Some (as, st) \<Longrightarrow>
   fcard (fmdom (sources st)) \<le> MAX_TRACKED_SOURCES"
  by (erule admit_all_table) (simp add: new_attempts_def fcard_fempty)

theorem attempts_table_bound_witness:
  "\<exists>as st. admit_all 2 3 [(''a'', 0)] (new_attempts 0) = Some (as, st) \<and>
     fcard (fmdom (sources st)) \<le> MAX_TRACKED_SOURCES"
proof -
  have s: "sorted (0 # map snd [(''a'', 0::nat)] @ [0])" by simp
  from admit_all_potential [OF attempts_ok_new s]
  obtain as st where "admit_all 2 3 [(''a'', 0)] (new_attempts 0) = Some (as, st)" by blast
  then show ?thesis using attempts_table_bound by blast
qed

text \<open>
  C12. The connection limit holds. In every state reachable by any interleaving of connections being
  checked, counted, refused and closed, also with closes that fall between the load of a counter and its
  increment, a source has at most \<open>max_per_ip\<close> live connections, each source's counter is the
  number of its live connections, and the table keeps its bound.
\<close>
theorem connections_per_source_bound:
  assumes "conn_reachable max_per_ip s" and "max_per_ip \<le> max_of 64"
  shows "length (filter (\<lambda>p. fst p = ip) (permits s)) \<le> max_per_ip \<and>
    (case fmlookup (csources (limiter s)) ip of
       None \<Rightarrow> length (filter (\<lambda>p. fst p = ip) (permits s)) = 0
     | Some a \<Rightarrow> counters (limiter s) a = length (filter (\<lambda>p. fst p = ip) (permits s))) \<and>
    fcard (fmdom (csources (limiter s))) \<le> MAX_TRACKED_SOURCES"
proof -
  note inv = conn_inv_reachable [OF assms]
  show ?thesis
    using permits_of_source [OF inv] permits_of_unknown [OF inv] conn_invD(1,6,8) [OF inv]
    by (cases "fmlookup (csources (limiter s)) ip") (simp_all add: live_def)
qed

theorem connections_per_source_bound_witness:
  "length (filter (\<lambda>p. fst p = ''a'') (permits (one_connection ''a'' 5))) \<le> 1"
  using connections_per_source_bound [OF one_connection_reachable, of "''a''" "''a''" 5]
  by (simp add: max_of_def)

text \<open>
  A refusal is justified. When a connection is refused for the connection limit, its source has
  exactly \<open>max_per_ip\<close> live connections: no closed connection keeps its place.
\<close>
theorem connection_refusal_justified:
  assumes "conn_reachable max_per_ip s" and "max_per_ip \<le> max_of 64" and "pending s = None"
    and "check_connection max_per_ip ip now (limiter s) = (ConnDenied ''connection_limit'' count, st)"
  shows "length (filter (\<lambda>p. fst p = ip) (permits s)) = max_per_ip"
proof -
  note inv = conn_inv_reachable [OF assms(1,2)]
  obtain st1 where room: "connection_room ip now (limiter s) = Inr st1"
    using assms(4) connection_room_outcome [of ip now "limiter s"]
    by (cases "connection_room ip now (limiter s)") (auto simp: check_connection_def)
  note f = connection_room_forgets(1) [OF room]
  obtain a st' where e: "entry_or_insert ip st1 = (a, st')" by force
  have full: "max_per_ip \<le> counters st' a"
    using assms(4) by (auto simp: check_connection_def room e split: if_splits)
  show ?thesis
  proof (cases "fmlookup (csources st1) ip")
    case None
    then have "max_per_ip = 0" using e full by (auto simp: entry_or_insert_def)
    moreover have "length (filter (\<lambda>p. fst p = ip) (permits s)) \<le> max_per_ip"
      using permits_of_source [OF inv] permits_of_unknown [OF inv] conn_invD(6) [OF inv]
      by (cases "fmlookup (csources (limiter s)) ip") (simp_all add: live_def)
    ultimately show ?thesis by simp
  next
    case (Some b)
    then have b: "b = a" "st' = st1" using e by (simp_all add: entry_or_insert_def)
    have "fmlookup (csources (limiter s)) ip = Some a" using forgetsD(4) [OF f] Some b by simp
    then have "length (filter (\<lambda>p. fst p = ip) (permits s)) = live s a"
      using permits_of_source [OF inv] by (simp add: live_def)
    moreover have "max_per_ip \<le> live s a" using full b forgetsD(1) [OF f] conn_invD(1) [OF inv] by simp
    ultimately show ?thesis using conn_invD(6) [OF inv, of a] by simp
  qed
qed

text \<open>
  C21. The number of unauthenticated streams is exact: after any sequence of reservations and drops the
  limiter's counter is the number of live permits, which never exceeds the configured maximum.
\<close>
theorem unauthenticated_exact:
  assumes "pool_run
      (\<lambda>now l. case unauth_reserve now l of (UnauthAllowed, l') \<Rightarrow> (True, l') | (UnauthDenied _, l') \<Rightarrow> (False, l'))
      unauth_drop ops (new_unauthenticated maximum, 0) = (l, live_permits)"
  shows "active l = live_permits \<and> live_permits \<le> maximum"
  using unauth.run_exact [OF assms] by (simp add: new_unauthenticated_def)

theorem unauthenticated_exact_witness:
  "\<exists>l. pool_run
      (\<lambda>now l. case unauth_reserve now l of (UnauthAllowed, l') \<Rightarrow> (True, l') | (UnauthDenied _, l') \<Rightarrow> (False, l'))
      unauth_drop [Take 1, Take 2, Take 3, Give, Give, Take 4] (new_unauthenticated 2, 0) = (l, 1)
    \<and> active l = 1"
proof -
  let ?run = "pool_run
      (\<lambda>now l. case unauth_reserve now l of (UnauthAllowed, l') \<Rightarrow> (True, l') | (UnauthDenied _, l') \<Rightarrow> (False, l'))
      unauth_drop [Take 1, Take 2, Take 3, Give, Give, Take 4] (new_unauthenticated 2, 0)"
  obtain l where l: "?run = (l, 1)"
    by (simp add: unauth_reserve_def unauth_drop_def new_unauthenticated_def split_beta)
  from unauthenticated_exact [OF l] l show ?thesis by blast
qed

text \<open>
  No rejection is lost or counted twice by the throttled report: over any sequence of rejections
  (fewer than the counter's range) the counts reported plus the count still held back add up to the
  number of rejections.
\<close>
theorem rejections_accounted:
  assumes "length nows \<le> max_of 64" and "record_all nows default_report = (outs, r)"
  shows "reported outs + unreported_rejections r = length nows"
  using record_all_count [OF _ assms(2)] assms(1) by (simp add: default_report_def)

end
