(* ===== verification/Delivery_Order.thy ===== *)
theory Delivery_Order
  imports Lw_Prelude
begin

text \<open>
  The delivery order (\<open>lonewolf-core/src/order/mod.rs\<close>). Every storage change takes a ticket for the
  accounts it touches, under the same lock that commits it; a deletion takes a global ticket. A ticket
  waits for its turn: the order signals it when it is first in the queue of each of its accounts and no
  global ticket is in the way. Dropping a ticket releases its place and wakes whoever is next.

  A oneshot channel is modelled by whether its sender is still there: \<open>unsent\<close> is the source's
  \<open>ready.is_some()\<close>, so a ticket that is not \<open>unsent\<close> has been signalled and may deliver.
  The ticket counter is a \<open>u64\<close>; runs take fewer tickets than its range.
\<close>

section \<open>Definitions\<close>

record 'a Waiting =
  accounts :: "'a list"
  unsent :: bool

record 'a Lines =
  next_ticket :: nat
  queues :: "('a, nat list) fmap"
  waiting :: "(nat, 'a Waiting) fmap"
  globals :: "nat fset"

definition empty_lines :: "'a Lines" where
  "empty_lines = \<lparr>next_ticket = 0, queues = fmempty, waiting = fmempty, globals = {||}\<rparr>"

definition queue :: "'a Lines \<Rightarrow> 'a \<Rightarrow> nat list" where
  "queue lines a = (case fmlookup (queues lines) a of None \<Rightarrow> [] | Some q \<Rightarrow> q)"

definition front :: "nat list \<Rightarrow> nat option" where
  "front q = (case q of [] \<Rightarrow> None | x # _ \<Rightarrow> Some x)"

definition is_first :: "'a Lines \<Rightarrow> nat \<Rightarrow> 'a Waiting \<Rightarrow> bool" where
  "is_first lines tid w \<longleftrightarrow>
     bt_first (ffilter (\<lambda>g. g < tid) (globals lines)) = None \<and>
     \<not> (tid |\<in>| globals lines \<and> bt_first (fmdom (waiting lines)) \<noteq> Some tid) \<and>
     list_all (\<lambda>a. Option.bind (fmlookup (queues lines) a) front = Some tid) (accounts w)"

definition wake_if_first :: "nat \<Rightarrow> 'a Lines \<Rightarrow> 'a Lines" where
  "wake_if_first tid lines =
     (case fmlookup (waiting lines) tid of
        None \<Rightarrow> lines
      | Some w \<Rightarrow> if is_first lines tid w
          then lines\<lparr>waiting := fmupd tid (w\<lparr>unsent := False\<rparr>) (waiting lines)\<rparr> else lines)"

fun push_all :: "nat \<Rightarrow> 'a list \<Rightarrow> 'a Lines \<Rightarrow> 'a Lines" where
  "push_all tid [] lines = lines"
| "push_all tid (a # as) lines =
     push_all tid as (lines\<lparr>queues := fmupd a (queue lines a @ [tid]) (queues lines)\<rparr>)"

definition admit_ticket :: "'a list \<Rightarrow> bool \<Rightarrow> 'a Lines \<Rightarrow> nat \<times> 'a Lines" where
  "admit_ticket accs global lines0 =
     (let tid = next_ticket lines0;
          lines = lines0\<lparr>next_ticket := (tid + 1) mod 2 ^ 64\<rparr>;
          lines = (if global then lines\<lparr>globals := finsert tid (globals lines)\<rparr> else lines);
          lines = push_all tid accs lines;
          lines = lines\<lparr>waiting := fmupd tid \<lparr>accounts = accs, unsent = True\<rparr> (waiting lines)\<rparr>
      in (tid, wake_if_first tid lines))"

fun leave_queues :: "nat \<Rightarrow> 'a list \<Rightarrow> 'a Lines \<Rightarrow> 'a Lines" where
  "leave_queues tid [] lines = lines"
| "leave_queues tid (a # as) lines =
     (case fmlookup (queues lines) a of
        None \<Rightarrow> leave_queues tid as lines
      | Some q \<Rightarrow>
          (let q = filter (\<lambda>ticket. ticket \<noteq> tid) q
           in case front q of
                None \<Rightarrow> leave_queues tid as (lines\<lparr>queues := fmdrop a (queues lines)\<rparr>)
              | Some head \<Rightarrow>
                  leave_queues tid as (wake_if_first head (lines\<lparr>queues := fmupd a q (queues lines)\<rparr>))))"

definition next_after :: "nat option \<Rightarrow> 'a Lines \<Rightarrow> nat option" where
  "next_after after lines =
     (case after of
        None \<Rightarrow> bt_first (fmdom (waiting lines))
      | Some prev \<Rightarrow> bt_first (ffilter (\<lambda>tid. prev < tid) (fmdom (waiting lines))))"

lemma dom_wake [simp]: "fmdom (waiting (wake_if_first tid lines)) = fmdom (waiting lines)"
  by (auto simp: wake_if_first_def fmlookup_dom_iff split: option.splits)

function wake_waiting :: "nat option \<Rightarrow> 'a Lines \<Rightarrow> 'a Lines" where
  "wake_waiting after lines =
     (case next_after after lines of
        None \<Rightarrow> lines
      | Some tid \<Rightarrow> wake_waiting (Some tid) (wake_if_first tid lines))"
  by pat_completeness auto

definition ahead :: "nat option \<Rightarrow> 'a Lines \<Rightarrow> nat set" where
  "ahead after lines = {tid. tid |\<in>| fmdom (waiting lines) \<and> (\<forall>prev. after = Some prev \<longrightarrow> prev < tid)}"

lemma next_after_ahead:
  "next_after after lines = Some tid \<Longrightarrow> tid \<in> ahead after lines \<and> (\<forall>k \<in> ahead after lines. tid \<le> k)"
  by (auto simp: next_after_def ahead_def bt_first_Some split: option.splits)

lemma finite_ahead [simp]: "finite (ahead after lines)"
  by (rule finite_subset [of _ "fset (fmdom (waiting lines))"]) (auto simp: ahead_def)

lemma ahead_wake [simp]: "ahead after (wake_if_first tid lines) = ahead after lines"
  by (simp add: ahead_def)

lemma ahead_next:
  assumes "next_after after lines = Some tid"
  shows "ahead after lines = insert tid (ahead (Some tid) lines)" and "tid \<notin> ahead (Some tid) lines"
  using next_after_ahead [OF assms] by (auto simp: ahead_def intro: le_neq_trans)

termination wake_waiting
proof (relation "measure (\<lambda>(after, lines). card (ahead after lines))")
  fix after :: "nat option" and lines :: "'a Lines" and tid
  assume "next_after after lines = Some tid"
  from ahead_next [OF this]
  show "((Some tid, wake_if_first tid lines), after, lines) \<in> measure (\<lambda>(after, lines). card (ahead after lines))"
    by simp
qed simp

declare wake_waiting.simps [simp del]

definition release_ticket :: "nat \<Rightarrow> 'a Lines \<Rightarrow> 'a Lines" where
  "release_ticket tid lines0 =
     (case fmlookup (waiting lines0) tid of
        None \<Rightarrow> lines0
      | Some w \<Rightarrow>
          (let lines = lines0\<lparr>waiting := fmdrop tid (waiting lines0)\<rparr>;
               global = (tid |\<in>| globals lines);
               lines = lines\<lparr>globals := globals lines |-| {|tid|}\<rparr>;
               lines = leave_queues tid (accounts w) lines
           in if \<not> global
              then (case bt_first (globals lines) of
                      Some head \<Rightarrow> wake_if_first head lines
                    | None \<Rightarrow> lines)
              else wake_waiting None lines))"

text \<open>
  \<open>fix_view\<close> is \<open>Order::fix\<close> (\<open>global\<close> false) and \<open>Order::fix_all\<close> (true): the \<open>fixing\<close> lock
  makes the storage operation and its ticket one step, and a failed operation takes no ticket.
\<close>

definition fix_view :: "'a list \<Rightarrow> bool \<Rightarrow> ('s \<Rightarrow> ('e, 'v \<times> 's) result) \<Rightarrow> 's \<times> 'a Lines
    \<Rightarrow> ('e, ('v \<times> nat) \<times> 's \<times> 'a Lines) result" where
  "fix_view accs global op s =
     ok_then (op (fst s)) (\<lambda>(value, store).
       (let (tid, lines) = admit_ticket (if global then [] else accs) global (snd s)
        in Inr ((value, tid), store, lines)))"

inductive order_step :: "'a Lines \<Rightarrow> 'a Lines \<Rightarrow> bool" where
  fixed: "next_ticket lines < max_of 64 \<Longrightarrow> order_step lines (snd (admit_ticket accs False lines))"
| fixed_all: "next_ticket lines < max_of 64 \<Longrightarrow> order_step lines (snd (admit_ticket [] True lines))"
| dropped: "order_step lines (release_ticket tid lines)"

inductive order_reachable :: "'a Lines \<Rightarrow> bool" where
  order_start: "order_reachable empty_lines"
| order_next: "order_reachable lines \<Longrightarrow> order_step lines lines' \<Longrightarrow> order_reachable lines'"

text \<open>
  The specification: an older waiting ticket is in the way of a younger one when one of them is
  global or they share an account.
\<close>

definition conflict :: "'a Lines \<Rightarrow> nat \<Rightarrow> nat \<Rightarrow> bool" where
  "conflict lines i j \<longleftrightarrow>
     i |\<in>| globals lines \<or> j |\<in>| globals lines \<or>
     (\<exists>v w. fmlookup (waiting lines) i = Some v \<and> fmlookup (waiting lines) j = Some w \<and>
        set (accounts v) \<inter> set (accounts w) \<noteq> {})"

definition unobstructed :: "'a Lines \<Rightarrow> nat \<Rightarrow> bool" where
  "unobstructed lines j \<longleftrightarrow> (\<forall>i. i |\<in>| fmdom (waiting lines) \<and> i < j \<longrightarrow> \<not> conflict lines i j)"

definition signalled :: "'a Lines \<Rightarrow> nat \<Rightarrow> bool" where
  "signalled lines j \<longleftrightarrow> (case fmlookup (waiting lines) j of None \<Rightarrow> False | Some w \<Rightarrow> \<not> unsent w)"

lemma signalled_iff: "signalled lines j \<longleftrightarrow> (\<exists>w. fmlookup (waiting lines) j = Some w \<and> \<not> unsent w)"
  by (simp add: signalled_def split: option.split)

section \<open>Queues and waking\<close>

lemma front_Some: "sorted q \<Longrightarrow> front q = Some x \<longleftrightarrow> x \<in> set q \<and> (\<forall>y \<in> set q. x \<le> y)"
  by (cases q) (auto simp: front_def intro: antisym)

lemma front_None [simp]: "front q = None \<longleftrightarrow> q = []"
  by (cases q) (simp_all add: front_def)

lemma bind_front: "Option.bind (fmlookup (queues lines) a) front = front (queue lines a)"
  by (simp add: queue_def front_def split: option.splits)

definition holders :: "'a Lines \<Rightarrow> 'a \<Rightarrow> nat set" where
  "holders lines a = {i. \<exists>w. fmlookup (waiting lines) i = Some w \<and> a \<in> set (accounts w)}"

text \<open>
  The tables are consistent: every waiting ticket is older than the counter, global tickets wait, and the
  queue of an account holds in order the waiting tickets of the account, besides the \<open>stale\<close> entries a
  release has not removed yet.
\<close>

definition tables_ok :: "'a Lines \<Rightarrow> ('a \<Rightarrow> nat set) \<Rightarrow> bool" where
  "tables_ok lines stale \<longleftrightarrow>
     (\<forall>i. i |\<in>| fmdom (waiting lines) \<longrightarrow> i < next_ticket lines) \<and>
     globals lines |\<subseteq>| fmdom (waiting lines) \<and>
     (\<forall>a. sorted (queue lines a) \<and> set (queue lines a) = holders lines a \<union> stale a)"

lemma wake_fields [simp]:
  "queues (wake_if_first tid lines) = queues lines"
  "globals (wake_if_first tid lines) = globals lines"
  "next_ticket (wake_if_first tid lines) = next_ticket lines"
  by (simp_all add: wake_if_first_def split: option.splits)

lemma wake_accounts:
  "map_option accounts (fmlookup (waiting (wake_if_first tid lines)) j) =
   map_option accounts (fmlookup (waiting lines) j)"
  by (auto simp: wake_if_first_def split: option.splits)

lemma holders_cong:
  assumes "\<And>j. map_option accounts (fmlookup (waiting lines) j) = map_option accounts (fmlookup (waiting lines') j)"
  shows "holders lines = holders lines'"
proof -
  have e: "holders l = (\<lambda>a. {i. \<exists>as. map_option accounts (fmlookup (waiting l) i) = Some as \<and> a \<in> set as})"
    for l :: "'a Lines"
    by (auto simp: holders_def fun_eq_iff)
  show ?thesis by (simp only: e assms)
qed

lemma conflict_holders:
  "conflict lines i j \<longleftrightarrow> i |\<in>| globals lines \<or> j |\<in>| globals lines \<or>
     (\<exists>a. i \<in> holders lines a \<and> j \<in> holders lines a)"
  by (fastforce simp: conflict_def holders_def)

lemma holders_wake [simp]: "holders (wake_if_first tid lines) = holders lines"
  by (rule holders_cong) (rule wake_accounts)

lemma queue_wake [simp]: "queue (wake_if_first tid lines) = queue lines"
  by (simp add: queue_def fun_eq_iff)

lemma unobstructed_wake [simp]: "unobstructed (wake_if_first tid lines) = unobstructed lines"
  by (simp add: unobstructed_def conflict_holders fun_eq_iff)

lemma tables_wake [simp]: "tables_ok (wake_if_first tid lines) = tables_ok lines"
  by (simp add: tables_ok_def fun_eq_iff)

lemma signalled_wake:
  "signalled (wake_if_first tid lines) j \<longleftrightarrow> signalled lines j \<or>
     (j = tid \<and> (\<exists>w. fmlookup (waiting lines) tid = Some w \<and> is_first lines tid w))"
  by (auto simp: wake_if_first_def signalled_iff split: option.splits)

lemma is_first_sound:
  assumes ok: "tables_ok lines stale" and w: "fmlookup (waiting lines) j = Some w" and f: "is_first lines j w"
  shows "unobstructed lines j"
  unfolding unobstructed_def
proof (intro allI impI notI)
  fix i
  assume i: "i |\<in>| fmdom (waiting lines) \<and> i < j" and c: "conflict lines i j"
  have "\<not> i |\<in>| globals lines" using f i by (auto simp: is_first_def)
  moreover have "\<not> j |\<in>| globals lines" using f i by (auto simp: is_first_def bt_first_Some)
  ultimately obtain a where a: "i \<in> holders lines a" "j \<in> holders lines a"
    using c by (auto simp: conflict_holders)
  then have "a \<in> set (accounts w)" using w by (simp add: holders_def)
  then have "front (queue lines a) = Some j" using f by (auto simp: is_first_def list_all_iff bind_front)
  moreover have "sorted (queue lines a)" "i \<in> set (queue lines a)" using ok a by (auto simp: tables_ok_def)
  ultimately show False using i by (auto simp: front_Some)
qed

lemma is_first_complete:
  assumes ok: "tables_ok lines stale" and w: "fmlookup (waiting lines) j = Some w"
    and free: "unobstructed lines j" and clean: "\<And>a. a \<in> set (accounts w) \<Longrightarrow> stale a = {}"
  shows "is_first lines j w"
proof -
  have older: "\<not> conflict lines i j" if "i |\<in>| fmdom (waiting lines)" "i < j" for i
    using free that by (auto simp: unobstructed_def)
  have g: "i |\<in>| fmdom (waiting lines)" if "i |\<in>| globals lines" for i
    using ok that by (auto simp: tables_ok_def)
  have no: "\<not> i |\<in>| globals lines" if "i < j" for i
    using older [of i] g [of i] that by (auto simp: conflict_def)
  have "bt_first (ffilter (\<lambda>g. g < j) (globals lines)) = None"
    using no by auto
  moreover have "bt_first (fmdom (waiting lines)) = Some j" if "j |\<in>| globals lines"
    using older that w g [OF that] unfolding bt_first_Some conflict_def by (meson not_le_imp_less)
  moreover have "front (queue lines a) = Some j" if a: "a \<in> set (accounts w)" for a
  proof -
    have q: "set (queue lines a) = holders lines a" "sorted (queue lines a)"
      using ok clean [OF a] by (simp_all add: tables_ok_def)
    have j: "j \<in> holders lines a" using w a by (simp add: holders_def)
    have "j \<le> i" if "i \<in> holders lines a" for i
      using older [of i] that j by (auto simp: conflict_holders holders_def fmlookup_dom_iff intro: leI)
    with q j show ?thesis by (simp add: front_Some)
  qed
  ultimately show ?thesis by (auto simp: is_first_def list_all_iff bind_front)
qed

lemma signalled_wake_clean:
  assumes "tables_ok lines (\<lambda>_. {})"
  shows "signalled (wake_if_first tid lines) j \<longleftrightarrow> signalled lines j \<or>
     (j = tid \<and> tid |\<in>| fmdom (waiting lines) \<and> unobstructed lines tid)"
  unfolding signalled_wake
  using is_first_sound [OF assms] is_first_complete [OF assms] by (auto simp: fmlookup_dom_iff)

lemma wake_waiting_effect:
  "tables_ok lines (\<lambda>_. {}) \<Longrightarrow>
   tables_ok (wake_waiting after lines) (\<lambda>_. {}) \<and>
   fmdom (waiting (wake_waiting after lines)) = fmdom (waiting lines) \<and>
   unobstructed (wake_waiting after lines) = unobstructed lines \<and>
   (\<forall>j. signalled (wake_waiting after lines) j \<longleftrightarrow>
      signalled lines j \<or> (j \<in> ahead after lines \<and> unobstructed lines j))"
proof (induction after lines rule: wake_waiting.induct)
  case (1 after lines)
  show ?case
  proof (cases "next_after after lines")
    case None
    then have "ahead after lines = {}"
      by (auto simp: next_after_def ahead_def split: option.splits)
    with None 1(2) show ?thesis by (simp add: wake_waiting.simps [of after lines])
  next
    case (Some tid)
    have a: "ahead after lines = insert tid (ahead (Some tid) lines)" "tid |\<in>| fmdom (waiting lines)"
      using ahead_next [OF Some] by (auto simp: ahead_def)
    show ?thesis
      using 1(1) [OF Some] 1(2) a signalled_wake_clean [OF 1(2), of tid]
      by (auto simp: wake_waiting.simps [of after lines] Some)
  qed
qed

section \<open>Leaving the queues\<close>

lemma leave_head:
  assumes ok: "tables_ok lines stale" and st: "\<And>a. stale a \<subseteq> {tid}" and out: "\<not> tid |\<in>| fmdom (waiting lines)"
    and q: "fmlookup (queues lines) a = Some q"
  defines "q' \<equiv> filter (\<lambda>t. t \<noteq> tid) q"
  shows "tables_ok (lines\<lparr>queues := fmupd a q' (queues lines)\<rparr>) (stale(a := {}))"
    and "q' = [] \<Longrightarrow> tables_ok (lines\<lparr>queues := fmdrop a (queues lines)\<rparr>) (stale(a := {}))"
    and "set q' = holders lines a" and "sorted q'"
proof -
  have qa: "queue lines a = q" by (simp add: queue_def q)
  have out': "tid \<notin> holders lines b" for b using out by (auto simp: holders_def fmlookup_dom_iff)
  have s: "sorted q" "set q = holders lines a \<union> stale a" using ok qa by (auto simp: tables_ok_def)
  show q'set: "set q' = holders lines a" using s(2) st [of a] out' [of a] by (auto simp: q'_def)
  show q's: "sorted q'" using s(1) by (simp add: q'_def sorted_filter [where f = "\<lambda>x. x", simplified])
  have h: "holders (lines\<lparr>queues := x\<rparr>) = holders lines" for x by (simp add: holders_def fun_eq_iff)
  have qu: "queue (lines\<lparr>queues := fmupd a q' (queues lines)\<rparr>) = (queue lines)(a := q')"
    by (auto simp: queue_def fun_eq_iff)
  show "tables_ok (lines\<lparr>queues := fmupd a q' (queues lines)\<rparr>) (stale(a := {}))"
    using ok q'set q's unfolding tables_ok_def qu h by simp
  have qd: "queue (lines\<lparr>queues := fmdrop a (queues lines)\<rparr>) = (queue lines)(a := [])"
    by (auto simp: queue_def fun_eq_iff)
  show "tables_ok (lines\<lparr>queues := fmdrop a (queues lines)\<rparr>) (stale(a := {}))" if "q' = []"
    using ok q'set that unfolding tables_ok_def qd h by simp
qed

definition leave_effect :: "'a list \<Rightarrow> 'a Lines \<Rightarrow> 'a Lines \<Rightarrow> bool" where
  "leave_effect as lines lines' \<longleftrightarrow>
     tables_ok lines' (\<lambda>_. {}) \<and> fmdom (waiting lines') = fmdom (waiting lines) \<and>
     globals lines' = globals lines \<and> unobstructed lines' = unobstructed lines \<and>
     (\<forall>j. signalled lines j \<longrightarrow> signalled lines' j) \<and>
     (\<forall>j. signalled lines' j \<longrightarrow> signalled lines j \<or> unobstructed lines j) \<and>
     (\<forall>j w a. fmlookup (waiting lines) j = Some w \<and> unobstructed lines j \<and> a \<in> set (accounts w) \<inter> set as
        \<longrightarrow> signalled lines' j)"

lemma queues_irrelevant [simp]:
  "holders (lines\<lparr>queues := x\<rparr>) = holders lines"
  "unobstructed (lines\<lparr>queues := x\<rparr>) = unobstructed lines"
  "signalled (lines\<lparr>queues := x\<rparr>) = signalled lines"
  by (simp_all add: holders_def unobstructed_def conflict_def signalled_iff fun_eq_iff)

lemma leave_effectI:
  assumes "leave_effect as lines1 lines'" and "tables_ok lines1 stale"
    and "fmdom (waiting lines1) = fmdom (waiting lines)" and "globals lines1 = globals lines"
    and "unobstructed lines1 = unobstructed lines"
    and acc: "\<And>j. map_option accounts (fmlookup (waiting lines1) j) = map_option accounts (fmlookup (waiting lines) j)"
    and "\<And>j. signalled lines j \<Longrightarrow> signalled lines1 j"
    and "\<And>j. signalled lines1 j \<Longrightarrow> signalled lines j \<or> unobstructed lines j"
    and now: "\<And>j w. fmlookup (waiting lines) j = Some w \<Longrightarrow> unobstructed lines j \<Longrightarrow> a \<in> set (accounts w) \<Longrightarrow>
      set (accounts w) \<inter> set as = {} \<Longrightarrow> signalled lines1 j"
  shows "leave_effect (a # as) lines lines'"
proof -
  have "signalled lines' j"
    if w: "fmlookup (waiting lines) j = Some w" and u: "unobstructed lines j" and b: "b \<in> set (accounts w) \<inter> set (a # as)"
    for j w b
  proof (cases "set (accounts w) \<inter> set as = {}")
    case True
    then have "signalled lines1 j" using now [OF w u] b by auto
    then show ?thesis using assms(1) by (simp add: leave_effect_def)
  next
    case False
    obtain w1 where "fmlookup (waiting lines1) j = Some w1" "accounts w1 = accounts w"
      using acc [of j] w by auto
    with False u assms(1,5) show ?thesis unfolding leave_effect_def by fastforce
  qed
  then show ?thesis using assms unfolding leave_effect_def by (metis (no_types, lifting))
qed

lemma leave_queues_effect:
  "tables_ok lines stale \<Longrightarrow> (\<And>a. stale a \<subseteq> {tid}) \<Longrightarrow> (\<And>a. stale a \<noteq> {} \<Longrightarrow> a \<in> set as) \<Longrightarrow>
   \<not> tid |\<in>| fmdom (waiting lines) \<Longrightarrow> leave_effect as lines (leave_queues tid as lines)"
proof (induction as arbitrary: lines stale)
  case Nil
  have "stale = (\<lambda>_. {})" by (rule ext) (use Nil.prems(3) in auto)
  with Nil show ?case by (simp add: leave_effect_def)
next
  case (Cons a as)
  note ok = Cons.prems(1) and st = Cons.prems(2) and rem = Cons.prems(3) and out = Cons.prems(4)
  let ?stale = "stale(a := {})"
  have st': "?stale b \<subseteq> {tid}" and rem': "?stale b \<noteq> {} \<Longrightarrow> b \<in> set as" for b
    using st rem [of b] by (auto split: if_splits)
  show ?case
  proof (cases "fmlookup (queues lines) a")
    case None
    then have e: "holders lines a = {}" "stale a = {}"
      using ok unfolding tables_ok_def by (auto simp: queue_def dest: spec [of _ a])
    then have "?stale = stale" by (simp add: fun_upd_idem)
    then have "leave_effect as lines (leave_queues tid as lines)"
      using Cons.IH [OF ok] st' rem' out by metis
    then show ?thesis
      by (simp add: None) (rule leave_effectI [OF _ ok], use e in \<open>auto simp: holders_def\<close>)
  next
    case (Some q)
    let ?q = "filter (\<lambda>t. t \<noteq> tid) q"
    note head = leave_head [OF ok st out Some]
    show ?thesis
    proof (cases "front ?q")
      case empty: None
      let ?l = "lines\<lparr>queues := fmdrop a (queues lines)\<rparr>"
      have q: "?q = []" using empty by simp
      have ok1: "tables_ok ?l ?stale" by (rule head(2) [OF q])
      have "leave_effect as ?l (leave_queues tid as ?l)" by (rule Cons.IH [OF ok1 st' rem']) (use out in auto)
      moreover have "holders lines a = {}" using head(3) q by simp
      ultimately have "leave_effect (a # as) lines (leave_queues tid as ?l)"
        by (intro leave_effectI [OF _ ok1]) (auto simp: holders_def)
      then show ?thesis using q Some by (simp add: front_def)
    next
      case woken: (Some h)
      let ?l = "lines\<lparr>queues := fmupd a ?q (queues lines)\<rparr>"
      let ?l1 = "wake_if_first h ?l"
      have ok1: "tables_ok ?l ?stale" by (rule head(1))
      have h: "h \<in> holders lines a" "\<And>k. k \<in> holders lines a \<Longrightarrow> h \<le> k"
        using woken head(3,4) by (auto simp: front_Some)
      have woken_ok: "tables_ok ?l1 ?stale" unfolding tables_wake by (rule ok1)
      have woken_out: "\<not> tid |\<in>| fmdom (waiting ?l1)" using out by simp
      have eff: "leave_effect as ?l1 (leave_queues tid as ?l1)"
        by (rule Cons.IH [OF woken_ok st' rem' woken_out])
      have sound: "signalled lines j \<or> unobstructed lines j" if "signalled ?l1 j" for j
        using that is_first_sound [OF ok1] by (auto simp: signalled_wake)
      have now: "signalled ?l1 j"
        if w: "fmlookup (waiting lines) j = Some w" and u: "unobstructed lines j" and a: "a \<in> set (accounts w)"
          and d: "set (accounts w) \<inter> set as = {}" for j w
      proof -
        have j: "j \<in> holders lines a" using w a by (simp add: holders_def)
        have "\<not> h < j" using u h(1) j by (auto simp: unobstructed_def conflict_holders holders_def fmlookup_dom_iff)
        then have "h = j" using h(2) [OF j] by simp
        moreover have clean: "?stale b = {}" if "b \<in> set (accounts w)" for b
          using rem' [of b] d that by blast
        have "is_first ?l j w"
          by (rule is_first_complete [OF ok1 _ _ clean]) (use w u in simp_all)
        ultimately show ?thesis using w by (auto simp: signalled_wake)
      qed
      have "leave_effect (a # as) lines (leave_queues tid as ?l1)"
        by (rule leave_effectI [OF eff, of ?stale])
          (use ok1 sound now wake_accounts [of h ?l] in \<open>simp_all add: signalled_wake\<close>)
      then show ?thesis using woken Some by simp
    qed
  qed
qed

section \<open>Invariant\<close>

definition order_inv :: "'a Lines \<Rightarrow> bool" where
  "order_inv lines \<longleftrightarrow> tables_ok lines (\<lambda>_. {}) \<and>
     (\<forall>j. j |\<in>| fmdom (waiting lines) \<longrightarrow> (signalled lines j \<longleftrightarrow> unobstructed lines j))"

lemma order_inv_empty: "order_inv empty_lines"
  by (simp add: order_inv_def empty_lines_def tables_ok_def queue_def holders_def)

lemma signalled_dom: "signalled lines j \<Longrightarrow> j |\<in>| fmdom (waiting lines)"
  by (auto simp: signalled_iff fmlookup_dom_iff)

lemma queue_push_all: "queue (push_all tid as lines) a = queue lines a @ replicate (count_list as a) tid"
  by (induction as arbitrary: lines) (auto simp: queue_def replicate_append_same)

lemma push_all_fields [simp]:
  "waiting (push_all tid as lines) = waiting lines"
  "globals (push_all tid as lines) = globals lines"
  "next_ticket (push_all tid as lines) = next_ticket lines"
  by (induction as arbitrary: lines) simp_all

definition entered :: "'a list \<Rightarrow> bool \<Rightarrow> 'a Lines \<Rightarrow> 'a Lines" where
  "entered accs global lines =
     (let tid = next_ticket lines;
          lines1 = push_all tid accs (lines\<lparr>next_ticket := (tid + 1) mod 2 ^ 64,
            globals := (if global then finsert tid (globals lines) else globals lines)\<rparr>)
      in lines1\<lparr>waiting := fmupd tid \<lparr>accounts = accs, unsent = True\<rparr> (waiting lines1)\<rparr>)"

lemma admit_ticket_entered:
  "admit_ticket accs global lines = (next_ticket lines, wake_if_first (next_ticket lines) (entered accs global lines))"
  by (simp add: admit_ticket_def entered_def Let_def)

lemma entered_fields:
  "waiting (entered accs global lines) = fmupd (next_ticket lines) \<lparr>accounts = accs, unsent = True\<rparr> (waiting lines)"
  "globals (entered accs global lines) = (if global then finsert (next_ticket lines) (globals lines) else globals lines)"
  "next_ticket (entered accs global lines) = (next_ticket lines + 1) mod 2 ^ 64"
  "queue (entered accs global lines) a = queue lines a @ replicate (count_list accs a) (next_ticket lines)"
  using queue_push_all [of "next_ticket lines" accs] by (simp_all add: entered_def Let_def queue_def)

lemma entered_tables:
  assumes ok: "tables_ok lines (\<lambda>_. {})" and "next_ticket lines < max_of 64"
  shows "tables_ok (entered accs global lines) (\<lambda>_. {})"
    and "i < next_ticket lines \<Longrightarrow> i \<in> holders (entered accs global lines) a \<longleftrightarrow> i \<in> holders lines a"
    and "i < next_ticket lines \<Longrightarrow> i |\<in>| globals (entered accs global lines) \<longleftrightarrow> i |\<in>| globals lines"
proof -
  let ?t = "next_ticket lines" and ?l = "entered accs global lines"
  have n: "next_ticket ?l = ?t + 1" using assms(2) by (simp add: entered_fields max_of_def)
  have fresh: "fmlookup (waiting lines) ?t = None"
    using ok by (auto simp: tables_ok_def fmlookup_dom_iff)
  have h: "holders ?l a = holders lines a \<union> (if a \<in> set accs then {?t} else {})" for a
    using fresh by (auto simp: holders_def entered_fields)
  have lt: "x < ?t" if "x \<in> set (queue lines a)" for x a
    using ok that by (auto simp: tables_ok_def holders_def fmlookup_dom_iff)
  have "sorted (queue ?l a) \<and> set (queue ?l a) = holders ?l a" for a
    using ok lt [of _ a] unfolding entered_fields h tables_ok_def
    by (auto simp: sorted_append less_imp_le count_list_0_iff)
  moreover have "x < ?t + 1" if "x |\<in>| fmdom (waiting ?l)" for x
    using ok that by (auto simp: tables_ok_def entered_fields less_Suc_eq)
  moreover have "globals ?l |\<subseteq>| fmdom (waiting ?l)" using ok by (auto simp: tables_ok_def entered_fields)
  ultimately show "tables_ok ?l (\<lambda>_. {})" by (simp add: tables_ok_def n)
  show "i < ?t \<Longrightarrow> i \<in> holders ?l a \<longleftrightarrow> i \<in> holders lines a" by (auto simp: h)
  show "i < ?t \<Longrightarrow> i |\<in>| globals ?l \<longleftrightarrow> i |\<in>| globals lines" by (auto simp: entered_fields)
qed

lemma order_inv_admit:
  assumes inv: "order_inv lines" and n: "next_ticket lines < max_of 64"
  shows "order_inv (snd (admit_ticket accs global lines))"
proof -
  let ?t = "next_ticket lines" and ?l = "entered accs global lines"
  have ok: "tables_ok lines (\<lambda>_. {})" using inv by (simp add: order_inv_def)
  note e = entered_tables [OF ok n]
  have lt: "i < ?t" if "i |\<in>| fmdom (waiting lines)" for i using ok that by (simp add: tables_ok_def)
  have old: "unobstructed ?l j \<longleftrightarrow> unobstructed lines j" "signalled ?l j \<longleftrightarrow> signalled lines j" if "j < ?t" for j
    using that e(2,3) lt by (auto simp: unobstructed_def conflict_holders signalled_iff entered_fields)
  have "signalled (wake_if_first ?t ?l) j \<longleftrightarrow> unobstructed ?l j" if "j |\<in>| fmdom (waiting ?l)" for j
  proof (cases "j = ?t")
    case True
    have "\<not> signalled ?l ?t" by (simp add: signalled_iff entered_fields)
    then show ?thesis using True that by (simp add: signalled_wake_clean [OF e(1)])
  next
    case False
    then have "j |\<in>| fmdom (waiting lines)" using that by (simp add: entered_fields)
    then show ?thesis
      using False old [OF lt] inv by (auto simp: signalled_wake_clean [OF e(1)] order_inv_def)
  qed
  then show ?thesis using e(1) by (simp add: admit_ticket_entered order_inv_def)
qed

lemma removed_fields:
  assumes ok: "tables_ok lines (\<lambda>_. {})" and w: "fmlookup (waiting lines) tid = Some w"
  defines "l \<equiv> lines\<lparr>waiting := fmdrop tid (waiting lines), globals := globals lines |-| {|tid|}\<rparr>"
  shows "tables_ok l (\<lambda>a. if a \<in> set (accounts w) then {tid} else {})"
    and "j \<noteq> tid \<Longrightarrow> signalled l j \<longleftrightarrow> signalled lines j"
    and "j \<noteq> tid \<Longrightarrow> unobstructed lines j \<Longrightarrow> unobstructed l j"
    and "j \<noteq> tid \<Longrightarrow> unobstructed l j \<Longrightarrow> unobstructed lines j \<or> (tid < j \<and> conflict lines tid j)"
proof -
  have h: "holders l a = holders lines a - {tid}" for a by (auto simp: holders_def l_def split: if_splits)
  have t: "tid \<in> holders lines a \<longleftrightarrow> a \<in> set (accounts w)" for a using w by (simp add: holders_def)
  have g: "x |\<in>| globals l \<longleftrightarrow> x |\<in>| globals lines \<and> x \<noteq> tid" for x by (auto simp: l_def)
  have d: "x |\<in>| fmdom (waiting l) \<longleftrightarrow> x |\<in>| fmdom (waiting lines) \<and> x \<noteq> tid" for x by (auto simp: l_def)
  have q: "queue l = queue lines" "next_ticket l = next_ticket lines" by (auto simp: l_def queue_def)
  show "tables_ok l (\<lambda>a. if a \<in> set (accounts w) then {tid} else {})"
    using ok unfolding tables_ok_def q h by (auto simp: d g t fsubset_iff)
  show "j \<noteq> tid \<Longrightarrow> signalled l j \<longleftrightarrow> signalled lines j" by (auto simp: signalled_iff l_def)
  show "j \<noteq> tid \<Longrightarrow> unobstructed lines j \<Longrightarrow> unobstructed l j"
    unfolding unobstructed_def conflict_holders h d g by blast
  show "j \<noteq> tid \<Longrightarrow> unobstructed l j \<Longrightarrow> unobstructed lines j \<or> (tid < j \<and> conflict lines tid j)"
    unfolding unobstructed_def conflict_holders h d g by blast
qed

lemma order_inv_release:
  assumes inv: "order_inv lines"
  shows "order_inv (release_ticket tid lines)"
proof (cases "fmlookup (waiting lines) tid")
  case None
  with inv show ?thesis by (simp add: release_ticket_def)
next
  case (Some w)
  have ok: "tables_ok lines (\<lambda>_. {})" using inv by (simp add: order_inv_def)
  let ?pre = "lines\<lparr>waiting := fmdrop tid (waiting lines), globals := globals lines |-| {|tid|}\<rparr>"
  let ?l = "leave_queues tid (accounts w) ?pre"
  note r = removed_fields [OF ok Some]
  have eff: "leave_effect (accounts w) ?pre ?l"
    by (rule leave_queues_effect [OF r(1)]) (auto split: if_splits)
  have l: "tables_ok ?l (\<lambda>_. {})" "fmdom (waiting ?l) = fmdom (waiting ?pre)" "globals ?l = globals ?pre"
    "unobstructed ?l = unobstructed ?pre"
    using eff by (simp_all add: leave_effect_def)
  have sig: "signalled ?l j \<Longrightarrow> unobstructed ?pre j" if "j |\<in>| fmdom (waiting ?pre)" for j
    using that eff r(2,3) [of j] inv by (auto simp: leave_effect_def order_inv_def)
  have keep: "signalled ?l j" if "j |\<in>| fmdom (waiting ?pre)" "unobstructed lines j" for j
    using that eff r(2) [of j] inv by (auto simp: leave_effect_def order_inv_def)
  show ?thesis
  proof (cases "tid |\<in>| globals lines")
    case True
    have "release_ticket tid lines = wake_waiting None ?l"
      using True by (simp add: release_ticket_def Some Let_def)
    then show ?thesis
      using wake_waiting_effect [OF l(1), of None] sig l(2,4)
      by (auto simp: order_inv_def ahead_def)
  next
    case False
    let ?r = "case bt_first (globals ?l) of Some head \<Rightarrow> wake_if_first head ?l | None \<Rightarrow> ?l"
    have rel: "release_ticket tid lines = ?r"
      using False by (simp add: release_ticket_def Some Let_def cong: option.case_cong)
    have free: "signalled ?r j"
      if j: "j |\<in>| fmdom (waiting ?pre)" and u: "unobstructed ?pre j" for j
    proof (cases "unobstructed lines j")
      case True
      with keep [OF j] show ?thesis by (simp add: signalled_wake split: option.split)
    next
      case obstructed: False
      then have c: "conflict lines tid j" using r(4) [OF _ u] j by auto
      show ?thesis
      proof (cases "j |\<in>| globals lines")
        case True
        have "g |\<in>| fmdom (waiting ?pre)" if "g |\<in>| globals ?pre" for g
          using r(1) that by (auto simp: tables_ok_def)
        then have "j \<le> g" if "g |\<in>| globals ?pre" for g
          using u that unfolding unobstructed_def conflict_holders by (meson not_le_imp_less)
        moreover have "j |\<in>| globals ?pre" using True j by auto
        ultimately have "bt_first (globals ?l) = Some j" unfolding bt_first_Some l(3) by blast
        then show ?thesis using j u l(2,4) by (simp add: signalled_wake_clean [OF l(1)])
      next
        case nonglobal: False
        obtain v where v: "fmlookup (waiting lines) j = Some v" "set (accounts w) \<inter> set (accounts v) \<noteq> {}"
          using c False nonglobal Some by (auto simp: conflict_def)
        then have "fmlookup (waiting ?pre) j = Some v" using j by auto
        then have "signalled ?l j" using eff u v(2) unfolding leave_effect_def by blast
        then show ?thesis by (simp add: signalled_wake split: option.split)
      qed
    qed
    have sound: "unobstructed ?pre j" if "signalled ?r j" "j |\<in>| fmdom (waiting ?pre)" for j
      using sig [OF that(2)] that(1) l(4) by (auto simp: signalled_wake_clean [OF l(1)] split: option.splits)
    have "tables_ok ?r (\<lambda>_. {})" "fmdom (waiting ?r) = fmdom (waiting ?pre)" "unobstructed ?r = unobstructed ?pre"
      using l by (simp_all split: option.split)
    then show ?thesis unfolding rel order_inv_def using free sound by metis
  qed
qed

lemma order_inv_reachable: "order_reachable lines \<Longrightarrow> order_inv lines"
proof (induction rule: order_reachable.induct)
  case order_start
  show ?case by (rule order_inv_empty)
next
  case (order_next lines lines')
  from order_next(2) order_next(3) show ?case
    by cases (simp_all add: order_inv_admit order_inv_release)
qed

section \<open>Abstract order\<close>

text \<open>
  The contract of the order: a counter and the tickets that wait, each with its accounts and whether
  it is global. A ticket may deliver when no older ticket that waits is in its way.
\<close>

type_synonym 'a order_spec = "nat \<times> (nat, 'a list \<times> bool) fmap"

definition abs_order :: "'a Lines \<Rightarrow> 'a order_spec" where
  "abs_order lines =
     (next_ticket lines, fmmap_keys (\<lambda>tid w. (accounts w, tid |\<in>| globals lines)) (waiting lines))"

definition spec_admit :: "'a list \<Rightarrow> bool \<Rightarrow> 'a order_spec \<Rightarrow> 'a order_spec" where
  "spec_admit accs global = (\<lambda>(n, tickets). (n + 1, fmupd n (accs, global) tickets))"

definition spec_release :: "nat \<Rightarrow> 'a order_spec \<Rightarrow> 'a order_spec" where
  "spec_release tid = (\<lambda>(n, tickets). (n, fmdrop tid tickets))"

definition spec_clash :: "'a list \<times> bool \<Rightarrow> 'a list \<times> bool \<Rightarrow> bool" where
  "spec_clash t u \<longleftrightarrow> snd t \<or> snd u \<or> set (fst t) \<inter> set (fst u) \<noteq> {}"

definition spec_ready :: "'a order_spec \<Rightarrow> nat \<Rightarrow> bool" where
  "spec_ready spec j \<longleftrightarrow>
     (\<exists>u. fmlookup (snd spec) j = Some u \<and>
        (\<forall>i t. i < j \<and> fmlookup (snd spec) i = Some t \<longrightarrow> \<not> spec_clash t u))"

definition tickets :: "'a Lines \<Rightarrow> nat \<Rightarrow> 'a list option" where
  "tickets lines j = map_option accounts (fmlookup (waiting lines) j)"

lemma abs_order_cong:
  assumes "tickets lines = tickets lines'" and "globals lines = globals lines'"
    and "next_ticket lines = next_ticket lines'"
  shows "abs_order lines = abs_order lines'"
proof -
  have "fmlookup (snd (abs_order l)) j = map_option (\<lambda>as. (as, j |\<in>| globals l)) (tickets l j)" for l :: "'a Lines" and j
    by (simp add: abs_order_def tickets_def option.map_comp comp_def)
  then have "snd (abs_order lines) = snd (abs_order lines')" using assms by (intro fmap_ext) simp
  then show ?thesis using assms by (simp add: abs_order_def)
qed

lemma wake_tickets [simp]: "tickets (wake_if_first tid lines) = tickets lines"
  by (rule ext) (simp add: tickets_def wake_accounts)

lemma tickets_fields [simp]:
  "tickets (lines\<lparr>queues := q\<rparr>) = tickets lines" "tickets (lines\<lparr>globals := g\<rparr>) = tickets lines"
  by (simp_all add: tickets_def fun_eq_iff)

lemma leave_queues_tables [simp]:
  "tickets (leave_queues tid as lines) = tickets lines"
  "globals (leave_queues tid as lines) = globals lines"
  "next_ticket (leave_queues tid as lines) = next_ticket lines"
proof (induction as arbitrary: lines)
  case (Cons a as)

  case 1
  from Cons show ?case by (simp add: Let_def split: option.split)
  case 2
  from Cons show ?case by (simp add: Let_def split: option.split)
  case 3
  from Cons show ?case by (simp add: Let_def split: option.split)
qed simp_all

lemma wake_waiting_tables [simp]:
  "tickets (wake_waiting after lines) = tickets lines \<and> globals (wake_waiting after lines) = globals lines \<and>
   next_ticket (wake_waiting after lines) = next_ticket lines"
proof (induction after lines rule: wake_waiting.induct)
  case (1 after lines)
  then show ?case by (simp add: wake_waiting.simps [of after lines] split: option.split)
qed

lemma abs_release: "abs_order (release_ticket tid lines) = spec_release tid (abs_order lines)"
proof (cases "fmlookup (waiting lines) tid")
  case None
  then have "fmdrop tid (snd (abs_order lines)) = snd (abs_order lines)"
    by (intro fmap_ext) (simp add: abs_order_def)
  then show ?thesis using None by (simp add: release_ticket_def spec_release_def abs_order_def)
next
  case (Some w)
  let ?pre = "lines\<lparr>waiting := fmdrop tid (waiting lines), globals := globals lines |-| {|tid|}\<rparr>"
  have "abs_order (release_ticket tid lines) = abs_order ?pre"
    using Some wake_waiting_tables [of None "leave_queues tid (accounts w) ?pre"]
    by (intro abs_order_cong) (auto simp: release_ticket_def Let_def split: option.split)
  also have "\<dots> = spec_release tid (abs_order lines)"
  proof -
    have "fmmap_keys (\<lambda>t w. (accounts w, t |\<in>| globals lines |-| {|tid|})) (fmdrop tid (waiting lines)) =
        fmdrop tid (fmmap_keys (\<lambda>t w. (accounts w, t |\<in>| globals lines)) (waiting lines))"
      by (rule fmap_ext) (auto simp: map_option_case split: option.split)
    then show ?thesis by (simp add: abs_order_def spec_release_def)
  qed
  finally show ?thesis .
qed

lemma abs_admit:
  assumes "order_inv lines" and "next_ticket lines < max_of 64"
  shows "abs_order (snd (admit_ticket accs global lines)) = spec_admit accs global (abs_order lines)"
proof -
  let ?t = "next_ticket lines"
  have fresh: "x \<noteq> ?t" if "x |\<in>| fmdom (waiting lines)" for x
    using assms that by (auto simp: order_inv_def tables_ok_def)
  then have "fmlookup (waiting lines) ?t = None" "\<not> ?t |\<in>| globals lines"
    using assms by (auto simp: order_inv_def tables_ok_def)
  then have "fmmap_keys (\<lambda>t w. (accounts w, t |\<in>| globals (entered accs global lines))) (waiting (entered accs global lines)) =
      fmupd ?t (accs, global) (fmmap_keys (\<lambda>t w. (accounts w, t |\<in>| globals lines)) (waiting lines))"
    by (intro fmap_ext) (auto simp: entered_fields map_option_case split: option.split)
  moreover have "next_ticket (entered accs global lines) = ?t + 1"
    using assms(2) by (simp add: entered_fields max_of_def)
  ultimately have "abs_order (entered accs global lines) = spec_admit accs global (abs_order lines)"
    by (simp add: abs_order_def spec_admit_def)
  moreover have "abs_order (wake_if_first ?t (entered accs global lines)) = abs_order (entered accs global lines)"
    by (rule abs_order_cong) simp_all
  ultimately show ?thesis by (simp add: admit_ticket_entered)
qed

lemma spec_ready_abs:
  "spec_ready (abs_order lines) j \<longleftrightarrow> j |\<in>| fmdom (waiting lines) \<and> unobstructed lines j"
proof (cases "fmlookup (waiting lines) j")
  case (Some u)
  have "conflict lines i j \<longleftrightarrow> spec_clash (accounts v, i |\<in>| globals lines) (accounts u, j |\<in>| globals lines)"
    if "fmlookup (waiting lines) i = Some v" for i v
    using that Some by (simp add: conflict_def spec_clash_def)
  then show ?thesis
    using Some by (auto simp: spec_ready_def abs_order_def unobstructed_def fmlookup_dom_iff) blast
qed (simp add: spec_ready_def abs_order_def fmlookup_dom_iff)

lemma spec_ready_admit: "spec_ready spec j \<Longrightarrow> j < fst spec \<Longrightarrow> spec_ready (spec_admit accs global spec) j"
  by (cases spec) (auto simp: spec_ready_def spec_admit_def)

lemma spec_ready_release: "spec_ready spec j \<Longrightarrow> j \<noteq> tid \<Longrightarrow> spec_ready (spec_release tid spec) j"
  by (cases spec) (auto simp: spec_ready_def spec_release_def)

lemma signalled_spec: "order_inv lines \<Longrightarrow> signalled lines j \<longleftrightarrow> spec_ready (abs_order lines) j"
  using signalled_dom [of lines j] by (auto simp: spec_ready_abs order_inv_def)

lemma abs_order_step:
  assumes "order_inv lines" and "order_step lines lines'"
  obtains accs global where "abs_order lines' = spec_admit accs global (abs_order lines)"
  | tid where "abs_order lines' = spec_release tid (abs_order lines)"
  using assms(2)
proof cases
  case (fixed accs)
  with that(1) abs_admit [OF assms(1)] show thesis by blast
next
  case fixed_all
  with that(1) abs_admit [OF assms(1)] show thesis by blast
next
  case (dropped tid)
  with that(2) abs_release show thesis by blast
qed

lemma order_inv_step: "order_inv lines \<Longrightarrow> order_step lines lines' \<Longrightarrow> order_inv lines'"
  by (erule order_step.cases) (simp_all add: order_inv_admit order_inv_release)

lemma dom_abs_order: "fmdom (waiting lines) = fmdom (snd (abs_order lines))"
  by (simp add: abs_order_def)

section \<open>What the deliveries rely on\<close>

text \<open>
  The interface deliveries are written against: a ticket is ready exactly when no older one clashes.
  From this alone, ready tickets never clash and the oldest ticket is ready.
\<close>

locale turn_order =
  fixes good :: "'s \<Rightarrow> bool" and waits :: "'s \<Rightarrow> nat set"
    and clash :: "'s \<Rightarrow> nat \<Rightarrow> nat \<Rightarrow> bool" and ready :: "'s \<Rightarrow> nat \<Rightarrow> bool"
  assumes ready_waits: "ready s j \<Longrightarrow> j \<in> waits s"
    and ready_iff: "good s \<Longrightarrow> j \<in> waits s \<Longrightarrow> ready s j \<longleftrightarrow> (\<forall>i \<in> waits s. i < j \<longrightarrow> \<not> clash s i j)"
    and clash_sym: "clash s i j \<longleftrightarrow> clash s j i"
begin

lemma exclusive:
  assumes "good s" and "ready s i" and "ready s j" and "i \<noteq> j"
  shows "\<not> clash s i j"
  using assms ready_iff ready_waits clash_sym by (metis linorder_neqE_nat)

lemma oldest_ready: "good s \<Longrightarrow> i \<in> waits s \<Longrightarrow> (\<And>k. k \<in> waits s \<Longrightarrow> i \<le> k) \<Longrightarrow> ready s i"
  using ready_iff by (meson leD)

lemma someone_ready:
  assumes "good s" and "waits s \<noteq> {}"
  shows "\<exists>i. ready s i"
proof -
  from assms(2) have "Inf (waits s) \<in> waits s" by (rule Inf_nat_def1)
  then have "ready s (Inf (waits s))"
    using oldest_ready [OF assms(1)] by (simp add: wellorder_Inf_le1)
  then show ?thesis ..
qed

end

interpretation lines: turn_order order_reachable "\<lambda>l. fset (fmdom (waiting l))" conflict signalled
proof
  show "signalled l j \<Longrightarrow> j \<in> fset (fmdom (waiting l))" for l :: "'a Lines" and j
    by (rule signalled_dom)
  show "signalled l j \<longleftrightarrow> (\<forall>i \<in> fset (fmdom (waiting l)). i < j \<longrightarrow> \<not> conflict l i j)"
    if "order_reachable l" "j \<in> fset (fmdom (waiting l))" for l :: "'a Lines" and j
    using order_inv_reachable [OF that(1)] that(2) by (auto simp: order_inv_def unobstructed_def)
  show "conflict l i j \<longleftrightarrow> conflict l j i" for l :: "'a Lines" and i j
    by (auto simp: conflict_holders)
qed

text \<open>An order with three tickets, the second behind the first, for the witnesses.\<close>

definition busy_order :: "string Lines" where
  "busy_order = snd (admit_ticket [''c''] False (snd (admit_ticket [''a'', ''b''] False
     (snd (admit_ticket [''a''] False empty_lines)))))"

lemma next_ticket_admit: "next_ticket (snd (admit_ticket accs global lines)) = (next_ticket lines + 1) mod 2 ^ 64"
  by (simp add: admit_ticket_entered entered_fields)

lemma next_ticket_empty: "next_ticket empty_lines = 0"
  by (simp add: empty_lines_def)

lemmas ticket_eval = next_ticket_admit next_ticket_empty max_of_def

lemma busy_order_reachable: "order_reachable busy_order"
  unfolding busy_order_def
  by (intro order_next [OF _ fixed] order_start) (simp_all add: ticket_eval)

lemma busy_order_abs:
  "abs_order busy_order =
     (3, fmupd 2 ([''c''], False) (fmupd 1 ([''a'', ''b''], False) (fmupd 0 ([''a''], False) fmempty)))"
proof -
  have "abs_order (empty_lines :: string Lines) = (0, fmempty)"
    by (simp add: abs_order_def empty_lines_def fmap_ext)
  then show ?thesis
    by (simp add: busy_order_def abs_admit order_inv_admit order_inv_empty ticket_eval spec_admit_def)
      (simp add: numeral_2_eq_2)
qed

lemma busy_order_signals:
  "signalled busy_order 0" "\<not> signalled busy_order 1" "signalled busy_order 2"
  "signalled (release_ticket 0 busy_order) 1" "2 |\<in>| fmdom (waiting (release_ticket 0 busy_order))"
proof -
  note inv = order_inv_reachable [OF busy_order_reachable]
  show "signalled busy_order 0" "\<not> signalled busy_order 1" "signalled busy_order 2"
    "signalled (release_ticket 0 busy_order) 1"
    by (auto simp: signalled_spec inv order_inv_release abs_release busy_order_abs spec_ready_def
        spec_clash_def spec_release_def split: if_splits)
  show "2 |\<in>| fmdom (waiting (release_ticket 0 busy_order))"
    by (simp add: dom_abs_order abs_release busy_order_abs spec_release_def)
qed

section \<open>Properties\<close>

text \<open>
  C4. The order implements its contract. In every reachable state exactly those tickets are
  signalled that no older waiting ticket obstructs (an older ticket obstructs when one of the two is
  global or they share an account); taking and dropping tickets act on the waiting tickets as the
  contract says. No wakeup is lost and none is sent early.
\<close>
theorem order_refines:
  assumes "order_reachable lines"
  shows "(\<forall>j. signalled lines j \<longleftrightarrow> spec_ready (abs_order lines) j) \<and>
    abs_order (release_ticket tid lines) = spec_release tid (abs_order lines) \<and>
    (next_ticket lines < max_of 64 \<longrightarrow>
      abs_order (snd (admit_ticket accs global lines)) = spec_admit accs global (abs_order lines))"
proof -
  note inv = order_inv_reachable [OF assms]
  show ?thesis using signalled_spec [OF inv] abs_release abs_admit [OF inv] by blast
qed

theorem order_refines_witness:
  "signalled busy_order 0 \<and> \<not> signalled busy_order 1 \<and> signalled (release_ticket 0 busy_order) 1 \<and>
   (\<forall>j. signalled busy_order j \<longleftrightarrow> spec_ready (abs_order busy_order) j)"
  using order_refines [OF busy_order_reachable] busy_order_signals by blast

text \<open>
  C5. Mutual exclusion. Two tickets that have both been signalled never share an account, and neither
  is global.
\<close>
theorem signalled_exclusive:
  assumes "order_reachable lines" and "signalled lines i" and "signalled lines j" and "i \<noteq> j"
  shows "\<not> conflict lines i j"
  using assms by (rule lines.exclusive)

theorem signalled_exclusive_witness: "\<not> conflict busy_order 0 2"
  using signalled_exclusive [OF busy_order_reachable] busy_order_signals by simp



text \<open>
  A signal is never taken back: a ticket that was signalled stays signalled over every step of
  other tickets, until it is dropped.
\<close>
theorem signal_stable:
  assumes "order_reachable lines" and step: "order_step lines lines'" and "signalled lines j"
    and wait: "j |\<in>| fmdom (waiting lines')"
  shows "signalled lines' j"
proof -
  note inv = order_inv_reachable [OF assms(1)]
  have r: "spec_ready (abs_order lines) j" using assms(3) by (simp add: signalled_spec [OF inv])
  have lt: "j < fst (abs_order lines)"
    using inv signalled_dom [OF assms(3)] by (simp add: abs_order_def order_inv_def tables_ok_def)
  have "spec_ready (abs_order lines') j"
    using inv step
  proof (cases rule: abs_order_step)
    case (1 accs global)
    then show ?thesis using spec_ready_admit [OF r lt] by simp
  next
    case (2 tid)
    then have "j \<noteq> tid" using wait by (auto simp: dom_abs_order spec_release_def split_beta)
    then show ?thesis using spec_ready_release [OF r] 2 by simp
  qed
  then show ?thesis by (simp add: signalled_spec [OF order_inv_step [OF inv step]])
qed

end
