(* ===== verification/Redb_Tables.thy ===== *)
theory Redb_Tables
  imports Lw_Prelude
begin

text \<open>
  The storage layer's common ground: bytes, little- and big-endian integers and UTF-8 strings as the
  standard library handles them, storage errors, redb's ordered tables, and transactions.

  redb is a library the sources call. Its documented contract is what the model uses: a table is an
  ordered map with point reads and writes, ranges in key order and \<open>retain_in\<close>; one write
  transaction is open at a time; nothing it wrote is visible before the commit and all of it is after.
  Input/output failures of redb (\<open>StorageErrorKind::Unavailable\<close>, \<open>Other\<close>) are not modelled.

  A Rust \<open>str\<close> is the list of its UTF-8 bytes, as characters; \<open>String\<close> order is byte order.
  An operation returns its result and the transaction it leaves. On an error the model keeps no
  transaction: every caller either drops it uncommitted, or continues only after an error of an
  operation that changed nothing (a read, a missing account).
\<close>

section \<open>Definitions\<close>

subsection \<open>Bytes and strings\<close>

type_synonym byte = "8 word"
type_synonym bytes = "byte list"

definition byte_of_char :: "char \<Rightarrow> byte" where
  "byte_of_char c = word_of_nat (of_char c)"

definition char_of_byte :: "byte \<Rightarrow> char" where
  "char_of_byte b = char_of (unat b)"

definition as_bytes :: "string \<Rightarrow> bytes" where
  "as_bytes s = map byte_of_char s"

definition continuation :: "byte \<Rightarrow> bool" where
  "continuation b \<longleftrightarrow> 0x80 \<le> b \<and> b \<le> 0xBF"

fun utf8_valid :: "bytes \<Rightarrow> bool" where
  "utf8_valid [] = True"
| "utf8_valid (a # bs) =
     (if a < 0x80 then utf8_valid bs
      else if 0xC2 \<le> a \<and> a \<le> 0xDF then
        (case bs of b # rest \<Rightarrow> continuation b \<and> utf8_valid rest | _ \<Rightarrow> False)
      else if 0xE0 \<le> a \<and> a \<le> 0xEF then
        (case bs of b # c # rest \<Rightarrow>
           continuation b \<and> (a = 0xE0 \<longrightarrow> 0xA0 \<le> b) \<and> (a = 0xED \<longrightarrow> b \<le> 0x9F) \<and>
           continuation c \<and> utf8_valid rest | _ \<Rightarrow> False)
      else if 0xF0 \<le> a \<and> a \<le> 0xF4 then
        (case bs of b # c # d # rest \<Rightarrow>
           continuation b \<and> (a = 0xF0 \<longrightarrow> 0x90 \<le> b) \<and> (a = 0xF4 \<longrightarrow> b \<le> 0x8F) \<and>
           continuation c \<and> continuation d \<and> utf8_valid rest | _ \<Rightarrow> False)
      else False)"

definition from_utf8 :: "bytes \<Rightarrow> string option" where
  "from_utf8 bs = (if utf8_valid bs then Some (map char_of_byte bs) else None)"

text \<open>A value of type \<open>str\<close>: its bytes are UTF-8.\<close>

definition is_str :: "string \<Rightarrow> bool" where
  "is_str s \<longleftrightarrow> utf8_valid (as_bytes s)"

fun to_le_bytes :: "nat \<Rightarrow> nat \<Rightarrow> bytes" where
  "to_le_bytes 0 n = []"
| "to_le_bytes (Suc k) n = word_of_nat (n mod 256) # to_le_bytes k (n div 256)"

fun from_le_bytes :: "bytes \<Rightarrow> nat" where
  "from_le_bytes [] = 0"
| "from_le_bytes (b # bs) = unat b + 256 * from_le_bytes bs"

definition to_be_bytes :: "nat \<Rightarrow> nat \<Rightarrow> bytes" where
  "to_be_bytes k n = rev (to_le_bytes k n)"

definition from_be_bytes :: "bytes \<Rightarrow> nat" where
  "from_be_bytes bs = from_le_bytes (rev bs)"

definition split_first_chunk :: "nat \<Rightarrow> bytes \<Rightarrow> (bytes \<times> bytes) option" where
  "split_first_chunk n bs = (if n \<le> length bs then Some (take n bs, drop n bs) else None)"

subsection \<open>Storage errors\<close>

datatype StorageErrorKind = Unavailable | CorruptData | UnsupportedVersion | CommitUnknown | Other

subsection \<open>Tables\<close>

definition bt_entries :: "('k::linorder, 'v) fmap \<Rightarrow> ('k \<times> 'v) list" where
  "bt_entries t = map (\<lambda>k. (k, the (fmlookup t k))) (bt_keys t)"

definition bt_range :: "('k::linorder \<Rightarrow> bool) \<Rightarrow> ('k, 'v) fmap \<Rightarrow> ('k \<times> 'v) list" where
  "bt_range within t = filter (\<lambda>(k, _). within k) (bt_entries t)"

definition retain_in :: "('k \<Rightarrow> bool) \<Rightarrow> ('k, 'v) fmap \<Rightarrow> ('k, 'v) fmap" where
  "retain_in within t = fmfilter (\<lambda>k. \<not> within k) t"

record Tables =
  ACCOUNTS :: "(string, bytes) fmap"
  ITEMS :: "(string, bytes) fmap"
  VERSIONS :: "(string, nat) fmap"
  PENDING :: "(string, bytes) fmap"
  MESSAGES :: "(string \<times> nat, bytes) fmap"
  SEQUENCES :: "(string, nat) fmap"
  VCARDS :: "(string, bytes) fmap"
  ELEMENTS :: "(string \<times> string \<times> string, bytes) fmap"

definition empty_tables :: Tables where
  "empty_tables = \<lparr>ACCOUNTS = fmempty, ITEMS = fmempty, VERSIONS = fmempty, PENDING = fmempty,
     MESSAGES = fmempty, SEQUENCES = fmempty, VCARDS = fmempty, ELEMENTS = fmempty\<rparr>"

subsection \<open>Transactions\<close>

text \<open>
  A write transaction: the database as it was committed when the transaction began (the snapshot
  \<open>run_with_snapshot\<close> reads) and the tables it works on.
\<close>

record RedbWrite =
  committed :: Tables
  work :: Tables

definition begin_write :: "Tables \<Rightarrow> RedbWrite" where
  "begin_write db = \<lparr>committed = db, work = db\<rparr>"

definition begin_read :: "Tables \<Rightarrow> Tables" where
  "begin_read db = db"

definition commit :: "RedbWrite \<Rightarrow> Tables" where
  "commit tx = work tx"

definition run_with_snapshot :: "(RedbWrite \<Rightarrow> Tables \<Rightarrow> ('e, 'a) result) \<Rightarrow> RedbWrite \<Rightarrow> ('e, 'a) result" where
  "run_with_snapshot op tx = op tx (committed tx)"

type_synonym ('e, 'a) txn = "RedbWrite \<Rightarrow> ('e, 'a \<times> RedbWrite) result"

section \<open>Bytes\<close>

lemma byte_char [simp]: "char_of_byte (byte_of_char c) = c"
  by (simp add: char_of_byte_def byte_of_char_def unat_of_nat of_char_mod_256 take_bit_eq_mod)

lemma char_byte [simp]: "byte_of_char (char_of_byte b) = b"
proof -
  have "unat b < 256" using unsigned_less [of b] by simp
  then show ?thesis by (simp add: char_of_byte_def byte_of_char_def)
qed

lemma as_bytes_inject [simp]: "as_bytes s = as_bytes t \<longleftrightarrow> s = t"
  unfolding as_bytes_def by (rule inj_map_eq_map) (metis byte_char injI)

lemma as_bytes_length [simp]: "length (as_bytes s) = length s"
  by (simp add: as_bytes_def)

lemma from_utf8_as_bytes: "is_str s \<Longrightarrow> from_utf8 (as_bytes s) = Some s"
  by (simp add: from_utf8_def is_str_def as_bytes_def comp_def)

lemma from_utf8_Some: "from_utf8 bs = Some s \<longleftrightarrow> is_str s \<and> bs = as_bytes s"
  by (auto simp: from_utf8_def is_str_def as_bytes_def comp_def)

lemma to_le_bytes_length [simp]: "length (to_le_bytes k n) = k"
  by (induction k n rule: to_le_bytes.induct) simp_all

lemma from_to_le_bytes: "n < 256 ^ k \<Longrightarrow> from_le_bytes (to_le_bytes k n) = n"
proof (induction k n rule: to_le_bytes.induct)
  case (2 k n)
  then have "n div 256 < 256 ^ k" by (simp add: div_less_iff_less_mult mult.commute)
  with 2 show ?case by (simp add: unat_of_nat take_bit_eq_mod)
qed simp

lemma to_be_bytes_length [simp]: "length (to_be_bytes k n) = k"
  by (simp add: to_be_bytes_def)

lemma from_to_be_bytes: "n < 256 ^ k \<Longrightarrow> from_be_bytes (to_be_bytes k n) = n"
  by (simp add: from_be_bytes_def to_be_bytes_def from_to_le_bytes)

lemma from_le_bytes_bound: "from_le_bytes bs < 256 ^ length bs"
proof (induction bs)
  case (Cons b bs)
  have "unat b < 256" using unsigned_less [of b] by simp
  with Cons show ?case by simp
qed simp

lemma split_first_chunk_append [simp]:
  "length xs = n \<Longrightarrow> split_first_chunk n (xs @ ys) = Some (xs, ys)"
  by (simp add: split_first_chunk_def)

section \<open>Ordered tables\<close>

text \<open>
  The contract of a redb table its clients rely on, and what follows for totals over a range of keys,
  such as the rows and bytes an account uses.
\<close>

locale ordered_table =
  fixes get :: "'t \<Rightarrow> 'k::linorder \<Rightarrow> 'v option"
    and ins :: "'k \<Rightarrow> 'v \<Rightarrow> 't \<Rightarrow> 't" and rem :: "'k \<Rightarrow> 't \<Rightarrow> 't"
    and scan :: "('k \<Rightarrow> bool) \<Rightarrow> 't \<Rightarrow> ('k \<times> 'v) list"
    and keep :: "('k \<Rightarrow> bool) \<Rightarrow> 't \<Rightarrow> 't"
  assumes get_ins: "get (ins k v t) j = (if j = k then Some v else get t j)"
    and get_rem: "get (rem k t) j = (if j = k then None else get t j)"
    and get_keep: "get (keep P t) j = (if P j then None else get t j)"
    and set_scan: "set (scan P t) = {(k, v). P k \<and> get t k = Some v}"
    and sorted_scan: "sorted (map fst (scan P t))"
    and distinct_scan: "distinct (map fst (scan P t))"
begin

definition total :: "('k \<times> 'v \<Rightarrow> nat) \<Rightarrow> ('k \<Rightarrow> bool) \<Rightarrow> 't \<Rightarrow> nat" where
  "total f P t = sum_list (map f (scan P t))"

lemma total_sum: "total f P t = (\<Sum>e \<in> {(k, v). P k \<and> get t k = Some v}. f e)"
proof -
  have "distinct (scan P t)" using distinct_scan [of P t] by (simp add: distinct_map)
  then show ?thesis by (simp add: total_def sum_list_distinct_conv_sum_set set_scan)
qed

lemma finite_scan [simp]: "finite {(k, v). P k \<and> get t k = Some v}"
  using finite_set [of "scan P t"] by (simp add: set_scan)

lemma total_cong: "(\<And>k. P k \<Longrightarrow> get t k = get t' k) \<Longrightarrow> total f P t = total f P t'"
  unfolding total_sum by (rule sum.cong) auto

lemma total_rem:
  assumes "P k" and "get t k = Some v"
  shows "total f P t = total f P (rem k t) + f (k, v)"
proof -
  let ?D = "{(k, v). P k \<and> get t k = Some v}" and ?E = "{(j, w). P j \<and> get (rem k t) j = Some w}"
  have "?E = ?D - {(k, v)}" using assms by (auto simp: get_rem split: if_splits)
  moreover have "(k, v) \<in> ?D" using assms by simp
  ultimately show ?thesis unfolding total_sum by (simp add: sum.remove add.commute)
qed

lemma total_rem_absent: "get t k = None \<Longrightarrow> total f P (rem k t) = total f P t"
  by (rule total_cong) (simp add: get_rem)

lemma total_ins:
  assumes "P k"
  shows "total f P (ins k v t) = total f P (rem k t) + f (k, v)"
proof -
  have "total f P (ins k v t) = total f P (rem k (ins k v t)) + f (k, v)"
    by (rule total_rem) (simp_all add: get_ins assms)
  also have "total f P (rem k (ins k v t)) = total f P (rem k t)"
    by (rule total_cong) (simp add: get_ins get_rem)
  finally show ?thesis .
qed

lemma total_outside: "\<not> P k \<Longrightarrow> total f P (ins k v t) = total f P t"
  by (rule total_cong) (auto simp: get_ins)

lemma total_sub:
  assumes "\<And>k. P k \<Longrightarrow> get t' k = None \<or> get t' k = get t k"
  shows "total f P t' \<le> total f P t"
  unfolding total_sum by (rule sum_mono2) (use assms in force)+

lemma scan_cong: "(\<And>k. P k \<Longrightarrow> get t k = get t' k) \<Longrightarrow> scan P t = scan P t'"
proof -
  assume eq: "\<And>k. P k \<Longrightarrow> get t k = get t' k"
  then have "set (scan P t) = set (scan P t')" by (auto simp: set_scan)
  moreover have "inj_on fst (set (scan P t) \<union> set (scan P t'))" by (auto simp: inj_on_def set_scan eq)
  ultimately show ?thesis
    using map_sorted_distinct_set_unique [of fst "scan P t" "scan P t'"]
    by (simp add: sorted_scan distinct_scan)
qed

text \<open>A scan is the one list in key order that holds the rows of the range.\<close>

lemma scan_unique:
  assumes "sorted (map fst xs)" and "distinct (map fst xs)" and "set xs = {(k, v). P k \<and> get t k = Some v}"
  shows "scan P t = xs"
proof (rule map_sorted_distinct_set_unique [of fst])
  show "inj_on fst (set (scan P t) \<union> set xs)" by (auto simp: inj_on_def set_scan assms(3))
qed (simp_all add: sorted_scan distinct_scan set_scan assms)

lemma scan_append:
  assumes "P k" and "\<And>j w. P j \<Longrightarrow> get t j = Some w \<Longrightarrow> j < k"
  shows "scan P (ins k v t) = scan P t @ [(k, v)]"
proof (rule scan_unique)
  have less: "j < k" if "j \<in> fst ` set (scan P t)" for j using that assms(2) by (auto simp: set_scan)
  then show "sorted (map fst (scan P t @ [(k, v)]))"
    by (auto simp: sorted_append sorted_scan intro: less_imp_le)
  show "distinct (map fst (scan P t @ [(k, v)]))" using less by (auto simp: distinct_scan)
  show "set (scan P t @ [(k, v)]) = {(j, w). P j \<and> get (ins k v t) j = Some w}"
  proof -
    have "get t k = None" using assms(2) [OF assms(1)] by (cases "get t k") auto
    then show ?thesis using assms(1) by (auto simp: set_scan get_ins split: if_splits)
  qed
qed

lemma scan_rem: "scan P (rem k t) = filter (\<lambda>e. fst e \<noteq> k) (scan P t)"
  using sorted_filter [of fst "scan P t"] distinct_map_filter [of fst "scan P t"]
  by (intro scan_unique) (auto simp: sorted_scan distinct_scan set_scan get_rem split: if_splits)

lemma scan_keep: "scan P (keep Q t) = filter (\<lambda>e. \<not> Q (fst e)) (scan P t)"
  using sorted_filter [of fst "scan P t"] distinct_map_filter [of fst "scan P t"]
  by (intro scan_unique) (auto simp: sorted_scan distinct_scan set_scan get_keep split: if_splits)

end

lemma bt_keys_sorted [simp]: "sorted (bt_keys t)" "distinct (bt_keys t)"
  by (simp_all add: bt_keys_def sorted_list_of_fset.rep_eq)

lemma bt_entries_fst [simp]: "map fst (bt_entries t) = bt_keys t"
  by (simp add: bt_entries_def comp_def)

interpretation table: ordered_table fmlookup fmupd fmdrop bt_range retain_in
proof
  show "set (bt_range P t) = {(k, v). P k \<and> fmlookup t k = Some v}" for P and t :: "('a, 'b) fmap"
    by (auto simp: bt_range_def bt_entries_def fmlookup_dom_iff image_iff)
  show "sorted (map fst (bt_range P t))" for P and t :: "('a, 'b) fmap"
    using sorted_filter [of fst "bt_entries t"] by (simp add: bt_range_def)
  show "distinct (map fst (bt_range P t))" for P and t :: "('a, 'b) fmap"
    using distinct_map_filter [of fst "bt_entries t"] by (simp add: bt_range_def)
qed (auto simp: retain_in_def)

lemma length_bt_range: "length (bt_range P t) = table.total (\<lambda>_. 1) P t"
  by (simp add: table.total_def sum_list_triv)

end
