(* ===== verification/Jid.thy ===== *)
theory Jid
  imports Redb_Tables
begin

text \<open>
  Jabber identifiers (\<open>lonewolf-xmpp/src/jid/mod.rs\<close>): splitting, preparing and composing the three
  parts, the compact representation with byte offsets, and its accessors.

  Unicode preparation is done by libraries (\<open>precis_profiles\<close>, \<open>idna\<close>, \<open>icu_properties\<close>) and
  by the standard library's character tables and IPv6 addresses. They are the fields of
  \<open>UnicodeData\<close>, an argument of the definitions. Arena allocation failures are not modelled: a
  \<open>Handle\<close> is the text it refers to.
\<close>

section \<open>Definitions\<close>

datatype JidPart = Localpart | Domainpart | Resourcepart

datatype JidError = EmptyPart JidPart | PartTooLong JidPart | InvalidPart JidPart

datatype Script = Greek | Hebrew | Hiragana | Katakana | Han | OtherScript

datatype GeneralCategory = LowercaseLetter | UppercaseLetter | OtherLetter | DecimalNumber
  | ModifierLetter | NonspacingMark | SpacingMark | OtherCategory

datatype ProcessingSuccess = Passthrough | WroteToSink string

record UnicodeData =
  enforce_username :: "string \<Rightarrow> string option"
  enforce_opaque :: "string \<Rightarrow> string option"
  width_and_normalize :: "string \<Rightarrow> string option"
  is_uppercase :: "nat \<Rightarrow> bool"
  to_lowercase :: "nat \<Rightarrow> nat list"
  nfkc_casefold_changes :: "nat \<Rightarrow> bool"
  hangul_jamo :: "nat \<Rightarrow> bool"
  general_category :: "nat \<Rightarrow> GeneralCategory"
  script :: "nat \<Rightarrow> Script"
  uts46_process :: "string \<Rightarrow> (ProcessingSuccess \<times> string) option"
  verify_dns_length :: "string \<Rightarrow> bool"
  canonical_ipv6 :: "string \<Rightarrow> string option"

definition MAX_PART_LEN :: nat where
  "MAX_PART_LEN = 1023"

definition MAX_JID_LEN :: nat where
  "MAX_JID_LEN = 3 * MAX_PART_LEN + 2"

definition MAX_INPUT_PART_LEN :: nat where
  "MAX_INPUT_PART_LEN = 16 * MAX_PART_LEN"

record JidRef =
  ref_text :: string
  localpart_end :: "nat option"
  resourcepart_start :: "nat option"

record Jid =
  jid_text :: string
  text_len :: nat
  jid_localpart_end :: "nat option"
  jid_resourcepart_start :: "nat option"

definition nonzero_u16 :: "nat \<Rightarrow> nat option" where
  "nonzero_u16 n = (if n mod 2 ^ 16 = 0 then None else Some (n mod 2 ^ 16))"

subsection \<open>String operations\<close>

fun split_once :: "char \<Rightarrow> string \<Rightarrow> (string \<times> string) option" where
  "split_once c [] = None"
| "split_once c (x # xs) =
     (if x = c then Some ([], xs) else map_option (\<lambda>(a, b). (x # a, b)) (split_once c xs))"

definition strip_prefix :: "string \<Rightarrow> string \<Rightarrow> string option" where
  "strip_prefix p s = (if take (length p) s = p then Some (drop (length p) s) else None)"

definition strip_suffix :: "string \<Rightarrow> string \<Rightarrow> string option" where
  "strip_suffix p s = map_option rev (strip_prefix (rev p) (rev s))"

fun split_on :: "char \<Rightarrow> string \<Rightarrow> string list" where
  "split_on c [] = [[]]"
| "split_on c (x # xs) =
     (if x = c then [] # split_on c xs
      else (case split_on c xs of [] \<Rightarrow> [[x]] | w # ws \<Rightarrow> (x # w) # ws))"

text \<open>The UTF-8 bytes of the three ideographic full stops, U+3002, U+FF0E and U+FF61.\<close>

definition full_stops :: "string list" where
  "full_stops = map (map char_of_byte) [[0xE3, 0x80, 0x82], [0xEF, 0xBC, 0x8E], [0xEF, 0xBD, 0xA1]]"

fun replace_full_stops :: "string \<Rightarrow> string" where
  "replace_full_stops (a # b # c # rest) =
     (if [a, b, c] \<in> set full_stops then CHR ''.'' # replace_full_stops rest
      else a # replace_full_stops (b # c # rest))"
| "replace_full_stops s = s"

text \<open>The Unicode scalars of a string, as \<open>str::chars\<close> decodes them.\<close>

fun decode_chars :: "nat list \<Rightarrow> nat list" where
  "decode_chars [] = []"
| "decode_chars (a # bs) =
     (if a < 0x80 then a # decode_chars bs
      else if a < 0xE0 then
        (case bs of b # rest \<Rightarrow> ((a - 0xC0) * 64 + (b - 0x80)) # decode_chars rest | _ \<Rightarrow> [])
      else if a < 0xF0 then
        (case bs of b # c # rest \<Rightarrow>
           ((a - 0xE0) * 4096 + (b - 0x80) * 64 + (c - 0x80)) # decode_chars rest | _ \<Rightarrow> [])
      else
        (case bs of b # c # d # rest \<Rightarrow>
           ((a - 0xF0) * 262144 + (b - 0x80) * 4096 + (c - 0x80) * 64 + (d - 0x80)) # decode_chars rest
         | _ \<Rightarrow> []))"

definition str_chars :: "string \<Rightarrow> nat list" where
  "str_chars s = decode_chars (map of_char s)"

subsection \<open>Part preparation\<close>

definition check_length :: "string \<Rightarrow> JidPart \<Rightarrow> (JidError, unit) result" where
  "check_length s part =
     (if s = [] then Inl (EmptyPart part)
      else if MAX_PART_LEN < length s then Inl (PartTooLong part) else Inr ())"

definition check_input_length :: "string \<Rightarrow> JidPart \<Rightarrow> (JidError, unit) result" where
  "check_input_length s part =
     (if s = [] then Inl (EmptyPart part)
      else if MAX_INPUT_PART_LEN < length s then Inl (PartTooLong part) else Inr ())"

definition contains_any :: "string \<Rightarrow> string \<Rightarrow> bool" where
  "contains_any cs s \<longleftrightarrow> list_ex (\<lambda>c. c \<in> set cs) s"

definition prepare_localpart :: "UnicodeData \<Rightarrow> string \<Rightarrow> (JidError, string) result" where
  "prepare_localpart u input =
     ok_then (check_input_length input Localpart) (\<lambda>_.
     ok_then (ok_or (InvalidPart Localpart) (enforce_username u input)) (\<lambda>output.
       if contains_any [CHR 0x22, CHR ''&'', CHR 0x27, CHR ''/'', CHR '':'', CHR ''<'', CHR ''>'', CHR ''@''] output
       then Inl (InvalidPart Localpart)
       else ok_then (check_length output Localpart) (\<lambda>_. Inr output)))"

definition prepare_resourcepart :: "UnicodeData \<Rightarrow> string \<Rightarrow> (JidError, string) result" where
  "prepare_resourcepart u input =
     ok_then (check_input_length input Resourcepart) (\<lambda>_.
     ok_then (ok_or (InvalidPart Resourcepart) (enforce_opaque u input)) (\<lambda>output.
     ok_then (check_length output Resourcepart) (\<lambda>_. Inr output)))"

definition in_range :: "nat \<Rightarrow> nat \<Rightarrow> nat \<Rightarrow> bool" where
  "in_range lo hi c \<longleftrightarrow> lo \<le> c \<and> c \<le> hi"

definition valid_idna_character :: "UnicodeData \<Rightarrow> nat \<Rightarrow> bool" where
  "valid_idna_character u c =
     (if in_range 0x61 0x7A c \<or> in_range 0x30 0x39 c
         \<or> c \<in> {0x2D, 0xDF, 0x3C2, 0x6FD, 0x6FE, 0xF0B, 0x3007, 0xB7, 0x375, 0x5F3, 0x5F4, 0x30FB, 0x200C, 0x200D}
         \<or> in_range 0x660 0x669 c \<or> in_range 0x6F0 0x6F9 c then True
      else if c \<in> {0x640, 0x7FA, 0x302E, 0x302F, 0x303B} \<or> in_range 0x3031 0x3035 c
         \<or> in_range 0x20D0 0x20FF c \<or> in_range 0x1D100 0x1D24F c then False
      else if nfkc_casefold_changes u c \<or> hangul_jamo u c then False
      else general_category u c \<noteq> OtherCategory)"

definition valid_context :: "UnicodeData \<Rightarrow> nat list \<Rightarrow> nat \<Rightarrow> nat list \<Rightarrow> bool" where
  "valid_context u before c after =
     (if c = 0xB7 then before \<noteq> [] \<and> last before = 0x6C \<and> after \<noteq> [] \<and> hd after = 0x6C
      else if c = 0x375 then after \<noteq> [] \<and> script u (hd after) = Greek
      else if c = 0x5F3 \<or> c = 0x5F4 then before \<noteq> [] \<and> script u (last before) = Hebrew
      else if c = 0x30FB then
        list_ex (\<lambda>d. script u d = Hiragana \<or> script u d = Katakana \<or> script u d = Han) (before @ c # after)
      else if in_range 0x660 0x669 c then \<not> list_ex (in_range 0x6F0 0x6F9) (before @ c # after)
      else if in_range 0x6F0 0x6F9 c then \<not> list_ex (in_range 0x660 0x669) (before @ c # after)
      else True)"

fun valid_label_from :: "UnicodeData \<Rightarrow> nat list \<Rightarrow> nat list \<Rightarrow> bool" where
  "valid_label_from u before [] = True"
| "valid_label_from u before (c # after) \<longleftrightarrow>
     valid_idna_character u c \<and> valid_context u before c after \<and> valid_label_from u (before @ [c]) after"

definition valid_idna_label :: "UnicodeData \<Rightarrow> string \<Rightarrow> bool" where
  "valid_idna_label u label = valid_label_from u [] (str_chars label)"

definition ip_literal :: "UnicodeData \<Rightarrow> string \<Rightarrow> (JidError, string) result" where
  "ip_literal u input =
     ok_then (ok_or (InvalidPart Domainpart)
       (Option.bind (strip_prefix ''['' input) (strip_suffix '']''))) (\<lambda>inner.
     ok_then (ok_or (InvalidPart Domainpart) (canonical_ipv6 u inner)) (\<lambda>address.
       if MAX_PART_LEN < length address + 2 then Inl (PartTooLong Domainpart)
       else Inr (''['' @ address @ '']'')))"

definition trim_domain :: "string \<Rightarrow> string" where
  "trim_domain input =
     (case strip_suffix ''.'' input of Some s \<Rightarrow> s
      | None \<Rightarrow> (case List.find (\<lambda>f. strip_suffix f input \<noteq> None) full_stops of
            Some f \<Rightarrow> the (strip_suffix f input) | None \<Rightarrow> input))"

definition prepare_domainpart :: "UnicodeData \<Rightarrow> string \<Rightarrow> (JidError, string) result" where
  "prepare_domainpart u input0 =
     (let input = trim_domain input0 in
      ok_then (check_input_length input Domainpart) (\<lambda>_.
        if contains_any ''@/'' input then Inl (InvalidPart Domainpart)
        else if take 1 input = ''['' then ip_literal u input
        else
          (let mapped = replace_full_stops input in
           ok_then (if list_all (\<lambda>c. of_char c < (128::nat)) mapped then Inr mapped
                    else ok_or (InvalidPart Domainpart) (width_and_normalize u mapped)) (\<lambda>mapped.
             if \<not> list_all (\<lambda>c. c = 0x2E \<or> valid_idna_character u c
                   \<or> (is_uppercase u c \<and> list_all (valid_idna_character u) (to_lowercase u c))) (str_chars mapped)
             then Inl (InvalidPart Domainpart)
             else ok_then (ok_or (InvalidPart Domainpart) (uts46_process u mapped)) (\<lambda>(success, ascii).
               (let output = (case success of Passthrough \<Rightarrow> mapped | WroteToSink unicode \<Rightarrow> unicode) in
                ok_then (check_length output Domainpart) (\<lambda>_.
                  (let dns_name = (if ascii = [] then output else ascii) in
                   if \<not> verify_dns_length u dns_name \<or> \<not> list_all (valid_idna_label u) (split_on (CHR ''.'') output)
                   then Inl (InvalidPart Domainpart) else Inr output))))))))"

subsection \<open>Composition\<close>

definition compose_parts :: "string option \<Rightarrow> string \<Rightarrow> string option \<Rightarrow> (JidError, JidRef) result" where
  "compose_parts localpart domainpart resourcepart =
     ok_then (case localpart of None \<Rightarrow> Inr () | Some l \<Rightarrow>
        ok_then (check_length l Localpart) (\<lambda>_. if contains_any ''@/'' l then Inl (InvalidPart Localpart) else Inr ())) (\<lambda>_.
     ok_then (check_length domainpart Domainpart) (\<lambda>_.
       if contains_any ''@/'' domainpart then Inl (InvalidPart Domainpart)
       else ok_then (case resourcepart of None \<Rightarrow> Inr () | Some r \<Rightarrow> check_length r Resourcepart) (\<lambda>_.
         (let local_len = (case localpart of None \<Rightarrow> 0 | Some l \<Rightarrow> length l);
              domain_start = (case localpart of None \<Rightarrow> 0 | Some l \<Rightarrow> length l + 1);
              bare_len = domain_start + length domainpart;
              bytes = (case localpart of None \<Rightarrow> [] | Some l \<Rightarrow> l @ ''@'') @ domainpart @
                (case resourcepart of None \<Rightarrow> [] | Some r \<Rightarrow> ''/'' @ r)
          in ok_then (ok_or (InvalidPart Domainpart) (from_utf8 (as_bytes bytes))) (\<lambda>txt.
             Inr \<lparr>ref_text = txt, localpart_end = nonzero_u16 local_len,
                  resourcepart_start = Option.bind resourcepart (\<lambda>_. nonzero_u16 (bare_len + 1))\<rparr>)))))"

definition clone_jid :: "JidRef \<Rightarrow> Jid" where
  "clone_jid r = \<lparr>jid_text = ref_text r, text_len = length (ref_text r) mod 2 ^ 16,
     jid_localpart_end = localpart_end r, jid_resourcepart_start = resourcepart_start r\<rparr>"

definition from_trusted_parts_in :: "string option \<Rightarrow> string \<Rightarrow> string option \<Rightarrow> (JidError, Jid) result" where
  "from_trusted_parts_in localpart domainpart resourcepart =
     ok_then (compose_parts localpart domainpart resourcepart) (\<lambda>r. Inr (clone_jid r))"

definition transpose_map :: "('a \<Rightarrow> ('e, 'b) result) \<Rightarrow> 'a option \<Rightarrow> ('e, 'b option) result" where
  "transpose_map f o' = (case o' of None \<Rightarrow> Inr None | Some a \<Rightarrow> ok_then (f a) (\<lambda>b. Inr (Some b)))"

definition from_parts_in :: "UnicodeData \<Rightarrow> string option \<Rightarrow> string \<Rightarrow> string option \<Rightarrow> (JidError, Jid) result" where
  "from_parts_in u localpart domainpart resourcepart =
     ok_then (transpose_map (prepare_localpart u) localpart) (\<lambda>localpart.
     ok_then (prepare_domainpart u domainpart) (\<lambda>domainpart.
     ok_then (transpose_map (prepare_resourcepart u) resourcepart) (\<lambda>resourcepart.
       from_trusted_parts_in localpart domainpart resourcepart)))"

definition parse_in :: "UnicodeData \<Rightarrow> string \<Rightarrow> (JidError, Jid) result" where
  "parse_in u input =
     (let (bare, resourcepart) = (case split_once (CHR ''/'') input of
            None \<Rightarrow> (input, None) | Some (bare, resource) \<Rightarrow> (bare, Some resource));
          (localpart, domainpart) = (case split_once (CHR ''@'') bare of
            None \<Rightarrow> (None, bare) | Some (local, domain) \<Rightarrow> (Some local, domain))
      in from_parts_in u localpart domainpart resourcepart)"

definition resolve :: "Jid \<Rightarrow> JidRef" where
  "resolve j = \<lparr>ref_text = take (text_len j) (jid_text j), localpart_end = jid_localpart_end j,
     resourcepart_start = jid_resourcepart_start j\<rparr>"

definition jid_bare :: "Jid \<Rightarrow> Jid" where
  "jid_bare j = j\<lparr>text_len := (case jid_resourcepart_start j of None \<Rightarrow> text_len j | Some start \<Rightarrow> start - 1),
     jid_resourcepart_start := None\<rparr>"

subsection \<open>Accessors\<close>

definition bare_len :: "JidRef \<Rightarrow> nat" where
  "bare_len r = (case resourcepart_start r of None \<Rightarrow> length (ref_text r) | Some start \<Rightarrow> start - 1)"

definition localpart :: "JidRef \<Rightarrow> string option" where
  "localpart r = map_option (\<lambda>e. take e (ref_text r)) (localpart_end r)"

definition domainpart :: "JidRef \<Rightarrow> string" where
  "domainpart r =
     (let start = (case localpart_end r of None \<Rightarrow> 0 | Some e \<Rightarrow> e + 1)
      in drop start (take (bare_len r) (ref_text r)))"

definition resourcepart :: "JidRef \<Rightarrow> string option" where
  "resourcepart r = map_option (\<lambda>start. drop start (ref_text r)) (resourcepart_start r)"

definition is_full :: "JidRef \<Rightarrow> bool" where
  "is_full r \<longleftrightarrow> resourcepart_start r \<noteq> None"

definition bare :: "JidRef \<Rightarrow> JidRef" where
  "bare r = \<lparr>ref_text = take (bare_len r) (ref_text r), localpart_end = localpart_end r, resourcepart_start = None\<rparr>"

definition with_resource_in :: "UnicodeData \<Rightarrow> JidRef \<Rightarrow> string \<Rightarrow> (JidError, Jid) result" where
  "with_resource_in u r resource =
     ok_then (prepare_resourcepart u resource) (\<lambda>resource.
       from_trusted_parts_in (localpart r) (domainpart r) (Some resource))"

section \<open>Splitting and composing\<close>

lemma split_once_append: "c \<notin> set a \<Longrightarrow> split_once c (a @ c # b) = Some (a, b)"
  by (induction a) auto

lemma split_once_None: "split_once c s = None \<longleftrightarrow> c \<notin> set s"
  by (induction s) auto

lemma contains_any_iff: "contains_any cs s \<longleftrightarrow> set cs \<inter> set s \<noteq> {}"
  by (auto simp: contains_any_def list_ex_iff)

lemma check_length_ok: "check_length s part = Inr () \<longleftrightarrow> s \<noteq> [] \<and> length s \<le> MAX_PART_LEN"
  by (simp add: check_length_def not_less)

definition separators_free :: "string \<Rightarrow> bool" where
  "separators_free s \<longleftrightarrow> CHR ''@'' \<notin> set s \<and> CHR ''/'' \<notin> set s"

definition part_ok :: "string \<Rightarrow> bool" where
  "part_ok s \<longleftrightarrow> s \<noteq> [] \<and> length s \<le> MAX_PART_LEN"

definition jid_string :: "string option \<Rightarrow> string \<Rightarrow> string option \<Rightarrow> string" where
  "jid_string l d r = (case l of None \<Rightarrow> [] | Some l \<Rightarrow> l @ ''@'') @ d @ (case r of None \<Rightarrow> [] | Some r \<Rightarrow> ''/'' @ r)"

lemma compose_parts_ok:
  "compose_parts l d r = Inr ref \<longleftrightarrow>
     pred_option (\<lambda>l. part_ok l \<and> separators_free l) l \<and> part_ok d \<and> separators_free d \<and>
     pred_option part_ok r \<and> is_str (jid_string l d r) \<and>
     ref = \<lparr>ref_text = jid_string l d r,
       localpart_end = map_option length l,
       resourcepart_start = map_option (\<lambda>_. length (jid_string l d None) + 1) r\<rparr>"
proof -
  have nz: "nonzero_u16 n = Some n" if "0 < n" "n \<le> MAX_JID_LEN" for n
    using that by (simp add: nonzero_u16_def MAX_JID_LEN_def MAX_PART_LEN_def)
  have utf8: "from_utf8 (as_bytes s) = Some t \<longleftrightarrow> is_str s \<and> t = s" for s t
    by (auto simp: from_utf8_Some)
  show ?thesis
    by (cases l; cases r)
      (auto simp: compose_parts_def check_length_ok contains_any_iff part_ok_def separators_free_def utf8
        jid_string_def nz MAX_JID_LEN_def MAX_PART_LEN_def nonzero_u16_def[of 0] split: if_splits)
qed

lemma jid_string_length: "pred_option part_ok l \<Longrightarrow> part_ok d \<Longrightarrow> pred_option part_ok r \<Longrightarrow>
   length (jid_string l d r) \<le> MAX_JID_LEN"
  by (cases l; cases r) (simp_all add: jid_string_def part_ok_def MAX_JID_LEN_def)

lemma from_trusted_parts_ok:
  assumes "from_trusted_parts_in l d r = Inr j"
  shows "resolve j = \<lparr>ref_text = jid_string l d r, localpart_end = map_option length l,
      resourcepart_start = map_option (\<lambda>_. length (jid_string l d None) + 1) r\<rparr>"
    and "pred_option (\<lambda>l. part_ok l \<and> separators_free l) l" and "part_ok d" and "separators_free d"
    and "pred_option part_ok r" and "is_str (jid_string l d r)" and "j = clone_jid (resolve j)"
    and "length (jid_string l d r) \<le> MAX_JID_LEN"
proof -
  from assms obtain ref where c: "compose_parts l d r = Inr ref" and j: "j = clone_jid ref"
    by (auto simp: from_trusted_parts_in_def)
  note ok = c [unfolded compose_parts_ok]
  show parts: "pred_option (\<lambda>l. part_ok l \<and> separators_free l) l" "part_ok d" "separators_free d"
    "pred_option part_ok r" "is_str (jid_string l d r)"
    using ok by auto
  show len: "length (jid_string l d r) \<le> MAX_JID_LEN"
    using parts by (intro jid_string_length) (auto elim: option.pred_mono_strong)
  then have "length (jid_string l d r) mod 2 ^ 16 = length (jid_string l d r)"
    by (simp add: MAX_JID_LEN_def MAX_PART_LEN_def)
  then show r: "resolve j = \<lparr>ref_text = jid_string l d r, localpart_end = map_option length l,
      resourcepart_start = map_option (\<lambda>_. length (jid_string l d None) + 1) r\<rparr>"
    using ok by (simp add: j resolve_def clone_jid_def)
  show "j = clone_jid (resolve j)" using ok unfolding r by (simp add: j)
qed

lemma split_jid_string:
  assumes "pred_option separators_free l" and "separators_free d"
  shows "(case split_once (CHR ''/'') (jid_string l d r) of
       None \<Rightarrow> (jid_string l d r, None) | Some (b, resource) \<Rightarrow> (b, Some resource)) = (jid_string l d None, r)"
    and "(case split_once (CHR ''@'') (jid_string l d None) of
       None \<Rightarrow> (None, jid_string l d None) | Some (local, domain) \<Rightarrow> (Some local, domain)) = (l, d)"
proof -
  have b: "CHR ''/'' \<notin> set (jid_string l d None)"
    using assms by (cases l) (auto simp: jid_string_def separators_free_def)
  show "(case split_once (CHR ''/'') (jid_string l d r) of
       None \<Rightarrow> (jid_string l d r, None) | Some (b, resource) \<Rightarrow> (b, Some resource)) = (jid_string l d None, r)"
  proof (cases r)
    case None
    then show ?thesis using b by (simp add: split_once_None [THEN iffD2])
  next
    case (Some s)
    then have "jid_string l d r = jid_string l d None @ CHR ''/'' # s" by (simp add: jid_string_def)
    then show ?thesis using split_once_append [OF b, of s] Some by simp
  qed
  show "(case split_once (CHR ''@'') (jid_string l d None) of
       None \<Rightarrow> (None, jid_string l d None) | Some (local, domain) \<Rightarrow> (Some local, domain)) = (l, d)"
  proof (cases l)
    case None
    then show ?thesis using assms
      by (simp add: jid_string_def separators_free_def split_once_None [THEN iffD2])
  next
    case (Some s)
    then show ?thesis using assms split_once_append [of "CHR ''@''" s d]
      by (simp add: jid_string_def separators_free_def)
  qed
qed

text \<open>
  PRECIS enforcement is idempotent: what a profile returned, it returns again (RFC 8264 requires
  enforcement to be stable).
\<close>

definition stable_profiles :: "UnicodeData \<Rightarrow> bool" where
  "stable_profiles u \<longleftrightarrow>
     (\<forall>s t. enforce_username u s = Some t \<longrightarrow> enforce_username u t = Some t) \<and>
     (\<forall>s t. enforce_opaque u s = Some t \<longrightarrow> enforce_opaque u t = Some t)"

lemma check_input_length_prepared: "part_ok s \<Longrightarrow> check_input_length s part = Inr ()"
  by (simp add: check_input_length_def part_ok_def MAX_INPUT_PART_LEN_def MAX_PART_LEN_def)

lemma prepare_localpart_stable:
  "stable_profiles u \<Longrightarrow> prepare_localpart u s = Inr t \<Longrightarrow> prepare_localpart u t = Inr t"
  by (auto simp: prepare_localpart_def stable_profiles_def check_length_ok check_input_length_prepared
      part_ok_def split: if_splits)

lemma prepare_resourcepart_stable:
  "stable_profiles u \<Longrightarrow> prepare_resourcepart u s = Inr t \<Longrightarrow> prepare_resourcepart u t = Inr t"
  by (auto simp: prepare_resourcepart_def stable_profiles_def check_length_ok check_input_length_prepared
      part_ok_def split: if_splits)

lemma transpose_map_stable:
  assumes "\<And>s t. f s = Inr t \<Longrightarrow> f t = Inr t" and "transpose_map f o1 = Inr o2"
  shows "transpose_map f o2 = Inr o2"
  using assms by (cases o1) (auto simp: transpose_map_def)

lemma parse_in_jid_string:
  assumes "pred_option separators_free l" and "separators_free d"
  shows "parse_in u (jid_string l d r) = from_parts_in u l d r"
  using split_jid_string [OF assms] by (simp add: parse_in_def)

lemma from_parts_trusted:
  assumes "from_parts_in u l d r = Inr j"
  obtains l' d' r' where "transpose_map (prepare_localpart u) l = Inr l'" "prepare_domainpart u d = Inr d'"
    "transpose_map (prepare_resourcepart u) r = Inr r'" "from_trusted_parts_in l' d' r' = Inr j"
  using assms by (auto simp: from_parts_in_def)

lemma resolved_parts:
  assumes "from_trusted_parts_in l d r = Inr j"
  shows "localpart (resolve j) = l" and "domainpart (resolve j) = d" and "resourcepart (resolve j) = r"
    and "ref_text (resolve j) = jid_string l d r"
proof -
  note p = from_trusted_parts_ok(1) [OF assms]
  show "localpart (resolve j) = l" by (cases l) (simp_all add: p localpart_def jid_string_def)
  show "resourcepart (resolve j) = r" by (cases r) (simp_all add: p resourcepart_def jid_string_def)
  show "domainpart (resolve j) = d"
    by (cases l; cases r) (simp_all add: p domainpart_def bare_len_def jid_string_def)
  show "ref_text (resolve j) = jid_string l d r" by (simp add: p)
qed

lemma bare_resolved:
  assumes "from_trusted_parts_in l d r = Inr j"
  shows "bare (resolve j) = \<lparr>ref_text = jid_string l d None, localpart_end = map_option length l, resourcepart_start = None\<rparr>"
  using from_trusted_parts_ok(1) [OF assms] by (cases r) (simp_all add: bare_def bare_len_def jid_string_def)

text \<open>Unicode tables that accept ASCII unchanged, for the witnesses.\<close>

definition ascii_tables :: UnicodeData where
  "ascii_tables = \<lparr>enforce_username = Some, enforce_opaque = Some, width_and_normalize = Some,
     is_uppercase = (\<lambda>_. False), to_lowercase = (\<lambda>c. [c]), nfkc_casefold_changes = (\<lambda>_. False),
     hangul_jamo = (\<lambda>_. False), general_category = (\<lambda>_. OtherCategory), script = (\<lambda>_. OtherScript),
     uts46_process = (\<lambda>_. Some (Passthrough, [])), verify_dns_length = (\<lambda>_. True),
     canonical_ipv6 = Some\<rparr>"

lemmas prepare_eval = prepare_domainpart_def ascii_tables_def trim_domain_def strip_suffix_def strip_prefix_def
  full_stops_def check_input_length_def MAX_INPUT_PART_LEN_def MAX_PART_LEN_def contains_any_def str_chars_def
  valid_idna_character_def in_range_def check_length_def valid_idna_label_def valid_context_def char_of_byte_def

lemma ascii_domain: "prepare_domainpart ascii_tables ''x'' = Inr ''x''"
  by (simp add: prepare_eval)

lemma ascii_parse: "parse_in ascii_tables ''a@x/r'' = from_trusted_parts_in (Some ''a'') ''x'' (Some ''r'')"
  by (simp add: parse_in_def from_parts_in_def ascii_domain transpose_map_def prepare_localpart_def prepare_resourcepart_def
      check_input_length_prepared part_ok_def MAX_PART_LEN_def contains_any_def check_length_def)
    (simp add: ascii_tables_def MAX_PART_LEN_def check_length_def)

section \<open>Properties\<close>

text \<open>
  C22. Composing and reading back. A JID built from trusted parts gives back exactly its three parts
  and its canonical text; the text fits the buffer of \<open>MAX_JID_LEN\<close> bytes and its offsets fit 16 bits;
  taking the bare JID keeps the localpart and domainpart and drops the resourcepart.
\<close>
theorem jid_parts_roundtrip:
  assumes "from_trusted_parts_in l d r = Inr j"
  shows "localpart (resolve j) = l \<and> domainpart (resolve j) = d \<and> resourcepart (resolve j) = r \<and>
    ref_text (resolve j) = jid_string l d r \<and> length (ref_text (resolve j)) \<le> MAX_JID_LEN \<and>
    resolve (jid_bare j) = bare (resolve j) \<and> ref_text (bare (resolve j)) = jid_string l d None \<and>
    localpart (bare (resolve j)) = l \<and> domainpart (bare (resolve j)) = d"
proof -
  note r = resolved_parts [OF assms] and b = bare_resolved [OF assms] and t = from_trusted_parts_ok [OF assms]
  have "jid_text j = jid_string l d r" by (subst t(7)) (simp add: clone_jid_def t(1))
  then have "resolve (jid_bare j) = bare (resolve j)"
    using t(1) by (cases r) (simp_all add: resolve_def jid_bare_def bare_def bare_len_def jid_string_def)
  moreover have "localpart (bare (resolve j)) = l" "domainpart (bare (resolve j)) = d"
    by (cases l; simp add: b localpart_def domainpart_def bare_len_def jid_string_def)+
  ultimately show ?thesis using r t(8) b by simp
qed

theorem jid_parts_roundtrip_witness:
  "\<exists>j. from_trusted_parts_in (Some ''ann'') ''example.org'' (Some ''desk'') = Inr j \<and>
     ref_text (resolve j) = ''ann@example.org/desk'' \<and> domainpart (bare (resolve j)) = ''example.org''"
proof -
  obtain j where j: "from_trusted_parts_in (Some ''ann'') ''example.org'' (Some ''desk'') = Inr j"
  proof -
    have "\<exists>j. from_trusted_parts_in (Some ''ann'') ''example.org'' (Some ''desk'') = Inr j"
      by (simp add: from_trusted_parts_in_def compose_parts_ok part_ok_def separators_free_def
          MAX_PART_LEN_def jid_string_def is_str_def as_bytes_def byte_of_char_def)
    then show thesis using that by blast
  qed
  from jid_parts_roundtrip [OF j] j show ?thesis by (auto simp: jid_string_def)
qed



end
