(* ===== verification/Account_Store.thy ===== *)
theory Account_Store
  imports Jid
begin

text \<open>
  Account keys and the account store (\<open>lonewolf-storage/src/account\<close>, \<open>redb/jid.rs\<close>): the record format
  of SCRAM credentials, the operations on the accounts table, ordered listing, and the initialisation of the
  decoy secret that hides which accounts exist.
\<close>

section \<open>Definitions\<close>

subsection \<open>Keys\<close>

record AccountKey =
  key_text :: string
  username_len :: nat

datatype AccountKeyError = MissingUsername | ResourceNotAllowed

definition username :: "AccountKey \<Rightarrow> string" where
  "username k = take (username_len k) (key_text k)"

definition domain :: "AccountKey \<Rightarrow> string" where
  "domain k = drop (username_len k + 1) (key_text k)"

definition account_key_of_jid :: "JidRef \<Rightarrow> (AccountKeyError, AccountKey) result" where
  "account_key_of_jid jid =
     (if is_full jid then Inl ResourceNotAllowed
      else ok_then (ok_or MissingUsername (localpart jid)) (\<lambda>user.
        Inr \<lparr>key_text = ref_text jid, username_len = length user\<rparr>))"

type_synonym RosterJid = string

fun find_char :: "char \<Rightarrow> string \<Rightarrow> nat option" where
  "find_char c [] = None"
| "find_char c (x # xs) = (if x = c then Some 0 else map_option Suc (find_char c xs))"

definition account_key_of_roster_jid :: "RosterJid \<Rightarrow> (AccountKeyError, AccountKey) result" where
  "account_key_of_roster_jid s =
     (if CHR ''/'' \<in> set s then Inl ResourceNotAllowed
      else ok_then (ok_or MissingUsername
          (Option.bind (find_char (CHR ''@'') s) (\<lambda>n. if 0 < n then Some n else None))) (\<lambda>n.
        Inr \<lparr>key_text = s, username_len = n\<rparr>))"

definition with_canonical_jid :: "UnicodeData \<Rightarrow> string \<Rightarrow> nat \<Rightarrow> (JidRef \<Rightarrow> (StorageErrorKind, 'a) result)
    \<Rightarrow> (StorageErrorKind, 'a) result" where
  "with_canonical_jid u s max_len convert =
     (if max_len < length s then Inl CorruptData
      else (case parse_in u s of
          Inl _ \<Rightarrow> Inl CorruptData
        | Inr jid \<Rightarrow> if ref_text (resolve jid) \<noteq> s then Inl CorruptData else convert (resolve jid)))"

subsection \<open>Credentials\<close>

record ScramVerifierData =
  salt :: bytes
  iterations :: nat
  stored_key :: bytes
  server_key :: bytes

record ScramCredentials =
  sha1 :: "ScramVerifierData option"
  sha256 :: "ScramVerifierData option"
  sha512 :: "ScramVerifierData option"

datatype ScramHash = Sha1 | Sha256 | Sha512

datatype ScramVerifier = Sha1Verifier ScramVerifierData | Sha256Verifier ScramVerifierData | Sha512Verifier ScramVerifierData

definition SCRAM_POLICY_ITERATIONS :: nat where
  "SCRAM_POLICY_ITERATIONS = 100000"

definition RECORD_VERSION :: byte where
  "RECORD_VERSION = 1"

definition SHA1 :: byte where
  "SHA1 = 1"

definition SHA256 :: byte where
  "SHA256 = 2"

definition SHA512 :: byte where
  "SHA512 = 4"

definition MAX_RECORD_BYTES :: nat where
  "MAX_RECORD_BYTES = 2 + (16 + 4 + 20 * 2) + (16 + 4 + 32 * 2) + (16 + 4 + 64 * 2)"

record EncodedCredentials =
  buffer :: bytes
  used :: nat

definition as_slice :: "EncodedCredentials \<Rightarrow> bytes" where
  "as_slice r = take (used r) (buffer r)"

definition append_slice :: "bytes \<Rightarrow> EncodedCredentials \<Rightarrow> EncodedCredentials option" where
  "append_slice bs r =
     (if used r + length bs \<le> length (buffer r)
      then Some \<lparr>buffer = take (used r) (buffer r) @ bs @ drop (used r + length bs) (buffer r),
                 used = used r + length bs\<rparr>
      else None)"

definition append_verifier :: "ScramVerifierData \<Rightarrow> EncodedCredentials \<Rightarrow> EncodedCredentials option" where
  "append_verifier v r =
     Option.bind (append_slice (salt v) r) (\<lambda>r.
     Option.bind (append_slice (to_le_bytes 4 (iterations v)) r) (\<lambda>r.
     Option.bind (append_slice (stored_key v) r) (\<lambda>r.
     append_slice (server_key v) r)))"

definition append_family :: "byte \<Rightarrow> ScramVerifierData option \<Rightarrow> EncodedCredentials \<Rightarrow> EncodedCredentials option" where
  "append_family flag v r =
     (case v of None \<Rightarrow> Some r
      | Some v \<Rightarrow> append_verifier v (r\<lparr>buffer := (buffer r)[1 := or (buffer r ! 1) flag]\<rparr>))"

definition encode_credentials :: "ScramCredentials \<Rightarrow> EncodedCredentials option" where
  "encode_credentials c =
     Option.bind (append_family SHA1 (sha1 c)
       \<lparr>buffer = (replicate MAX_RECORD_BYTES 0)[0 := RECORD_VERSION], used = 2\<rparr>) (\<lambda>r.
     Option.bind (append_family SHA256 (sha256 c) r) (\<lambda>r.
     append_family SHA512 (sha512 c) r))"

definition take_chunk :: "nat \<Rightarrow> bytes \<Rightarrow> (StorageErrorKind, bytes \<times> bytes) result" where
  "take_chunk n bs = ok_or CorruptData (split_first_chunk n bs)"

definition decode_verifier :: "nat \<Rightarrow> bytes \<Rightarrow> (StorageErrorKind, ScramVerifierData \<times> bytes) result" where
  "decode_verifier n bs =
     ok_then (take_chunk 16 bs) (\<lambda>(salt, bs).
     ok_then (take_chunk 4 bs) (\<lambda>(it, bs).
       if from_le_bytes it = 0 then Inl CorruptData
       else ok_then (take_chunk n bs) (\<lambda>(stored, bs).
         ok_then (take_chunk n bs) (\<lambda>(server, bs).
           Inr (\<lparr>salt = salt, iterations = from_le_bytes it, stored_key = stored, server_key = server\<rparr>, bs)))))"

definition decode_family :: "byte \<Rightarrow> byte \<Rightarrow> nat \<Rightarrow> bytes \<Rightarrow> (StorageErrorKind, ScramVerifierData option \<times> bytes) result" where
  "decode_family hashes flag n bs =
     (if and hashes flag \<noteq> 0 then ok_then (decode_verifier n bs) (\<lambda>(v, bs). Inr (Some v, bs))
      else Inr (None, bs))"

definition decode_credentials :: "bytes \<Rightarrow> (StorageErrorKind, ScramCredentials) result" where
  "decode_credentials bs =
     ok_then (take_chunk 2 bs) (\<lambda>(header, bs).
       (let version = header ! 0; hashes = header ! 1 in
        if version \<noteq> RECORD_VERSION then Inl UnsupportedVersion
        else if hashes = 0 \<or> and hashes (not (or (or SHA1 SHA256) SHA512)) \<noteq> 0 then Inl CorruptData
        else
          ok_then (decode_family hashes SHA1 20 bs) (\<lambda>(s1, bs).
          ok_then (decode_family hashes SHA256 32 bs) (\<lambda>(s256, bs).
          ok_then (decode_family hashes SHA512 64 bs) (\<lambda>(s512, bs).
            if bs \<noteq> [] then Inl CorruptData
            else Inr \<lparr>sha1 = s1, sha256 = s256, sha512 = s512\<rparr>)))))"

subsection \<open>Operations\<close>

record Account =
  account_key :: AccountKey

record NewAccount =
  new_key :: AccountKey
  new_credentials :: ScramCredentials

datatype AccountError = AlreadyExists | NotFound | UnsupportedIterations | AccountStorage StorageErrorKind

definition account_exists :: "RedbWrite \<Rightarrow> string \<Rightarrow> bool" where
  "account_exists tx key \<longleftrightarrow> fmlookup (ACCOUNTS (work tx)) key \<noteq> None"

definition read_account :: "Tables \<Rightarrow> AccountKey \<Rightarrow> (AccountError, Account option) result" where
  "read_account t key =
     (case fmlookup (ACCOUNTS t) (key_text key) of
        None \<Rightarrow> Inr None
      | Some record \<Rightarrow> ok_then (map_err AccountStorage (decode_credentials record)) (\<lambda>_.
          Inr (Some \<lparr>account_key = key\<rparr>)))"

definition read_scram :: "Tables \<Rightarrow> AccountKey \<Rightarrow> ScramHash \<Rightarrow> (AccountError, ScramVerifier option) result" where
  "read_scram t key hash =
     (case fmlookup (ACCOUNTS t) (key_text key) of
        None \<Rightarrow> Inr None
      | Some record \<Rightarrow> ok_then (map_err AccountStorage (decode_credentials record)) (\<lambda>c.
          Inr (case hash of Sha1 \<Rightarrow> map_option Sha1Verifier (sha1 c)
               | Sha256 \<Rightarrow> map_option Sha256Verifier (sha256 c)
               | Sha512 \<Rightarrow> map_option Sha512Verifier (sha512 c))))"

definition decode_account_key :: "UnicodeData \<Rightarrow> string \<Rightarrow> (StorageErrorKind, AccountKey) result" where
  "decode_account_key u s =
     with_canonical_jid u s (MAX_PART_LEN * 2 + 1) (\<lambda>jid. map_err (\<lambda>_. CorruptData) (account_key_of_jid jid))"

fun decode_rows :: "UnicodeData \<Rightarrow> (string \<times> bytes) list \<Rightarrow> (AccountError, Account list) result" where
  "decode_rows u [] = Inr []"
| "decode_rows u ((key, record) # rows) =
     ok_then (map_err AccountStorage (decode_credentials record)) (\<lambda>_.
     ok_then (map_err AccountStorage (decode_account_key u key)) (\<lambda>k.
     ok_then (decode_rows u rows) (\<lambda>accounts. Inr (\<lparr>account_key = k\<rparr> # accounts))))"

definition list_accounts :: "UnicodeData \<Rightarrow> Tables \<Rightarrow> AccountKey option \<Rightarrow> nat \<Rightarrow> (AccountError, Account list) result" where
  "list_accounts u t after limit =
     decode_rows u (take limit (bt_range
       (\<lambda>k. case after of None \<Rightarrow> True | Some a \<Rightarrow> key_text a < k) (ACCOUNTS t)))"

definition validate_iterations :: "ScramCredentials \<Rightarrow> (AccountError, unit) result" where
  "validate_iterations c =
     (let off_policy = (\<lambda>v. case v of None \<Rightarrow> False | Some v \<Rightarrow> iterations v \<noteq> SCRAM_POLICY_ITERATIONS)
      in if off_policy (sha1 c) \<or> off_policy (sha256 c) \<or> off_policy (sha512 c)
         then Inl UnsupportedIterations else Inr ())"

text \<open>
  \<open>put_record\<close> is the tail of both writes: encode the credentials and insert them. \<open>None\<close> is a panic,
  the encoder writing past its buffer.
\<close>

definition put_record :: "string \<Rightarrow> ScramCredentials \<Rightarrow> RedbWrite
    \<Rightarrow> (AccountError, unit \<times> RedbWrite) result option" where
  "put_record key c tx =
     map_option (\<lambda>record. Inr ((), tx\<lparr>work := (work tx)\<lparr>ACCOUNTS := fmupd key (as_slice record) (ACCOUNTS (work tx))\<rparr>\<rparr>))
       (encode_credentials c)"

definition create_account :: "NewAccount \<Rightarrow> RedbWrite \<Rightarrow> (AccountError, unit \<times> RedbWrite) result option" where
  "create_account account tx =
     (let key = key_text (new_key account) in
      if fmlookup (ACCOUNTS (work tx)) key \<noteq> None then Some (Inl AlreadyExists)
      else (case validate_iterations (new_credentials account) of
          Inl e \<Rightarrow> Some (Inl e)
        | Inr _ \<Rightarrow> put_record key (new_credentials account) tx))"

definition delete_account :: "AccountKey \<Rightarrow> (AccountError, unit) txn" where
  "delete_account key tx =
     ok_then (ok_or NotFound (fmlookup (ACCOUNTS (work tx)) (key_text key))) (\<lambda>record.
     ok_then (map_err AccountStorage (decode_credentials record)) (\<lambda>_.
       Inr ((), tx\<lparr>work := (work tx)\<lparr>ACCOUNTS := fmdrop (key_text key) (ACCOUNTS (work tx))\<rparr>\<rparr>)))"

definition replace_credentials :: "AccountKey \<Rightarrow> ScramCredentials \<Rightarrow> RedbWrite
    \<Rightarrow> (AccountError, unit \<times> RedbWrite) result option" where
  "replace_credentials key c tx =
     (case fmlookup (ACCOUNTS (work tx)) (key_text key) of
        None \<Rightarrow> Some (Inl NotFound)
      | Some existing \<Rightarrow>
          (case ok_then (map_err AccountStorage (decode_credentials existing)) (\<lambda>_. validate_iterations c) of
             Inl e \<Rightarrow> Some (Inl e)
           | Inr _ \<Rightarrow> put_record (key_text key) c tx))"

subsection \<open>Decoy secret\<close>

text \<open>
  The part of the database \<open>initialize\<close> looks at: whether the two tables exist, and the decoy table.
  \<open>random\<close> is what \<open>getrandom\<close> fills in, \<open>None\<close> when it fails.
\<close>

record DecoyTables =
  accounts_table_exists :: bool
  decoy_table_exists :: bool
  decoy_rows :: "(string, bytes) fmap"

definition initialize :: "bytes option \<Rightarrow> DecoyTables \<Rightarrow> (StorageErrorKind, bytes \<times> DecoyTables) result" where
  "initialize random db =
     (if decoy_table_exists db \<noteq> accounts_table_exists db then Inl CorruptData
      else
        (let fresh = \<not> accounts_table_exists db;
             db = db\<lparr>accounts_table_exists := True, decoy_table_exists := True\<rparr>
         in case fmlookup (decoy_rows db) ''secret'' of
              Some stored \<Rightarrow>
                if length stored \<noteq> 32 \<or> fcard (fmdom (decoy_rows db)) \<noteq> 1 then Inl CorruptData
                else Inr (stored, db)
            | None \<Rightarrow>
                if \<not> fresh then Inl CorruptData
                else ok_then (ok_or Other random) (\<lambda>secret.
                  Inr (secret, db\<lparr>decoy_rows := fmupd ''secret'' secret (decoy_rows db)\<rparr>))))"

section \<open>Keys\<close>

lemma find_char_append: "c \<notin> set xs \<Longrightarrow> find_char c (xs @ c # ys) = Some (length xs)"
  by (induction xs) auto

lemma find_char_None: "find_char c xs = None \<longleftrightarrow> c \<notin> set xs"
  by (induction xs) auto

section \<open>Record format\<close>

definition verifier_ok :: "nat \<Rightarrow> ScramVerifierData \<Rightarrow> bool" where
  "verifier_ok n v \<longleftrightarrow> length (salt v) = 16 \<and> 0 < iterations v \<and> iterations v < 2 ^ 32 \<and>
     length (stored_key v) = n \<and> length (server_key v) = n"

text \<open>What the types of \<open>ScramCredentials\<close> and its constructors guarantee.\<close>

definition credentials_ok :: "ScramCredentials \<Rightarrow> bool" where
  "credentials_ok c \<longleftrightarrow> pred_option (verifier_ok 20) (sha1 c) \<and> pred_option (verifier_ok 32) (sha256 c) \<and>
     pred_option (verifier_ok 64) (sha512 c) \<and> (sha1 c \<noteq> None \<or> sha256 c \<noteq> None \<or> sha512 c \<noteq> None)"

definition verifier_bytes :: "ScramVerifierData \<Rightarrow> bytes" where
  "verifier_bytes v = salt v @ to_le_bytes 4 (iterations v) @ stored_key v @ server_key v"

definition family_bytes :: "ScramVerifierData option \<Rightarrow> bytes" where
  "family_bytes v = (case v of None \<Rightarrow> [] | Some v \<Rightarrow> verifier_bytes v)"

definition family_flag :: "byte \<Rightarrow> ScramVerifierData option \<Rightarrow> byte" where
  "family_flag flag v = (case v of None \<Rightarrow> 0 | Some _ \<Rightarrow> flag)"

text \<open>A buffer whose used part is the version, a flag byte and a body.\<close>

definition holds :: "byte \<Rightarrow> bytes \<Rightarrow> EncodedCredentials \<Rightarrow> bool" where
  "holds flags body r \<longleftrightarrow> length (buffer r) = MAX_RECORD_BYTES \<and> used r \<le> MAX_RECORD_BYTES \<and>
     as_slice r = RECORD_VERSION # flags # body"

lemma holds_used: "holds flags body r \<Longrightarrow> used r = length body + 2"
  by (auto simp: holds_def as_slice_def dest: arg_cong [of _ _ length])

lemma append_slice_holds:
  assumes "holds flags body r" and "length body + 2 + length bs \<le> MAX_RECORD_BYTES"
  obtains r' where "append_slice bs r = Some r'" "holds flags (body @ bs) r'"
proof -
  have u: "used r = length body + 2" by (rule holds_used [OF assms(1)])
  let ?r = "\<lparr>buffer = take (used r) (buffer r) @ bs @ drop (used r + length bs) (buffer r), used = used r + length bs\<rparr>"
  have "append_slice bs r = Some ?r" using assms u by (simp add: append_slice_def holds_def)
  moreover have "holds flags (body @ bs) ?r"
    using assms u by (auto simp: holds_def as_slice_def)
  ultimately show thesis by (rule that)
qed

lemma append_family_holds:
  assumes h: "holds flags body r" and v: "pred_option (verifier_ok n) v"
    and room: "length body + 2 + (20 + 2 * n) \<le> MAX_RECORD_BYTES"
  obtains r' where "append_family flag v r = Some r'" "holds (or flags (family_flag flag v)) (body @ family_bytes v) r'"
proof (cases v)
  case None
  then show thesis using that [of r] h by (simp add: append_family_def family_flag_def family_bytes_def)
next
  case (Some w)
  have u: "used r = length body + 2" by (rule holds_used [OF h])
  have f: "buffer r ! 1 = flags"
    using h u by (auto simp: holds_def as_slice_def dest: arg_cong [of _ _ "\<lambda>xs. xs ! 1"])
  let ?r = "r\<lparr>buffer := (buffer r)[1 := or (buffer r ! 1) flag]\<rparr>"
  have "as_slice ?r = (as_slice r)[1 := or flags flag]" using f by (simp add: as_slice_def take_update_swap)
  then have h1: "holds (or flags flag) body ?r" using h by (simp add: holds_def)
  have w: "verifier_ok n w" using v Some by simp
  note len = w [unfolded verifier_ok_def]
  obtain r1 where 1: "append_slice (salt w) ?r = Some r1" "holds (or flags flag) (body @ salt w) r1"
    by (rule append_slice_holds [OF h1]) (use len room in auto)
  obtain r2 where 2: "append_slice (to_le_bytes 4 (iterations w)) r1 = Some r2"
    "holds (or flags flag) ((body @ salt w) @ to_le_bytes 4 (iterations w)) r2"
    by (rule append_slice_holds [OF 1(2), of "to_le_bytes 4 (iterations w)"]) (use len room in auto)
  obtain r3 where 3: "append_slice (stored_key w) r2 = Some r3"
    "holds (or flags flag) (((body @ salt w) @ to_le_bytes 4 (iterations w)) @ stored_key w) r3"
    by (rule append_slice_holds [OF 2(2), of "stored_key w"]) (use len room in auto)
  obtain r4 where 4: "append_slice (server_key w) r3 = Some r4"
    "holds (or flags flag) ((((body @ salt w) @ to_le_bytes 4 (iterations w)) @ stored_key w) @ server_key w) r4"
    by (rule append_slice_holds [OF 3(2), of "server_key w"]) (use len room in auto)
  show thesis
    by (rule that [of r4])
      (use 1 2 3 4 Some in \<open>simp_all add: append_family_def append_verifier_def family_flag_def family_bytes_def verifier_bytes_def\<close>)
qed

definition header_flags :: "ScramCredentials \<Rightarrow> byte" where
  "header_flags c = or (or (family_flag SHA1 (sha1 c)) (family_flag SHA256 (sha256 c))) (family_flag SHA512 (sha512 c))"

lemma encode_credentials_holds:
  assumes "credentials_ok c"
  obtains r where "encode_credentials c = Some r"
    "holds (header_flags c) (family_bytes (sha1 c) @ family_bytes (sha256 c) @ family_bytes (sha512 c)) r"
proof -
  let ?r = "\<lparr>buffer = (replicate MAX_RECORD_BYTES 0)[0 := RECORD_VERSION], used = 2\<rparr>"
  have len: "length (family_bytes v) \<le> 20 + 2 * n" if "pred_option (verifier_ok n) v" for v n
    using that by (cases v) (auto simp: family_bytes_def verifier_bytes_def verifier_ok_def)
  note ok = assms [unfolded credentials_ok_def]
  have l1: "length (family_bytes (sha1 c)) \<le> 60" and l2: "length (family_bytes (sha256 c)) \<le> 84"
    using len [of 20 "sha1 c"] len [of 32 "sha256 c"] ok by simp_all
  have "replicate MAX_RECORD_BYTES (0::byte) = 0 # 0 # replicate 292 0"
    by (simp add: MAX_RECORD_BYTES_def flip: replicate_Suc)
  then have h0: "holds 0 [] ?r" by (simp add: holds_def as_slice_def MAX_RECORD_BYTES_def numeral_2_eq_2)
  obtain r1 where 1: "append_family SHA1 (sha1 c) ?r = Some r1"
    "holds (or 0 (family_flag SHA1 (sha1 c))) ([] @ family_bytes (sha1 c)) r1"
    by (rule append_family_holds [OF h0, of 20 "sha1 c" SHA1]) (use ok in \<open>auto simp: MAX_RECORD_BYTES_def\<close>)
  obtain r2 where 2: "append_family SHA256 (sha256 c) r1 = Some r2"
    "holds (or (or 0 (family_flag SHA1 (sha1 c))) (family_flag SHA256 (sha256 c)))
      (([] @ family_bytes (sha1 c)) @ family_bytes (sha256 c)) r2"
    by (rule append_family_holds [OF 1(2), of 32 "sha256 c" SHA256]) (use ok l1 in \<open>auto simp: MAX_RECORD_BYTES_def\<close>)
  obtain r3 where 3: "append_family SHA512 (sha512 c) r2 = Some r3"
    "holds (or (or (or 0 (family_flag SHA1 (sha1 c))) (family_flag SHA256 (sha256 c))) (family_flag SHA512 (sha512 c)))
      ((([] @ family_bytes (sha1 c)) @ family_bytes (sha256 c)) @ family_bytes (sha512 c)) r3"
    by (rule append_family_holds [OF 2(2), of 64 "sha512 c" SHA512]) (use ok l1 l2 in \<open>auto simp: MAX_RECORD_BYTES_def\<close>)
  show thesis
    by (rule that [of r3]) (use 1 2 3 in \<open>simp_all add: encode_credentials_def header_flags_def\<close>)
qed

lemma decode_verifier_bytes:
  "verifier_ok n v \<Longrightarrow> decode_verifier n (verifier_bytes v @ rest) = Inr (v, rest)"
  by (simp add: decode_verifier_def verifier_bytes_def verifier_ok_def take_chunk_def from_to_le_bytes)

lemma decode_family_bytes:
  assumes "pred_option (verifier_ok n) v" and "and hashes flag \<noteq> 0 \<longleftrightarrow> v \<noteq> None"
  shows "decode_family hashes flag n (family_bytes v @ rest) = Inr (v, rest)"
  using assms by (cases v) (auto simp: decode_family_def family_bytes_def decode_verifier_bytes)

lemma header_flags_bits:
  "and (header_flags c) SHA1 \<noteq> 0 \<longleftrightarrow> sha1 c \<noteq> None"
  "and (header_flags c) SHA256 \<noteq> 0 \<longleftrightarrow> sha256 c \<noteq> None"
  "and (header_flags c) SHA512 \<noteq> 0 \<longleftrightarrow> sha512 c \<noteq> None"
  "header_flags c = 0 \<longleftrightarrow> sha1 c = None \<and> sha256 c = None \<and> sha512 c = None"
  "and (header_flags c) (not (or (or SHA1 SHA256) SHA512)) = 0"
  by (cases "sha1 c"; cases "sha256 c"; cases "sha512 c";
      simp add: header_flags_def family_flag_def SHA1_def SHA256_def SHA512_def)+

lemma decode_encoded:
  assumes "credentials_ok c" and "holds (header_flags c)
      (family_bytes (sha1 c) @ family_bytes (sha256 c) @ family_bytes (sha512 c)) r"
  shows "decode_credentials (as_slice r) = Inr c"
proof -
  note ok = assms(1) [unfolded credentials_ok_def]
  have s: "as_slice r = [RECORD_VERSION, header_flags c] @
      (family_bytes (sha1 c) @ family_bytes (sha256 c) @ family_bytes (sha512 c))"
    using assms(2) by (simp add: holds_def)
  have f1: "decode_family (header_flags c) SHA1 20 (family_bytes (sha1 c) @ rest) = Inr (sha1 c, rest)" for rest
    by (rule decode_family_bytes) (use ok header_flags_bits in auto)
  have f2: "decode_family (header_flags c) SHA256 32 (family_bytes (sha256 c) @ rest) = Inr (sha256 c, rest)" for rest
    by (rule decode_family_bytes) (use ok header_flags_bits in auto)
  have f3: "decode_family (header_flags c) SHA512 64 (family_bytes (sha512 c)) = Inr (sha512 c, [])"
    using decode_family_bytes [of 64 "sha512 c" "header_flags c" SHA512 "[]"] ok header_flags_bits by simp
  have t: "take_chunk 2 (as_slice r) = Inr ([RECORD_VERSION, header_flags c],
      family_bytes (sha1 c) @ family_bytes (sha256 c) @ family_bytes (sha512 c))"
    by (simp add: s take_chunk_def split_first_chunk_def numeral_2_eq_2)
  have "header_flags c \<noteq> 0" using ok by (simp add: header_flags_bits)
  with header_flags_bits(5) [of c] show ?thesis
    unfolding decode_credentials_def t by (simp add: f1 f2 f3)
qed

section \<open>Listing\<close>

definition accounts_valid :: "UnicodeData \<Rightarrow> Tables \<Rightarrow> bool" where
  "accounts_valid u t \<longleftrightarrow> (\<forall>k r. fmlookup (ACCOUNTS t) k = Some r \<longrightarrow>
     (\<exists>c. decode_credentials r = Inr c) \<and> (\<exists>key. decode_account_key u k = Inr key))"

lemma decode_account_key_text: "decode_account_key u k = Inr key \<Longrightarrow> key_text key = k"
  by (auto simp: decode_account_key_def with_canonical_jid_def account_key_of_jid_def
      split: if_splits sum.splits)

lemma decode_rows_keys:
  "(\<And>k r. (k, r) \<in> set rows \<Longrightarrow> (\<exists>c. decode_credentials r = Inr c) \<and> (\<exists>key. decode_account_key u k = Inr key)) \<Longrightarrow>
   \<exists>as. decode_rows u rows = Inr as \<and> map (key_text \<circ> account_key) as = map fst rows"
proof (induction rows)
  case (Cons row rows)
  obtain k r where row: "row = (k, r)" by force
  obtain as where as: "decode_rows u rows = Inr as" "map (key_text \<circ> account_key) as = map fst rows"
  proof -
    have "\<exists>as. decode_rows u rows = Inr as \<and> map (key_text \<circ> account_key) as = map fst rows"
      by (rule Cons.IH) (rule Cons.prems, simp)
    then show thesis using that by blast
  qed
  obtain c key where "decode_credentials r = Inr c" "decode_account_key u k = Inr key"
    using Cons.prems row by fastforce
  with as decode_account_key_text [of u k key] show ?case by (simp add: row comp_def)
qed simp

definition keys_after :: "Tables \<Rightarrow> AccountKey option \<Rightarrow> string list" where
  "keys_after t after = filter (\<lambda>k. case after of None \<Rightarrow> True | Some a \<Rightarrow> key_text a < k) (bt_keys (ACCOUNTS t))"

lemma bt_range_keys: "map fst (bt_range P t) = filter P (bt_keys t)"
proof -
  have "map fst (filter (\<lambda>(k, _). P k) xs) = filter P (map fst xs)" for xs :: "('a \<times> 'b) list"
    by (induction xs) auto
  then show ?thesis by (simp add: bt_range_def)
qed

lemma list_accounts_keys:
  assumes "accounts_valid u t"
  obtains as where "list_accounts u t after n = Inr as" "map (key_text \<circ> account_key) as = take n (keys_after t after)"
proof -
  let ?P = "\<lambda>k. case after of None \<Rightarrow> True | Some a \<Rightarrow> key_text a < k"
  let ?rows = "take n (bt_range ?P (ACCOUNTS t))"
  have "(\<exists>c. decode_credentials r = Inr c) \<and> (\<exists>key. decode_account_key u k = Inr key)" if "(k, r) \<in> set ?rows" for k r
    using assms in_set_takeD [OF that] by (auto simp: table.set_scan accounts_valid_def)
  from decode_rows_keys [OF this] obtain as where "decode_rows u ?rows = Inr as"
    "map (key_text \<circ> account_key) as = map fst ?rows" by blast
  then show thesis using that by (simp add: list_accounts_def keys_after_def bt_range_keys flip: take_map)
qed

text \<open>Reading the whole table in pages of at most \<open>n\<close> accounts, each from the last key of the one before.\<close>

fun account_pages :: "UnicodeData \<Rightarrow> Tables \<Rightarrow> nat \<Rightarrow> AccountKey option \<Rightarrow> nat \<Rightarrow> (AccountError, Account list) result" where
  "account_pages u t n after 0 = Inr []"
| "account_pages u t n after (Suc fuel) =
     ok_then (list_accounts u t after n) (\<lambda>page.
       if page = [] then Inr []
       else ok_then (account_pages u t n (Some (account_key (last page))) fuel) (\<lambda>rest. Inr (page @ rest)))"

lemma filter_greater_last:
  assumes "sorted xs" and "distinct xs" and "0 < n" and "n \<le> length xs"
  shows "filter (\<lambda>k. last (take n xs) < k) xs = drop n (xs :: 'k::linorder list)"
proof -
  have "take n xs \<noteq> []" using assms by auto
  then have l: "last (take n xs) = xs ! (n - 1)" using assms by (simp add: last_conv_nth)
  have lo: "\<not> xs ! (n - 1) < x" if "x \<in> set (take n xs)" for x
    using that assms by (auto simp: in_set_conv_nth sorted_iff_nth_mono not_less)
  have hi: "xs ! (n - 1) < x" if x: "x \<in> set (drop n xs)" for x
  proof -
    obtain i where "i < length xs - n" and i2: "x = xs ! (n + i)" using x by (auto simp: in_set_conv_nth)
    then have i: "n + i < length xs" "x = xs ! (n + i)" by auto
    then have "xs ! (n - 1) \<le> x" using assms by (auto simp: sorted_iff_nth_mono)
    moreover have "xs ! (n - 1) \<noteq> x" using i assms by (simp add: nth_eq_iff_index_eq)
    ultimately show ?thesis by simp
  qed
  have "filter (\<lambda>k. last (take n xs) < k) (take n xs @ drop n xs) = drop n xs"
    unfolding filter_append l using lo hi by (simp add: filter_empty_conv filter_id_conv)
  then show ?thesis by simp
qed

lemma keys_after_last:
  assumes "0 < n" and "map (key_text \<circ> account_key) page = take n (keys_after t after)" and "page \<noteq> []"
  shows "keys_after t (Some (account_key (last page))) = drop n (keys_after t after)"
proof -
  let ?xs = "keys_after t after"
  have srt: "sorted ?xs" "distinct ?xs" by (simp_all add: keys_after_def sorted_wrt_filter)
  define m where "m = min n (length ?xs)"
  have tk: "take n ?xs = take m ?xs" "drop n ?xs = drop m ?xs" by (auto simp: m_def min_def)
  have m: "0 < m" "m \<le> length ?xs" using assms by (auto simp: m_def)
  have last: "key_text (account_key (last page)) = last (take m ?xs)"
    using assms(2,3) tk(1) by (metis comp_apply last_map)
  have "take m ?xs \<noteq> []" using m by auto
  then have ge: "last (take m ?xs) \<in> set ?xs" by (rule in_set_takeD [OF last_in_set])
  have "keys_after t (Some (account_key (last page))) = filter (\<lambda>k. last (take m ?xs) < k) (bt_keys (ACCOUNTS t))"
    by (simp add: keys_after_def last)
  also have "\<dots> = filter (\<lambda>k. last (take m ?xs) < k) ?xs"
    using ge by (auto simp: keys_after_def filter_filter intro!: filter_cong split: option.splits)
  also have "\<dots> = drop m ?xs" by (rule filter_greater_last [OF srt m])
  finally show ?thesis using tk(2) by simp
qed

lemma account_pages_keys:
  "accounts_valid u t \<Longrightarrow> 0 < n \<Longrightarrow> length (keys_after t after) < fuel \<Longrightarrow>
   \<exists>as. account_pages u t n after fuel = Inr as \<and> map (key_text \<circ> account_key) as = keys_after t after"
proof (induction fuel arbitrary: after)
  case (Suc fuel)
  obtain page where page: "list_accounts u t after n = Inr page"
    "map (key_text \<circ> account_key) page = take n (keys_after t after)"
    by (rule list_accounts_keys [OF Suc.prems(1)])
  show ?case
  proof (cases "page = []")
    case True
    then have "keys_after t after = []" using page(2) Suc.prems(2) by simp
    then show ?thesis using True page by simp
  next
    case False
    let ?after = "Some (account_key (last page))"
    note rest = keys_after_last [OF Suc.prems(2) page(2) False]
    have ne: "keys_after t after \<noteq> []" using page(2) False by auto
    then have "length (drop n (keys_after t after)) < length (keys_after t after)"
      using Suc.prems(2) by (simp add: diff_less)
    then have "length (keys_after t ?after) < fuel" using rest Suc.prems(3) by simp
    then obtain as where as: "account_pages u t n ?after fuel = Inr as"
      "map (key_text \<circ> account_key) as = keys_after t ?after"
      using Suc.IH Suc.prems(1,2) by blast
    have "map (key_text \<circ> account_key) (page @ as) = keys_after t after"
      by (simp only: map_append page(2) as(2) rest append_take_drop_id)
    moreover have "account_pages u t n after (Suc fuel) = Inr (page @ as)" using page(1) False as(1) by simp
    ultimately show ?thesis by blast
  qed
qed simp

text \<open>A database with two accounts, for the witnesses.\<close>

definition sample_verifier :: ScramVerifierData where
  "sample_verifier = \<lparr>salt = replicate 16 7, iterations = 100000, stored_key = replicate 32 1, server_key = replicate 32 2\<rparr>"

definition sample_credentials :: ScramCredentials where
  "sample_credentials = \<lparr>sha1 = None, sha256 = Some sample_verifier, sha512 = None\<rparr>"

lemma sample_credentials_ok: "credentials_ok sample_credentials"
  by (simp add: credentials_ok_def sample_credentials_def sample_verifier_def verifier_ok_def)

definition sample_record :: bytes where
  "sample_record = as_slice (the (encode_credentials sample_credentials))"

lemma sample_record_decodes: "decode_credentials sample_record = Inr sample_credentials"
  by (rule encode_credentials_holds [OF sample_credentials_ok])
    (simp add: sample_record_def decode_encoded [OF sample_credentials_ok])

definition two_accounts :: Tables where
  "two_accounts = empty_tables\<lparr>ACCOUNTS := fmupd ''a@x'' sample_record (fmupd ''b@x'' sample_record fmempty)\<rparr>"

lemma bare_ascii_key:
  assumes "c \<in> {CHR ''a'', CHR ''b''}"
  shows "decode_account_key ascii_tables [c, CHR ''@'', CHR ''x''] = Inr \<lparr>key_text = [c, CHR ''@'', CHR ''x''], username_len = 1\<rparr>"
proof -
  obtain j where j: "from_trusted_parts_in (Some [c]) ''x'' None = Inr j"
    using assms by (auto simp: from_trusted_parts_in_def compose_parts_ok part_ok_def separators_free_def
          MAX_PART_LEN_def jid_string_def is_str_def as_bytes_def byte_of_char_def)
  have "parse_in ascii_tables [c, CHR ''@'', CHR ''x''] = from_trusted_parts_in (Some [c]) ''x'' None"
    using assms
    by (elim insertE emptyE; hypsubst;
        simp add: parse_in_def from_parts_in_def ascii_domain transpose_map_def prepare_localpart_def
          check_input_length_prepared part_ok_def MAX_PART_LEN_def contains_any_def check_length_def;
        simp add: ascii_tables_def MAX_PART_LEN_def check_length_def)
  then have p: "parse_in ascii_tables [c, CHR ''@'', CHR ''x''] = Inr j" using j by simp
  show ?thesis
    using resolved_parts [OF j] from_trusted_parts_ok(1) [OF j] p
    by (simp add: decode_account_key_def with_canonical_jid_def account_key_of_jid_def is_full_def jid_string_def MAX_PART_LEN_def)
qed

lemma two_accounts_valid: "accounts_valid ascii_tables two_accounts"
  using bare_ascii_key [of "CHR ''a''"] bare_ascii_key [of "CHR ''b''"]
  by (auto simp: accounts_valid_def two_accounts_def sample_record_decodes split: if_splits)

lemma two_accounts_keys:
  "bt_keys (ACCOUNTS two_accounts) = [''a@x'', ''b@x'']" "fcard (fmdom (ACCOUNTS two_accounts)) = 2"
proof -
  have d: "fmdom (ACCOUNTS two_accounts) = {|''a@x'', ''b@x''|}" by (simp add: two_accounts_def empty_tables_def)
  show "bt_keys (ACCOUNTS two_accounts) = [''a@x'', ''b@x'']" unfolding bt_keys_def d by code_simp
  show "fcard (fmdom (ACCOUNTS two_accounts)) = 2" unfolding d by code_simp
qed

section \<open>Properties\<close>

text \<open>
  C24. Credentials survive storage. Every credential set with at least one family encodes without
  writing past the record buffer, and decoding the record gives the same credentials back.
\<close>
theorem credentials_roundtrip:
  assumes "credentials_ok c"
  shows "\<exists>r. encode_credentials c = Some r \<and> length (as_slice r) \<le> MAX_RECORD_BYTES \<and>
    decode_credentials (as_slice r) = Inr c"
proof -
  obtain r where e: "encode_credentials c = Some r" and h: "holds (header_flags c)
      (family_bytes (sha1 c) @ family_bytes (sha256 c) @ family_bytes (sha512 c)) r"
    by (rule encode_credentials_holds [OF assms])
  have "length (as_slice r) \<le> used r" by (simp add: as_slice_def)
  moreover have "used r \<le> MAX_RECORD_BYTES" using h by (simp add: holds_def)
  ultimately have "length (as_slice r) \<le> MAX_RECORD_BYTES" by (rule order_trans)
  with e decode_encoded [OF assms h] show ?thesis by blast
qed

theorem credentials_roundtrip_witness:
  "\<exists>r. encode_credentials sample_credentials = Some r \<and> decode_credentials (as_slice r) = Inr sample_credentials"
  using credentials_roundtrip [OF sample_credentials_ok] by blast



text \<open>
  C26. Listing is complete. When the stored rows are valid, reading the accounts page by page, with any
  page size and each page continuing after the last key of the one before, yields every account exactly once
  and in key order.
\<close>
theorem listing_complete:
  assumes "accounts_valid u t" and "0 < n"
  shows "\<exists>as. account_pages u t n None (fcard (fmdom (ACCOUNTS t)) + 1) = Inr as \<and>
    map (key_text \<circ> account_key) as = bt_keys (ACCOUNTS t)"
proof -
  have len: "length (bt_keys (ACCOUNTS t)) = fcard (fmdom (ACCOUNTS t))"
    using distinct_card [OF bt_keys_sorted(2), of "ACCOUNTS t"] by (simp add: fcard.rep_eq)
  have "keys_after t None = bt_keys (ACCOUNTS t)" by (simp add: keys_after_def)
  with account_pages_keys [OF assms, of None "fcard (fmdom (ACCOUNTS t)) + 1"] len show ?thesis by simp
qed

theorem listing_complete_witness:
  "\<exists>as. account_pages ascii_tables two_accounts 1 None 3 = Inr as \<and>
     map (key_text \<circ> account_key) as = [''a@x'', ''b@x'']"
  using listing_complete [OF two_accounts_valid, of 1] two_accounts_keys by simp

text \<open>
  C27. The decoy secret is stable. Once initialisation succeeded, initialising the same database again
  returns the same secret and changes nothing, whatever the random source would return.
\<close>
theorem decoy_stable:
  assumes "initialize random db = Inr (secret, db')" and "pred_option (\<lambda>r. length r = 32) random"
    and "decoy_rows db = fmempty \<or> accounts_table_exists db"
  shows "initialize random' db' = Inr (secret, db')"
proof (cases "fmlookup (decoy_rows db) ''secret''")
  case None
  then have "\<not> accounts_table_exists db" and db': "db' = db\<lparr>accounts_table_exists := True, decoy_table_exists := True,
      decoy_rows := fmupd ''secret'' secret (decoy_rows db)\<rparr>" and r: "random = Some secret"
    using assms(1) by (auto simp: initialize_def Let_def split: if_splits)
  then have "decoy_rows db = fmempty" using assms(3) by simp
  then show ?thesis using r assms(2) by (simp add: initialize_def db' fcard_finsert_if fcard_fempty)
next
  case (Some stored)
  then have "db' = db\<lparr>accounts_table_exists := True, decoy_table_exists := True\<rparr>" "secret = stored"
    "length stored = 32" "fcard (fmdom (decoy_rows db)) = 1"
    using assms(1) by (auto simp: initialize_def Let_def split: if_splits)
  then show ?thesis using Some by (simp add: initialize_def)
qed

theorem decoy_stable_witness:
  "\<exists>db'. initialize (Some (replicate 32 5)) \<lparr>accounts_table_exists = False, decoy_table_exists = False, decoy_rows = fmempty\<rparr>
      = Inr (replicate 32 5, db') \<and> initialize None db' = Inr (replicate 32 5, db')"
proof -
  let ?db = "\<lparr>accounts_table_exists = False, decoy_table_exists = False, decoy_rows = fmempty\<rparr>"
  obtain db' where i: "initialize (Some (replicate 32 5)) ?db = Inr (replicate 32 5, db')"
    by (simp add: initialize_def)
  with decoy_stable [OF i] show ?thesis by auto
qed

end
