(* ===== verification/Roster_Store.thy ===== *)
theory Roster_Store
  imports Account_Store
begin

text \<open>
  The roster store (\<open>lonewolf-storage/src/roster\<close>): the byte formats of roster keys, items and
  subscriptions, and every read and write on the items, versions and pending-subscription tables.

  Reads work on a snapshot, which for a write transaction is its working tables.
\<close>

section \<open>Definitions\<close>

subsection \<open>Types\<close>

definition MAX_GROUPS_PER_ITEM :: nat where
  "MAX_GROUPS_PER_ITEM = 8"

record RosterQuota =
  max_items :: nat
  max_bytes :: nat

definition default_quota :: RosterQuota where
  "default_quota = \<lparr>max_items = 1000, max_bytes = 2097152\<rparr>"

datatype SubscriptionState = SubNone | To | From | Both

record RosterSubscription =
  state :: SubscriptionState
  pending_out :: bool
  approved :: bool

definition default_subscription :: RosterSubscription where
  "default_subscription = \<lparr>state = SubNone, pending_out = False, approved = False\<rparr>"

type_synonym RosterVersion = nat

record RosterItem =
  item_jid :: RosterJid
  item_name :: "string option"
  item_groups :: "string list"
  subscription :: RosterSubscription

record RosterSnapshot =
  snapshot_version :: RosterVersion
  snapshot_items :: "RosterItem list"

record 'a RosterMutation =
  version :: RosterVersion
  mutated :: 'a

record PendingSubscription =
  sender :: RosterJid
  stanza :: bytes

datatype RosterError = ValueTooLarge | PendingLimitExceeded | QuotaExceeded | NoAccount | RosterStorage StorageErrorKind

subsection \<open>Keys\<close>

definition item_key_text :: "string \<Rightarrow> RosterJid \<Rightarrow> string" where
  "item_key_text owner jid = owner @ [CHR 0x00] @ jid"

definition item_key :: "AccountKey \<Rightarrow> RosterJid \<Rightarrow> string" where
  "item_key owner jid = item_key_text (key_text owner) jid"

definition owner_range :: "string \<Rightarrow> string \<times> string" where
  "owner_range owner = (owner @ [CHR 0x00], owner @ [CHR 0x01])"

definition in_owner_range :: "string \<Rightarrow> string \<Rightarrow> bool" where
  "in_owner_range owner key \<longleftrightarrow> fst (owner_range owner) \<le> key \<and> key < snd (owner_range owner)"

definition decode_jid :: "UnicodeData \<Rightarrow> string \<Rightarrow> (StorageErrorKind, RosterJid) result" where
  "decode_jid u s = with_canonical_jid u s MAX_JID_LEN (\<lambda>jid. Inr (ref_text jid))"

definition decode_key :: "UnicodeData \<Rightarrow> string \<Rightarrow> string \<Rightarrow> (StorageErrorKind, RosterJid) result" where
  "decode_key u owner key =
     ok_then (ok_or CorruptData (Option.bind (strip_prefix owner key) (strip_prefix [CHR 0x00]))) (decode_jid u)"

subsection \<open>Item format\<close>

definition take_byte :: "bytes \<Rightarrow> (StorageErrorKind, byte \<times> bytes) result" where
  "take_byte bs = (case bs of [] \<Rightarrow> Inl CorruptData | b # rest \<Rightarrow> Inr (b, rest))"

definition take_u32 :: "bytes \<Rightarrow> (StorageErrorKind, nat \<times> bytes) result" where
  "take_u32 bs = ok_then (take_chunk 4 bs) (\<lambda>(v, rest). Inr (from_le_bytes v, rest))"

definition take_string_with_len :: "bytes \<Rightarrow> nat \<Rightarrow> (StorageErrorKind, string \<times> bytes) result" where
  "take_string_with_len bs len =
     ok_then (ok_or CorruptData (split_first_chunk len bs)) (\<lambda>(v, rest).
     ok_then (ok_or CorruptData (from_utf8 v)) (\<lambda>s. Inr (s, rest)))"

definition take_string :: "bytes \<Rightarrow> (StorageErrorKind, string \<times> bytes) result" where
  "take_string bs = ok_then (take_u32 bs) (\<lambda>(len, rest). take_string_with_len rest len)"

definition U32_MAX :: nat where
  "U32_MAX = 4294967295"

definition take_optional_string :: "bytes \<Rightarrow> (StorageErrorKind, string option \<times> bytes) result" where
  "take_optional_string bs =
     ok_then (take_u32 bs) (\<lambda>(len, rest).
       if len = U32_MAX then Inr (None, rest)
       else ok_then (take_string_with_len rest len) (\<lambda>(s, rest). Inr (Some s, rest)))"

fun take_strings :: "nat \<Rightarrow> bytes \<Rightarrow> (StorageErrorKind, string list \<times> bytes) result" where
  "take_strings 0 bs = Inr ([], bs)"
| "take_strings (Suc n) bs =
     ok_then (take_string bs) (\<lambda>(s, rest).
     ok_then (take_strings n rest) (\<lambda>(ss, rest). Inr (s # ss, rest)))"

definition encode_state :: "SubscriptionState \<Rightarrow> byte" where
  "encode_state st = (case st of SubNone \<Rightarrow> 0 | To \<Rightarrow> 1 | From \<Rightarrow> 2 | Both \<Rightarrow> 3)"

definition encode_flags :: "RosterSubscription \<Rightarrow> byte" where
  "encode_flags s = or (of_bool (pending_out s)) (push_bit 1 (of_bool (approved s)))"

definition encode_subscription :: "RosterSubscription \<Rightarrow> bytes" where
  "encode_subscription s = [encode_state (state s), encode_flags s]"

definition decode_state :: "byte \<Rightarrow> (StorageErrorKind, SubscriptionState) result" where
  "decode_state b =
     (if b = 0 then Inr SubNone else if b = 1 then Inr To else if b = 2 then Inr From
      else if b = 3 then Inr Both else Inl CorruptData)"

definition decode_header :: "bytes \<Rightarrow> (StorageErrorKind, RosterSubscription \<times> bytes) result" where
  "decode_header bs =
     ok_then (take_byte bs) (\<lambda>(b, bs).
     ok_then (decode_state b) (\<lambda>st.
     ok_then (take_byte bs) (\<lambda>(flags, bs).
       if and flags (not 3) \<noteq> 0 then Inl CorruptData
       else Inr (\<lparr>state = st, pending_out = (and flags 1 \<noteq> 0), approved = (and flags 2 \<noteq> 0)\<rparr>, bs))))"

definition decode_subscription :: "bytes \<Rightarrow> (RosterError, RosterSubscription) result" where
  "decode_subscription bs = map_err RosterStorage (ok_then (decode_header bs) (\<lambda>(s, _). Inr s))"

definition check_item :: "bytes \<Rightarrow> RosterQuota \<Rightarrow> (RosterError, unit) result" where
  "check_item bs quota =
     (if max_bytes quota < length bs then Inl QuotaExceeded
      else
        ok_then (map_err RosterStorage (take_byte bs)) (\<lambda>(_, bs).
        ok_then (map_err RosterStorage (take_byte bs)) (\<lambda>(_, bs).
        ok_then (map_err RosterStorage (take_u32 bs)) (\<lambda>(len, bs).
        ok_then (if len \<noteq> U32_MAX then (if len \<le> length bs then Inr (drop len bs) else Inl (RosterStorage CorruptData))
                 else Inr bs) (\<lambda>bs.
        ok_then (map_err RosterStorage (take_u32 bs)) (\<lambda>(n, bs).
          if MAX_GROUPS_PER_ITEM < n then Inl QuotaExceeded else Inr ()))))))"

fun groups_size :: "nat \<Rightarrow> string list \<Rightarrow> nat option" where
  "groups_size len [] = Some len"
| "groups_size len (g # gs) =
     Option.bind (Option.bind (checked_add 64 len 4) (\<lambda>n. checked_add 64 n (length g))) (\<lambda>n. groups_size n gs)"

definition encoded_item_size :: "RosterItem \<Rightarrow> (RosterError, nat) result" where
  "encoded_item_size item =
     ok_then (ok_or ValueTooLarge (groups_size 0 (item_groups item))) (\<lambda>groups_len.
       ok_or ValueTooLarge (Option.bind
         (checked_add 64 10 (case item_name item of None \<Rightarrow> 0 | Some s \<Rightarrow> length s)) (\<lambda>n. checked_add 64 n groups_len)))"

definition append_bytes :: "bytes \<Rightarrow> bytes \<Rightarrow> (RosterError, bytes) result" where
  "append_bytes encoded value =
     (if U32_MAX < length value then Inl ValueTooLarge
      else Inr (encoded @ to_le_bytes 4 (length value) @ value))"

definition append_optional :: "bytes \<Rightarrow> bytes option \<Rightarrow> (RosterError, bytes) result" where
  "append_optional encoded value =
     (case value of
        Some v \<Rightarrow> if length v < U32_MAX then append_bytes encoded v else Inl ValueTooLarge
      | None \<Rightarrow> Inr (encoded @ to_le_bytes 4 U32_MAX))"

fun append_all :: "bytes \<Rightarrow> bytes list \<Rightarrow> (RosterError, bytes) result" where
  "append_all encoded [] = Inr encoded"
| "append_all encoded (g # gs) = ok_then (append_bytes encoded g) (\<lambda>encoded. append_all encoded gs)"

definition encode_item :: "RosterItem \<Rightarrow> (RosterError, bytes) result" where
  "encode_item item =
     ok_then (encoded_item_size item) (\<lambda>_.
     ok_then (append_optional
       [encode_state (state (subscription item)), encode_flags (subscription item)]
       (map_option as_bytes (item_name item))) (\<lambda>encoded.
       if U32_MAX < length (item_groups item) then Inl ValueTooLarge
       else append_all (encoded @ to_le_bytes 4 (length (item_groups item))) (map as_bytes (item_groups item))))"

definition decode_item :: "RosterJid \<Rightarrow> bytes \<Rightarrow> (StorageErrorKind, RosterItem) result" where
  "decode_item jid bs =
     ok_then (decode_header bs) (\<lambda>(s, bs).
     ok_then (take_optional_string bs) (\<lambda>(name, bs).
     ok_then (take_u32 bs) (\<lambda>(group_count, bs).
     ok_then (take_strings group_count bs) (\<lambda>(groups, bs).
       if bs \<noteq> [] then Inl CorruptData
       else Inr \<lparr>item_jid = jid, item_name = name, item_groups = groups, subscription = s\<rparr>))))"

subsection \<open>Reads\<close>

definition roster_version :: "Tables \<Rightarrow> AccountKey \<Rightarrow> RosterVersion" where
  "roster_version t owner = (case fmlookup (VERSIONS t) (key_text owner) of None \<Rightarrow> 0 | Some v \<Rightarrow> v)"

fun read_items :: "UnicodeData \<Rightarrow> string \<Rightarrow> RosterQuota \<Rightarrow> (string \<times> bytes) list \<Rightarrow> nat \<Rightarrow> nat
    \<Rightarrow> (RosterError, RosterItem list) result" where
  "read_items u owner quota [] count tally = Inr []"
| "read_items u owner quota ((key, value) # rows) count tally =
     ok_then (ok_or QuotaExceeded (Option.bind (checked_add 64 tally (length key)) (\<lambda>n. checked_add 64 n (length value)))) (\<lambda>tally.
       if max_items quota \<le> count \<or> max_bytes quota < tally then Inl QuotaExceeded
       else
         ok_then (map_err RosterStorage (decode_key u owner key)) (\<lambda>jid.
         ok_then (check_item value quota) (\<lambda>_.
         ok_then (map_err RosterStorage (decode_item jid value)) (\<lambda>item.
         ok_then (read_items u owner quota rows (count + 1) tally) (\<lambda>items. Inr (item # items))))))"

definition roster :: "UnicodeData \<Rightarrow> Tables \<Rightarrow> AccountKey \<Rightarrow> RosterQuota \<Rightarrow> (RosterError, RosterSnapshot) result" where
  "roster u t owner quota =
     ok_then (read_items u (key_text owner) quota (bt_range (in_owner_range (key_text owner)) (ITEMS t)) 0 0) (\<lambda>items.
       Inr \<lparr>snapshot_version = roster_version t owner, snapshot_items = items\<rparr>)"

definition roster_item :: "Tables \<Rightarrow> AccountKey \<Rightarrow> RosterJid \<Rightarrow> RosterQuota \<Rightarrow> (RosterError, RosterItem option) result" where
  "roster_item t owner jid quota =
     (let key = item_key owner jid in
      case fmlookup (ITEMS t) key of
        None \<Rightarrow> Inr None
      | Some record \<Rightarrow>
          if max_bytes quota < saturating_add 64 (length key) (length record) then Inl QuotaExceeded
          else ok_then (check_item record quota) (\<lambda>_.
            ok_then (map_err RosterStorage (decode_item jid record)) (\<lambda>item. Inr (Some item))))"

definition roster_subscription :: "Tables \<Rightarrow> AccountKey \<Rightarrow> RosterJid \<Rightarrow> (RosterError, RosterSubscription option) result" where
  "roster_subscription t owner jid =
     (case fmlookup (ITEMS t) (item_key owner jid) of
        None \<Rightarrow> Inr None
      | Some record \<Rightarrow> ok_then (decode_subscription record) (\<lambda>s. Inr (Some s)))"

definition after_cursor :: "string \<Rightarrow> RosterJid option \<Rightarrow> string \<Rightarrow> bool" where
  "after_cursor owner after key \<longleftrightarrow>
     (case after of None \<Rightarrow> fst (owner_range owner) \<le> key | Some jid \<Rightarrow> item_key_text owner jid < key) \<and>
     key < snd (owner_range owner)"

definition next_roster_subscription :: "UnicodeData \<Rightarrow> Tables \<Rightarrow> AccountKey \<Rightarrow> RosterJid option
    \<Rightarrow> (RosterError, (RosterJid \<times> RosterSubscription) option) result" where
  "next_roster_subscription u t owner after =
     (case bt_range (after_cursor (key_text owner) after) (ITEMS t) of
        [] \<Rightarrow> Inr None
      | (key, value) # _ \<Rightarrow>
          ok_then (map_err RosterStorage (decode_key u (key_text owner) key)) (\<lambda>jid.
          ok_then (decode_subscription value) (\<lambda>s. Inr (Some (jid, s)))))"

definition next_pending_sender :: "UnicodeData \<Rightarrow> Tables \<Rightarrow> AccountKey \<Rightarrow> RosterJid option
    \<Rightarrow> (RosterError, RosterJid option) result" where
  "next_pending_sender u t owner after =
     (case bt_range (after_cursor (key_text owner) after) (PENDING t) of
        [] \<Rightarrow> Inr None
      | (key, _) # _ \<Rightarrow>
          ok_then (map_err RosterStorage (decode_key u (key_text owner) key)) (\<lambda>jid. Inr (Some jid)))"

definition pending_request_exists :: "Tables \<Rightarrow> AccountKey \<Rightarrow> RosterJid \<Rightarrow> bool" where
  "pending_request_exists t owner from \<longleftrightarrow> fmlookup (PENDING t) (item_key owner from) \<noteq> None"

fun read_pending :: "UnicodeData \<Rightarrow> string \<Rightarrow> (string \<times> bytes) list \<Rightarrow> (RosterError, PendingSubscription list) result" where
  "read_pending u owner [] = Inr []"
| "read_pending u owner ((key, value) # rows) =
     ok_then (map_err RosterStorage (decode_key u owner key)) (\<lambda>jid.
     ok_then (read_pending u owner rows) (\<lambda>ps. Inr (\<lparr>sender = jid, stanza = value\<rparr> # ps)))"

definition pending_requests :: "UnicodeData \<Rightarrow> Tables \<Rightarrow> AccountKey \<Rightarrow> (RosterError, PendingSubscription list) result" where
  "pending_requests u t owner =
     read_pending u (key_text owner) (bt_range (in_owner_range (key_text owner)) (PENDING t))"

definition pending_request :: "Tables \<Rightarrow> AccountKey \<Rightarrow> RosterJid \<Rightarrow> PendingSubscription option" where
  "pending_request t owner from =
     map_option (\<lambda>value. \<lparr>sender = from, stanza = value\<rparr>) (fmlookup (PENDING t) (item_key owner from))"

subsection \<open>Writes\<close>

definition advance_version :: "string \<Rightarrow> (RosterError, RosterVersion) txn" where
  "advance_version owner tx =
     ok_then (ok_or ValueTooLarge (checked_add 64
       (case fmlookup (VERSIONS (work tx)) owner of None \<Rightarrow> 0 | Some v \<Rightarrow> v) 1)) (\<lambda>next.
       Inr (next, tx\<lparr>work := (work tx)\<lparr>VERSIONS := fmupd owner next (VERSIONS (work tx))\<rparr>\<rparr>))"

fun admit_rows :: "RosterQuota \<Rightarrow> nat \<Rightarrow> (string \<times> bytes) list \<Rightarrow> nat \<Rightarrow> nat \<Rightarrow> (RosterError, nat \<times> nat) result" where
  "admit_rows quota old [] count tally = Inr (count, tally)"
| "admit_rows quota old ((key, value) # rows) count tally =
     ok_then (ok_or QuotaExceeded (checked_add 64 count 1)) (\<lambda>count.
     ok_then (ok_or QuotaExceeded (Option.bind (checked_add 64 tally (length key)) (\<lambda>n. checked_add 64 n (length value)))) (\<lambda>tally.
       if max_items quota < count \<or> max_bytes quota < tally - old then Inl QuotaExceeded
       else admit_rows quota old rows count tally))"

definition admit_item :: "(string, bytes) fmap \<Rightarrow> string \<Rightarrow> string \<Rightarrow> nat \<Rightarrow> RosterQuota \<Rightarrow> (RosterError, unit) result" where
  "admit_item items owner key encoded_len quota =
     (let old_bytes = map_option (\<lambda>old. length key + length old) (fmlookup items key);
          old = (case old_bytes of None \<Rightarrow> 0 | Some n \<Rightarrow> n)
      in ok_then (ok_or QuotaExceeded (checked_add 64 (length key) encoded_len)) (\<lambda>new_bytes.
        if (case old_bytes of None \<Rightarrow> False | Some n \<Rightarrow> new_bytes \<le> n) then Inr ()
        else if max_bytes quota < new_bytes then Inl QuotaExceeded
        else
          ok_then (admit_rows quota old (bt_range (in_owner_range owner) items) 0 0) (\<lambda>(count, tally).
          ok_then (ok_or QuotaExceeded (checked_add 64 count (if old_bytes = None then 1 else 0))) (\<lambda>next_count.
          ok_then (ok_or QuotaExceeded (Option.bind (checked_sub tally old) (\<lambda>n. checked_add 64 n new_bytes))) (\<lambda>next_bytes.
            if max_items quota < next_count \<or> max_bytes quota < next_bytes then Inl QuotaExceeded else Inr ())))))"

definition put_roster_item :: "AccountKey \<Rightarrow> RosterItem \<Rightarrow> RosterQuota \<Rightarrow> (RosterError, RosterVersion) txn" where
  "put_roster_item owner item quota tx =
     (if MAX_GROUPS_PER_ITEM < length (item_groups item) then Inl QuotaExceeded
      else
        ok_then (encoded_item_size item) (\<lambda>encoded_len.
        (let key = item_key owner (item_jid item) in
         if \<not> account_exists tx (key_text owner) then Inl NoAccount
         else
           ok_then (admit_item (ITEMS (work tx)) (key_text owner) key encoded_len quota) (\<lambda>_.
           ok_then (encode_item item) (\<lambda>encoded.
             advance_version (key_text owner)
               (tx\<lparr>work := (work tx)\<lparr>ITEMS := fmupd key encoded (ITEMS (work tx))\<rparr>\<rparr>))))))"

definition copy_subscription :: "Tables \<Rightarrow> string \<Rightarrow> string \<Rightarrow> RosterSubscription option \<Rightarrow> RosterSubscription
    \<Rightarrow> (RosterError, RosterVersion option) txn" where
  "copy_subscription before owner key expected new tx =
     (if \<not> account_exists tx owner then Inl NoAccount
      else (case fmlookup (ITEMS (work tx)) key of
          None \<Rightarrow> Inr (None, tx)
        | Some current \<Rightarrow>
            ok_then (ok_or (RosterStorage CorruptData) (fmlookup (ITEMS before) key)) (\<lambda>source.
            ok_then (decode_subscription current) (\<lambda>old.
            ok_then (decode_subscription source) (\<lambda>_.
              if \<not> (case expected of None \<Rightarrow> current = source
                      | Some e \<Rightarrow> old = e \<and> drop 2 current = drop 2 source)
              then Inl (RosterStorage CorruptData)
              else if old = new then Inr (None, tx)
              else ok_then (advance_version owner
                     (tx\<lparr>work := (work tx)\<lparr>ITEMS := fmupd key (encode_subscription new @ drop 2 source) (ITEMS (work tx))\<rparr>\<rparr>))
                   (\<lambda>(v, tx). Inr (Some v, tx)))))))"

definition set_roster_subscription :: "Tables \<Rightarrow> AccountKey \<Rightarrow> RosterJid \<Rightarrow> RosterSubscription
    \<Rightarrow> (RosterError, RosterVersion option) txn" where
  "set_roster_subscription before owner jid new =
     copy_subscription before (key_text owner) (item_key owner jid) None new"

definition transition_roster_subscription :: "AccountKey \<Rightarrow> RosterJid \<Rightarrow> RosterSubscription \<Rightarrow> RosterSubscription
    \<Rightarrow> (RosterError, RosterVersion option) txn" where
  "transition_roster_subscription owner jid expected new =
     run_with_snapshot (\<lambda>tx before. copy_subscription before (key_text owner) (item_key owner jid) (Some expected) new tx)"

definition remove_roster_subscription :: "AccountKey \<Rightarrow> RosterJid
    \<Rightarrow> (RosterError, RosterSubscription RosterMutation option) txn" where
  "remove_roster_subscription owner jid tx =
     (case fmlookup (ITEMS (work tx)) (item_key owner jid) of
        None \<Rightarrow> Inr (None, tx)
      | Some record \<Rightarrow>
          ok_then (decode_subscription record) (\<lambda>s.
          ok_then (advance_version (key_text owner)
             (tx\<lparr>work := (work tx)\<lparr>ITEMS := fmdrop (item_key owner jid) (ITEMS (work tx))\<rparr>\<rparr>)) (\<lambda>(v, tx).
            Inr (Some \<lparr>version = v, mutated = s\<rparr>, tx))))"

definition remove_roster_item :: "AccountKey \<Rightarrow> RosterJid \<Rightarrow> (RosterError, RosterItem RosterMutation option) txn" where
  "remove_roster_item owner jid tx =
     (case fmlookup (ITEMS (work tx)) (item_key owner jid) of
        None \<Rightarrow> Inr (None, tx)
      | Some record \<Rightarrow>
          ok_then (map_err RosterStorage (decode_item jid record)) (\<lambda>item.
          ok_then (advance_version (key_text owner)
             (tx\<lparr>work := (work tx)\<lparr>ITEMS := fmdrop (item_key owner jid) (ITEMS (work tx))\<rparr>\<rparr>)) (\<lambda>(v, tx).
            Inr (Some \<lparr>version = v, mutated = item\<rparr>, tx))))"

text \<open>
  The scan that rejects a new sender at capacity: it takes at most \<open>limit\<close> rows and fails at the row
  with index \<open>limit - 1\<close>.
\<close>

fun at_capacity :: "nat \<Rightarrow> nat \<Rightarrow> 'a list \<Rightarrow> bool" where
  "at_capacity limit index [] = False"
| "at_capacity limit index (row # rows) = (index + 1 = limit \<or> at_capacity limit (index + 1) rows)"

definition put_pending_request :: "AccountKey \<Rightarrow> PendingSubscription \<Rightarrow> nat \<Rightarrow> (RosterError, unit) txn" where
  "put_pending_request owner request limit tx =
     (let key = item_key owner (sender request) in
      if \<not> account_exists tx (key_text owner) then Inl NoAccount
      else if fmlookup (PENDING (work tx)) key = None \<and>
        at_capacity limit 0 (take limit (bt_range (in_owner_range (key_text owner)) (PENDING (work tx))))
      then Inl PendingLimitExceeded
      else Inr ((), tx\<lparr>work := (work tx)\<lparr>PENDING := fmupd key (stanza request) (PENDING (work tx))\<rparr>\<rparr>))"

definition remove_pending_request :: "AccountKey \<Rightarrow> RosterJid \<Rightarrow> RedbWrite \<Rightarrow> bool \<times> RedbWrite" where
  "remove_pending_request owner from tx =
     (let key = item_key owner from in
      (fmlookup (PENDING (work tx)) key \<noteq> None,
       tx\<lparr>work := (work tx)\<lparr>PENDING := fmdrop key (PENDING (work tx))\<rparr>\<rparr>))"

definition clear_roster :: "AccountKey \<Rightarrow> RedbWrite \<Rightarrow> RedbWrite" where
  "clear_roster owner tx =
     (let within = in_owner_range (key_text owner); t = work tx in
      tx\<lparr>work := t\<lparr>ITEMS := retain_in within (ITEMS t), PENDING := retain_in within (PENDING t),
           VERSIONS := fmdrop (key_text owner) (VERSIONS t)\<rparr>\<rparr>)"


section \<open>Key ranges\<close>

lemma nul_least: "CHR 0x00 \<le> (c :: char)" "(c :: char) < CHR 0x01 \<longleftrightarrow> c = CHR 0x00"
proof -
  show "CHR 0x00 \<le> c" by (simp add: less_eq_char_def)
  have "(of_char c :: nat) = of_char (CHR 0x00 :: char) \<longleftrightarrow> c = CHR 0x00" by (rule of_char_eq_iff)
  then show "c < CHR 0x01 \<longleftrightarrow> c = CHR 0x00" by (simp add: less_char_def)
qed

lemma in_owner_range_iff: "in_owner_range owner key \<longleftrightarrow> (\<exists>s. key = item_key_text owner s)"
proof -
  have "owner @ [CHR 0x00] \<le> key \<and> key < owner @ [CHR 0x01] \<longleftrightarrow> (\<exists>s. key = owner @ [CHR 0x00] @ s)" for key
  proof (induction owner arbitrary: key)
    case Nil
    show ?case by (cases key) (auto simp: nul_least)
  next
    case (Cons c owner)
    show ?case using Cons.IH [of "tl key"] by (cases key) auto
  qed
  then show ?thesis by (simp add: in_owner_range_def owner_range_def item_key_text_def)
qed

lemma item_key_inject [simp]: "item_key_text owner s = item_key_text owner t \<longleftrightarrow> s = t"
  by (simp add: item_key_text_def)

lemma item_key_in_range [simp]: "in_owner_range owner (item_key_text owner s)"
  by (auto simp: in_owner_range_iff)

lemma item_key_owner:
  assumes "CHR 0x00 \<notin> set owner" and "CHR 0x00 \<notin> set owner'"
  shows "in_owner_range owner (item_key_text owner' s) \<longleftrightarrow> owner = owner'"
proof
  assume "in_owner_range owner (item_key_text owner' s)"
  then obtain t where "owner' @ CHR 0x00 # s = owner @ CHR 0x00 # t"
    by (auto simp: in_owner_range_iff item_key_text_def)
  then have "takeWhile (\<lambda>c. c \<noteq> CHR 0x00) (owner' @ CHR 0x00 # s) = takeWhile (\<lambda>c. c \<noteq> CHR 0x00) (owner @ CHR 0x00 # t)"
    by simp
  moreover have "takeWhile (\<lambda>c. c \<noteq> CHR 0x00) (xs @ CHR 0x00 # ys) = xs" if "CHR 0x00 \<notin> set xs" for xs ys :: string
    using that by (subst takeWhile_append2) auto
  ultimately show "owner = owner'" using assms by simp
qed simp

lemma strip_item_key: "Option.bind (strip_prefix owner (item_key_text owner s)) (strip_prefix [CHR 0x00]) = Some s"
  by (simp add: strip_prefix_def item_key_text_def)

section \<open>Item format\<close>

lemma encode_flags_bits:
  "and (encode_flags s) (not 3) = 0" "and (encode_flags s) 1 \<noteq> 0 \<longleftrightarrow> pending_out s"
  "and (encode_flags s) 2 \<noteq> 0 \<longleftrightarrow> approved s"
  by (cases "pending_out s"; cases "approved s"; simp add: encode_flags_def)+

lemma decode_header_encoded [simp]: "decode_header (encode_subscription s @ rest) = Inr (s, rest)"
  using encode_flags_bits [of s]
  by (cases "state s")
    (simp_all add: decode_header_def encode_subscription_def take_byte_def encode_state_def decode_state_def)

lemma decode_header_split:
  assumes "decode_header bs = Inr (s, rest)"
  shows "drop 2 bs = rest" and "2 \<le> length bs"
  using assms by (auto simp: decode_header_def take_byte_def split: list.splits if_splits prod.splits)

lemma take_u32_encoded [simp]: "n \<le> U32_MAX \<Longrightarrow> take_u32 (to_le_bytes 4 n @ rest) = Inr (n, rest)"
  by (simp add: take_u32_def take_chunk_def from_to_le_bytes U32_MAX_def)

lemma take_string_encoded [simp]:
  "is_str s \<Longrightarrow> length s \<le> U32_MAX \<Longrightarrow> take_string (to_le_bytes 4 (length s) @ as_bytes s @ rest) = Inr (s, rest)"
  by (simp add: take_string_def take_string_with_len_def from_utf8_as_bytes)

text \<open>The bytes of a group list, and of a whole item, in closed form.\<close>

fun group_bytes :: "string list \<Rightarrow> bytes" where
  "group_bytes [] = []"
| "group_bytes (g # gs) = to_le_bytes 4 (length g) @ as_bytes g @ group_bytes gs"

definition name_bytes :: "string option \<Rightarrow> bytes" where
  "name_bytes name = (case name of None \<Rightarrow> to_le_bytes 4 U32_MAX | Some s \<Rightarrow> to_le_bytes 4 (length s) @ as_bytes s)"

definition item_bytes :: "RosterItem \<Rightarrow> bytes" where
  "item_bytes item = encode_subscription (subscription item) @ name_bytes (item_name item) @
     to_le_bytes 4 (length (item_groups item)) @ group_bytes (item_groups item)"

definition item_strs :: "RosterItem \<Rightarrow> bool" where
  "item_strs item \<longleftrightarrow> pred_option is_str (item_name item) \<and> list_all is_str (item_groups item)"

definition item_fits :: "RosterItem \<Rightarrow> bool" where
  "item_fits item \<longleftrightarrow> pred_option (\<lambda>s. length s < U32_MAX) (item_name item) \<and>
     list_all (\<lambda>g. length g \<le> U32_MAX) (item_groups item) \<and> length (item_groups item) \<le> U32_MAX \<and>
     length (item_bytes item) \<le> max_of 64"

lemma append_all_encoded:
  "append_all encoded (map as_bytes gs) =
     (if \<forall>g \<in> set gs. length g \<le> U32_MAX then Inr (encoded @ group_bytes gs) else Inl ValueTooLarge)"
  by (induction gs arbitrary: encoded) (simp_all add: append_bytes_def)

lemma take_strings_encoded:
  "\<forall>g \<in> set gs. is_str g \<and> length g \<le> U32_MAX \<Longrightarrow> take_strings (length gs) (group_bytes gs @ rest) = Inr (gs, rest)"
  by (induction gs) simp_all

lemma groups_size_value:
  assumes "n \<le> max_of 64"
  shows "groups_size n gs = (if n + length (group_bytes gs) \<le> max_of 64 then Some (n + length (group_bytes gs)) else None)"
  using assms by (induction gs arbitrary: n) (simp_all add: checked_add_def add.assoc)

lemma encoded_item_size_value:
  "encoded_item_size item =
     (if length (item_bytes item) \<le> max_of 64 then Inr (length (item_bytes item)) else Inl ValueTooLarge)"
proof -
  have "10 \<le> max_of 64" by (simp add: max_of_def)
  then show ?thesis
    by (cases "item_name item")
      (auto simp: encoded_item_size_def groups_size_value item_bytes_def name_bytes_def encode_subscription_def checked_add_def)
qed

lemma append_optional_value:
  "append_optional encoded (map_option as_bytes name) =
     (if pred_option (\<lambda>s. length s < U32_MAX) name then Inr (encoded @ name_bytes name) else Inl ValueTooLarge)"
  by (cases name) (simp_all add: append_optional_def append_bytes_def name_bytes_def)

lemma encode_item_value: "encode_item item = (if item_fits item then Inr (item_bytes item) else Inl ValueTooLarge)"
  by (auto simp: encode_item_def encoded_item_size_value append_optional_value append_all_encoded item_fits_def
      item_bytes_def encode_subscription_def list_all_iff)

lemma take_optional_string_encoded:
  assumes "pred_option is_str name" and "pred_option (\<lambda>s. length s < U32_MAX) name"
  shows "take_optional_string (name_bytes name @ rest) = Inr (name, rest)"
  using assms
  by (cases name) (simp_all add: take_optional_string_def name_bytes_def take_string_with_len_def from_utf8_as_bytes)

lemma decode_item_value:
  assumes "item_strs item" and "item_fits item"
  shows "decode_item (item_jid item) (item_bytes item) = Inr item"
proof -
  have groups: "\<forall>g \<in> set (item_groups item). is_str g \<and> length g \<le> U32_MAX"
    using assms by (auto simp: item_strs_def item_fits_def list_all_iff)
  show ?thesis
    using assms take_strings_encoded [OF groups, of "[]"]
    by (simp add: decode_item_def item_bytes_def take_optional_string_encoded item_strs_def item_fits_def)
qed

lemma decode_subscription_encoded [simp]: "decode_subscription (encode_subscription s @ rest) = Inr s"
  by (simp add: decode_subscription_def)

lemma decode_subscription_item [simp]: "decode_subscription (item_bytes item) = Inr (subscription item)"
  by (simp add: item_bytes_def)

lemma check_item_value:
  assumes "item_fits item"
  shows "check_item (item_bytes item) quota =
    (if max_bytes quota < length (item_bytes item) \<or> MAX_GROUPS_PER_ITEM < length (item_groups item)
     then Inl QuotaExceeded else Inr ())"
  using assms
  by (cases "item_name item")
    (simp_all add: check_item_def item_fits_def item_bytes_def encode_subscription_def take_byte_def name_bytes_def)


section \<open>Quotas\<close>

definition row_bytes :: "string \<times> bytes \<Rightarrow> nat" where
  "row_bytes row = length (fst row) + length (snd row)"

definition owner_rows :: "string \<Rightarrow> (string, bytes) fmap \<Rightarrow> nat" where
  "owner_rows owner items = length (bt_range (in_owner_range owner) items)"

definition owner_bytes :: "string \<Rightarrow> (string, bytes) fmap \<Rightarrow> nat" where
  "owner_bytes owner items = sum_list (map row_bytes (bt_range (in_owner_range owner) items))"

definition within_quota :: "RosterQuota \<Rightarrow> string \<Rightarrow> (string, bytes) fmap \<Rightarrow> bool" where
  "within_quota quota owner items \<longleftrightarrow> owner_rows owner items \<le> max_items quota \<and> owner_bytes owner items \<le> max_bytes quota"

definition quota_usize :: "RosterQuota \<Rightarrow> bool" where
  "quota_usize quota \<longleftrightarrow> max_items quota \<le> max_of 64 \<and> max_bytes quota \<le> max_of 64"

lemma owner_usage_total:
  "owner_rows owner = table.total (\<lambda>_. 1) (in_owner_range owner)"
  "owner_bytes owner = table.total row_bytes (in_owner_range owner)"
  by (simp_all add: fun_eq_iff owner_rows_def owner_bytes_def table.total_def length_bt_range)

lemma owner_usage_put:
  assumes "in_owner_range owner key"
  shows "owner_rows owner (fmupd key v items) = owner_rows owner (fmdrop key items) + 1"
    and "owner_bytes owner (fmupd key v items) = owner_bytes owner (fmdrop key items) + (length key + length v)"
  using assms by (simp_all add: owner_usage_total table.total_ins row_bytes_def)

lemma owner_usage_old:
  assumes "in_owner_range owner key" and "fmlookup items key = Some old"
  shows "owner_rows owner items = owner_rows owner (fmdrop key items) + 1"
    and "owner_bytes owner items = owner_bytes owner (fmdrop key items) + (length key + length old)"
  using assms table.total_rem [of "in_owner_range owner" key items old]
  by (simp_all add: owner_usage_total row_bytes_def)

lemma owner_usage_absent:
  assumes "fmlookup items key = None"
  shows "owner_rows owner (fmdrop key items) = owner_rows owner items"
    and "owner_bytes owner (fmdrop key items) = owner_bytes owner items"
  using assms by (simp_all add: owner_usage_total table.total_rem_absent)

lemma owner_usage_cong:
  assumes "\<And>key. in_owner_range owner key \<Longrightarrow> fmlookup items key = fmlookup items' key"
  shows "owner_rows owner items = owner_rows owner items'" and "owner_bytes owner items = owner_bytes owner items'"
  unfolding owner_usage_total by (rule table.total_cong, erule assms)+

lemma checked_row:
  "Option.bind (checked_add 64 n (length key)) (\<lambda>n. checked_add 64 n (length v)) =
     (if n + row_bytes (key, v) \<le> max_of 64 then Some (n + row_bytes (key, v)) else None)"
  by (simp add: checked_add_def row_bytes_def add.assoc)

lemma admit_rows_Cons:
  "admit_rows quota old (row # rows) count tally =
     (if count + 1 \<le> max_of 64 \<and> tally + row_bytes row \<le> max_of 64 \<and>
        count + 1 \<le> max_items quota \<and> tally + row_bytes row - old \<le> max_bytes quota
      then admit_rows quota old rows (count + 1) (tally + row_bytes row) else Inl QuotaExceeded)"
  by (cases row) (auto simp: checked_add_def row_bytes_def add.assoc)

lemma admit_rows_result:
  "admit_rows quota old rows count tally = Inr r \<Longrightarrow> r = (count + length rows, tally + sum_list (map row_bytes rows))"
proof (induction rows arbitrary: count tally)
  case (Cons row rows)
  then have "admit_rows quota old rows (count + 1) (tally + row_bytes row) = Inr r"
    by (simp add: admit_rows_Cons split: if_splits)
  from Cons.IH [OF this] show ?case by simp
qed simp

lemma admit_rows_error: "admit_rows quota old rows count tally = Inl e \<Longrightarrow> e = QuotaExceeded"
  by (induction rows arbitrary: count tally) (simp_all add: admit_rows_Cons split: if_splits)

lemma admit_rows_accepts:
  assumes "count + length rows \<le> max_items quota" and "max_items quota \<le> max_of 64"
    and "tally + sum_list (map row_bytes rows) - old \<le> max_bytes quota"
    and "tally + sum_list (map row_bytes rows) \<le> max_of 64"
  shows "admit_rows quota old rows count tally = Inr (count + length rows, tally + sum_list (map row_bytes rows))"
  using assms by (induction rows arbitrary: count tally) (auto simp: admit_rows_Cons add.assoc)

lemma admit_item_exact:
  assumes "quota_usize quota" and "in_owner_range owner key"
  shows "admit_item items owner key (length v) quota =
    (if length key + length v \<le> max_of 64 \<and>
        (pred_option (\<lambda>old. length v \<le> length old) (fmlookup items key) \<and> fmlookup items key \<noteq> None \<or>
         within_quota quota owner (fmupd key v items))
     then Inr () else Inl QuotaExceeded)"
proof -
  let ?rows = "bt_range (in_owner_range owner) items"
  have q: "max_items quota \<le> max_of 64" "max_bytes quota \<le> max_of 64"
    using assms(1) by (simp_all add: quota_usize_def)
  have sums: "length ?rows = owner_rows owner items" "sum_list (map row_bytes ?rows) = owner_bytes owner items"
    by (simp_all add: owner_rows_def owner_bytes_def)
  note put = owner_usage_put [OF assms(2), of v items]
  show ?thesis
  proof (cases "fmlookup items key")
    case None
    note absent = owner_usage_absent [OF None, of owner]
    have "admit_rows quota 0 ?rows 0 0 = Inr (owner_rows owner items, owner_bytes owner items)"
      if "owner_rows owner items + 1 \<le> max_items quota" "owner_bytes owner items + (length key + length v) \<le> max_bytes quota"
      using that q admit_rows_accepts [of 0 ?rows quota 0 0] by (simp add: sums)
    moreover have "r = (owner_rows owner items, owner_bytes owner items)" if "admit_rows quota 0 ?rows 0 0 = Inr r" for r
      using admit_rows_result [OF that] by (simp add: sums)
    ultimately show ?thesis
      using q None absent put
      by (cases "admit_rows quota 0 ?rows 0 0")
        (auto simp: admit_item_def Let_def within_quota_def checked_add_def checked_sub_def dest: admit_rows_error)
  next
    case (Some old)
    let ?o = "length key + length old"
    note present = owner_usage_old [OF assms(2) Some]
    have "admit_rows quota ?o ?rows 0 0 = Inr (owner_rows owner items, owner_bytes owner items)"
      if "length old < length v" "owner_rows owner items \<le> max_items quota"
        "owner_bytes owner items - ?o + (length key + length v) \<le> max_bytes quota"
      using that q present admit_rows_accepts [of 0 ?rows quota 0 ?o] by (simp add: sums)
    moreover have "r = (owner_rows owner items, owner_bytes owner items)" if "admit_rows quota ?o ?rows 0 0 = Inr r" for r
      using admit_rows_result [OF that] by (simp add: sums)
    ultimately show ?thesis
      using q Some present put
      by (cases "admit_rows quota ?o ?rows 0 0")
        (auto simp: admit_item_def Let_def within_quota_def checked_add_def checked_sub_def dest: admit_rows_error)
  qed
qed

section \<open>Effects of the writes\<close>

lemma advance_version_Inr:
  "advance_version owner tx = Inr (v, tx') \<longleftrightarrow>
     v = (case fmlookup (VERSIONS (work tx)) owner of None \<Rightarrow> 0 | Some n \<Rightarrow> n) + 1 \<and> v \<le> max_of 64 \<and>
     tx' = tx\<lparr>work := (work tx)\<lparr>VERSIONS := fmupd owner v (VERSIONS (work tx))\<rparr>\<rparr>"
  by (auto simp: advance_version_def)

lemma put_roster_item_Inr:
  assumes "quota_usize quota"
  shows "put_roster_item owner item quota tx = Inr (v, tx') \<longleftrightarrow>
    length (item_groups item) \<le> MAX_GROUPS_PER_ITEM \<and> item_fits item \<and> account_exists tx (key_text owner) \<and>
    admit_item (ITEMS (work tx)) (key_text owner) (item_key owner (item_jid item)) (length (item_bytes item)) quota = Inr () \<and>
    v = roster_version (work tx) owner + 1 \<and> v \<le> max_of 64 \<and>
    tx' = tx\<lparr>work := (work tx)\<lparr>
      ITEMS := fmupd (item_key owner (item_jid item)) (item_bytes item) (ITEMS (work tx)),
      VERSIONS := fmupd (key_text owner) v (VERSIONS (work tx))\<rparr>\<rparr>"
  by (auto simp: put_roster_item_def encoded_item_size_value encode_item_value advance_version_Inr
      roster_version_def Let_def item_fits_def split: if_splits)

lemma copy_subscription_Inr:
  assumes "copy_subscription before owner key expected new tx = Inr (v, tx')"
  shows "v = None \<and> tx' = tx \<or>
    (\<exists>current n. fmlookup (ITEMS (work tx)) key = Some current \<and> 2 \<le> length current \<and> v = Some n \<and>
      n = (case fmlookup (VERSIONS (work tx)) owner of None \<Rightarrow> 0 | Some n \<Rightarrow> n) + 1 \<and>
      tx' = tx\<lparr>work := (work tx)\<lparr>ITEMS := fmupd key (encode_subscription new @ drop 2 current) (ITEMS (work tx)),
        VERSIONS := fmupd owner n (VERSIONS (work tx))\<rparr>\<rparr>)"
  using assms
  by (auto simp: copy_subscription_def advance_version_Inr decode_subscription_def dest: decode_header_split(2)
      split: if_splits option.splits)

lemma item_bytes_header: "encode_subscription new @ drop 2 (item_bytes item) = item_bytes (item\<lparr>subscription := new\<rparr>)"
  by (simp add: item_bytes_def encode_subscription_def numeral_2_eq_2)

section \<open>The store invariant\<close>

text \<open>
  What every row of an owner's roster is: a canonical contact and the encoding of a valid item. Owners
  are canonical JIDs, which hold no NUL.
\<close>

definition owner_ok :: "string \<Rightarrow> bool" where
  "owner_ok owner \<longleftrightarrow> CHR 0x00 \<notin> set owner"

definition valid_item :: "UnicodeData \<Rightarrow> RosterItem \<Rightarrow> bool" where
  "valid_item u item \<longleftrightarrow> decode_jid u (item_jid item) = Inr (item_jid item) \<and> item_strs item"

definition stored_item :: "UnicodeData \<Rightarrow> string \<Rightarrow> RosterItem \<Rightarrow> string \<Rightarrow> bytes \<Rightarrow> bool" where
  "stored_item u owner item key v \<longleftrightarrow>
     key = item_key_text owner (item_jid item) \<and> v = item_bytes item \<and> valid_item u item \<and> item_fits item \<and>
     length (item_groups item) \<le> MAX_GROUPS_PER_ITEM"

definition items_ok :: "UnicodeData \<Rightarrow> RosterQuota \<Rightarrow> (string, bytes) fmap \<Rightarrow> bool" where
  "items_ok u quota items \<longleftrightarrow> (\<forall>owner. owner_ok owner \<longrightarrow> within_quota quota owner items \<and>
     (\<forall>key v. in_owner_range owner key \<longrightarrow> fmlookup items key = Some v \<longrightarrow> (\<exists>item. stored_item u owner item key v)))"

definition pending_ok :: "UnicodeData \<Rightarrow> nat \<Rightarrow> (string, bytes) fmap \<Rightarrow> bool" where
  "pending_ok u limit pending \<longleftrightarrow> (\<forall>owner. owner_ok owner \<longrightarrow> owner_rows owner pending \<le> limit \<and>
     (\<forall>sender. fmlookup pending (item_key_text owner sender) \<noteq> None \<longrightarrow> decode_jid u sender = Inr sender))"

definition store_ok :: "UnicodeData \<Rightarrow> RosterQuota \<Rightarrow> nat \<Rightarrow> Tables \<Rightarrow> bool" where
  "store_ok u quota limit t \<longleftrightarrow> items_ok u quota (ITEMS t) \<and> pending_ok u limit (PENDING t)"

text \<open>
  Any use of the roster store: every write, by any owner, accounts coming and going, and transactions
  that commit or are dropped.
\<close>

inductive roster_step :: "UnicodeData \<Rightarrow> RosterQuota \<Rightarrow> nat \<Rightarrow> RedbWrite \<Rightarrow> RedbWrite \<Rightarrow> bool"
  for u quota limit where
  put: "roster_step u quota limit tx tx'"
    if "owner_ok (key_text owner)" "valid_item u item" "put_roster_item owner item quota tx = Inr (v, tx')"
| set_sub: "roster_step u quota limit tx tx'"
    if "owner_ok (key_text owner)" "set_roster_subscription before owner jid new tx = Inr (n, tx')"
| transition: "roster_step u quota limit tx tx'"
    if "owner_ok (key_text owner)" "transition_roster_subscription owner jid expected new tx = Inr (n, tx')"
| remove_sub: "roster_step u quota limit tx tx'"
    if "owner_ok (key_text owner)" "remove_roster_subscription owner jid tx = Inr (m, tx')"
| remove_row: "roster_step u quota limit tx tx'"
    if "owner_ok (key_text owner)" "remove_roster_item owner jid tx = Inr (k, tx')"
| put_pending: "roster_step u quota limit tx tx'"
    if "owner_ok (key_text owner)" "decode_jid u (sender request) = Inr (sender request)"
      "put_pending_request owner request limit tx = Inr ((), tx')"
| remove_pending: "roster_step u quota limit tx (snd (remove_pending_request owner jid tx))"
| clear: "roster_step u quota limit tx (clear_roster owner tx)"
| accounts: "roster_step u quota limit tx (tx\<lparr>work := (work tx)\<lparr>ACCOUNTS := accs\<rparr>\<rparr>)"
| committed: "roster_step u quota limit tx (begin_write (commit tx))"
| dropped: "roster_step u quota limit tx (begin_write (committed tx))"

inductive roster_reachable :: "UnicodeData \<Rightarrow> RosterQuota \<Rightarrow> nat \<Rightarrow> RedbWrite \<Rightarrow> bool" for u quota limit where
  start: "roster_reachable u quota limit (begin_write empty_tables)"
| "next": "roster_reachable u quota limit tx \<Longrightarrow> roster_step u quota limit tx tx' \<Longrightarrow> roster_reachable u quota limit tx'"


lemma owner_usage_sub:
  assumes "\<And>key. fmlookup items' key = None \<or> fmlookup items' key = fmlookup items key"
  shows "owner_rows owner items' \<le> owner_rows owner items" and "owner_bytes owner items' \<le> owner_bytes owner items"
  unfolding owner_usage_total by (rule table.total_sub, rule assms)+

lemma items_okD:
  assumes "items_ok u quota items" and "owner_ok owner"
  shows "within_quota quota owner items"
    and "in_owner_range owner key \<Longrightarrow> fmlookup items key = Some v \<Longrightarrow> \<exists>item. stored_item u owner item key v"
  using assms by (auto simp: items_ok_def)

lemma items_ok_sub:
  assumes "items_ok u quota items" and "\<And>key. fmlookup items' key = None \<or> fmlookup items' key = fmlookup items key"
  shows "items_ok u quota items'"
  unfolding items_ok_def
proof (intro allI impI conjI)
  fix owner assume ok: "owner_ok owner"
  show "within_quota quota owner items'"
    using items_okD(1) [OF assms(1) ok] owner_usage_sub [OF assms(2), of owner] by (simp add: within_quota_def)
  fix key v assume "in_owner_range owner key" "fmlookup items' key = Some v"
  then show "\<exists>item. stored_item u owner item key v"
    using items_okD(2) [OF assms(1) ok] assms(2) [of key] by simp
qed

lemma items_ok_upd:
  assumes "items_ok u quota items" and "owner_ok owner" and "stored_item u owner item key v"
    and "within_quota quota owner (fmupd key v items)"
  shows "items_ok u quota (fmupd key v items)"
  unfolding items_ok_def
proof (intro allI impI conjI)
  fix other assume other: "owner_ok other"
  have range: "in_owner_range other key \<longleftrightarrow> other = owner"
    using assms(2,3) other item_key_owner [of other owner] by (simp add: owner_ok_def stored_item_def)
  show "within_quota quota other (fmupd key v items)"
  proof (cases "other = owner")
    case False
    then have "fmlookup (fmupd key v items) k = fmlookup items k" if "in_owner_range other k" for k
      using that range by auto
    from owner_usage_cong [OF this] items_okD(1) [OF assms(1) other]
    show ?thesis by (simp add: within_quota_def)
  qed (use assms(4) in simp)
  fix k w assume "in_owner_range other k" "fmlookup (fmupd key v items) k = Some w"
  then show "\<exists>item. stored_item u other item k w"
    using range assms(3) items_okD(2) [OF assms(1) other] by (auto split: if_splits)
qed

lemma items_ok_put:
  assumes "items_ok u quota items" and "owner_ok owner" and "stored_item u owner item key v"
    and "quota_usize quota" and "admit_item items owner key (length v) quota = Inr ()"
  shows "items_ok u quota (fmupd key v items)"
proof (rule items_ok_upd [OF assms(1-3)])
  have key: "in_owner_range owner key" using assms(3) by (simp add: stored_item_def)
  note quota = items_okD(1) [OF assms(1,2)]
  from assms(5) consider "within_quota quota owner (fmupd key v items)"
    | old where "fmlookup items key = Some old" "length v \<le> length old"
    by (auto simp: admit_item_exact [OF assms(4) key] split: if_splits)
  then show "within_quota quota owner (fmupd key v items)"
  proof cases
    case 2
    show ?thesis
      using quota owner_usage_old [OF key 2(1)] owner_usage_put [OF key, of v items] 2(2)
      by (simp add: within_quota_def)
  qed
qed

lemma stored_item_header:
  assumes "stored_item u owner item key current"
  shows "stored_item u owner (item\<lparr>subscription := new\<rparr>) key (encode_subscription new @ drop 2 current)"
    and "length (encode_subscription new @ drop 2 current) = length current"
proof -
  have len: "length (item_bytes (item\<lparr>subscription := new\<rparr>)) = length (item_bytes item)"
    by (simp add: item_bytes_def encode_subscription_def)
  then show "length (encode_subscription new @ drop 2 current) = length current"
    using assms by (simp add: stored_item_def item_bytes_header)
  show "stored_item u owner (item\<lparr>subscription := new\<rparr>) key (encode_subscription new @ drop 2 current)"
    using assms len by (simp add: stored_item_def item_bytes_header valid_item_def item_strs_def item_fits_def)
qed

lemma items_ok_copy:
  assumes "items_ok u quota (ITEMS (work tx))" and "owner_ok owner"
    and "copy_subscription before owner (item_key_text owner jid) expected new tx = Inr (n, tx')"
  shows "items_ok u quota (ITEMS (work tx'))" and "PENDING (work tx') = PENDING (work tx)" and "committed tx' = committed tx"
proof -
  let ?key = "item_key_text owner jid" and ?items = "ITEMS (work tx)"
  note cases = copy_subscription_Inr [OF assms(3)]
  then show "PENDING (work tx') = PENDING (work tx)" "committed tx' = committed tx" by auto
  show "items_ok u quota (ITEMS (work tx'))"
  proof (cases "tx' = tx")
    case False
    with cases obtain current where current: "fmlookup ?items ?key = Some current"
      and tx': "ITEMS (work tx') = fmupd ?key (encode_subscription new @ drop 2 current) ?items"
      by auto
    from items_okD(2) [OF assms(1,2) item_key_in_range current]
    obtain item where item: "stored_item u owner item ?key current" ..
    note new = stored_item_header [OF item, of new]
    have "within_quota quota owner (fmupd ?key (encode_subscription new @ drop 2 current) ?items)"
      using items_okD(1) [OF assms(1,2)] owner_usage_old [OF item_key_in_range current] new(2)
      by (simp add: within_quota_def owner_usage_put)
    from items_ok_upd [OF assms(1,2) new(1) this] show ?thesis by (simp add: tx')
  qed (use assms(1) in simp)
qed


lemma at_capacity_iff: "at_capacity limit index rows \<longleftrightarrow> index < limit \<and> limit \<le> index + length rows"
  by (induction limit index rows rule: at_capacity.induct) auto

lemma put_pending_request_Inr:
  assumes "0 < limit"
  shows "put_pending_request owner request limit tx = Inr ((), tx') \<longleftrightarrow>
    account_exists tx (key_text owner) \<and>
    (fmlookup (PENDING (work tx)) (item_key owner (sender request)) = None \<longrightarrow>
       owner_rows (key_text owner) (PENDING (work tx)) < limit) \<and>
    tx' = tx\<lparr>work := (work tx)\<lparr>PENDING := fmupd (item_key owner (sender request)) (stanza request) (PENDING (work tx))\<rparr>\<rparr>"
  using assms
  by (auto simp: put_pending_request_def Let_def at_capacity_iff owner_rows_def min_def not_le split: if_splits)

lemma pending_okD:
  assumes "pending_ok u limit pending" and "owner_ok owner"
  shows "owner_rows owner pending \<le> limit"
    and "fmlookup pending (item_key_text owner jid) \<noteq> None \<Longrightarrow> decode_jid u jid = Inr jid"
  using assms by (simp_all add: pending_ok_def)

lemma pending_ok_sub:
  assumes "pending_ok u limit pending" and "\<And>key. fmlookup pending' key = None \<or> fmlookup pending' key = fmlookup pending key"
  shows "pending_ok u limit pending'"
  unfolding pending_ok_def
proof (intro allI impI conjI)
  fix owner assume ok: "owner_ok owner"
  show "owner_rows owner pending' \<le> limit"
    using pending_okD(1) [OF assms(1) ok] owner_usage_sub(1) [OF assms(2), of owner] by simp
  fix jid assume "fmlookup pending' (item_key_text owner jid) \<noteq> None"
  then show "decode_jid u jid = Inr jid"
    using pending_okD(2) [OF assms(1) ok] assms(2) [of "item_key_text owner jid"] by auto
qed

lemma pending_ok_put:
  assumes "pending_ok u limit pending" and "owner_ok owner" and "decode_jid u jid = Inr jid"
    and "fmlookup pending (item_key_text owner jid) = None \<Longrightarrow> owner_rows owner pending < limit"
  shows "pending_ok u limit (fmupd (item_key_text owner jid) v pending)"
  unfolding pending_ok_def
proof (intro allI impI conjI)
  let ?key = "item_key_text owner jid"
  fix other assume other: "owner_ok other"
  have range: "in_owner_range other ?key \<longleftrightarrow> other = owner"
    using assms(2) other item_key_owner [of other owner] by (simp add: owner_ok_def)
  show "owner_rows other (fmupd ?key v pending) \<le> limit"
  proof (cases "other = owner")
    case True
    note put = owner_usage_put(1) [OF item_key_in_range, of owner jid v pending]
    show ?thesis
    proof (cases "fmlookup pending ?key")
      case None
      show ?thesis unfolding True put owner_usage_absent(1) [OF None] using assms(4) [OF None] by simp
    next
      case (Some old)
      show ?thesis
        unfolding True put owner_usage_old(1) [OF item_key_in_range Some, symmetric] by (rule pending_okD(1) [OF assms(1,2)])
    qed
  next
    case False
    then have "fmlookup (fmupd ?key v pending) k = fmlookup pending k" if "in_owner_range other k" for k
      using that range by auto
    from owner_usage_cong(1) [OF this] pending_okD(1) [OF assms(1) other] show ?thesis by simp
  qed
  fix s assume s: "fmlookup (fmupd ?key v pending) (item_key_text other s) \<noteq> None"
  show "decode_jid u s = Inr s"
  proof (cases "item_key_text other s = ?key")
    case True
    then have "other = owner" using range by (metis item_key_in_range)
    with True assms(3) show ?thesis by simp
  next
    case False
    with s have "fmlookup pending (item_key_text other s) \<noteq> None" by simp
    then show ?thesis by (rule pending_okD(2) [OF assms(1) other])
  qed
qed

lemma remove_Inr:
  "remove_roster_subscription owner jid tx = Inr (m, tx') \<Longrightarrow>
     PENDING (work tx') = PENDING (work tx) \<and> committed tx' = committed tx \<and>
     (ITEMS (work tx') = ITEMS (work tx) \<or> ITEMS (work tx') = fmdrop (item_key owner jid) (ITEMS (work tx)))"
  "remove_roster_item owner jid tx = Inr (k, tx') \<Longrightarrow>
     PENDING (work tx') = PENDING (work tx) \<and> committed tx' = committed tx \<and>
     (ITEMS (work tx') = ITEMS (work tx) \<or> ITEMS (work tx') = fmdrop (item_key owner jid) (ITEMS (work tx)))"
  by (auto simp: remove_roster_subscription_def remove_roster_item_def advance_version_Inr split: option.splits)

lemma store_ok_step:
  assumes "roster_step u quota limit tx tx'" and "quota_usize quota" and "0 < limit"
    and "store_ok u quota limit (work tx)" and "store_ok u quota limit (committed tx)"
  shows "store_ok u quota limit (work tx') \<and> store_ok u quota limit (committed tx')"
  using assms(1)
proof cases
  case (put owner item v)
  then have "stored_item u (key_text owner) item (item_key owner (item_jid item)) (item_bytes item)"
    by (simp add: put_roster_item_Inr [OF assms(2)] stored_item_def item_key_def)
  with put assms(2,4,5) show ?thesis
    by (auto simp: put_roster_item_Inr store_ok_def intro: items_ok_put)
next
  case (set_sub owner before jid new n)
  with assms(4,5) items_ok_copy [of u quota tx "key_text owner" before jid None new n tx'] show ?thesis
    by (simp add: store_ok_def set_roster_subscription_def item_key_def)
next
  case (transition owner jid expected new n)
  with assms(4,5) items_ok_copy [of u quota tx "key_text owner" "committed tx" jid "Some expected" new n tx'] show ?thesis
    by (simp add: store_ok_def transition_roster_subscription_def run_with_snapshot_def item_key_def)
next
  case (remove_sub owner jid m)
  with assms(4,5) remove_Inr(1) [OF remove_sub(2)] show ?thesis
    by (auto simp: store_ok_def elim!: items_ok_sub)
next
  case (remove_row owner jid k)
  with assms(4,5) remove_Inr(2) [OF remove_row(2)] show ?thesis
    by (auto simp: store_ok_def elim!: items_ok_sub)
next
  case (put_pending owner request)
  with assms(3,4,5) show ?thesis
    by (auto simp: put_pending_request_Inr store_ok_def item_key_def intro!: pending_ok_put)
next
  case (remove_pending owner jid)
  with assms(4,5) show ?thesis
    by (auto simp: remove_pending_request_def Let_def store_ok_def elim!: pending_ok_sub)
next
  case (clear owner)
  with assms(4,5) show ?thesis
    by (auto simp: clear_roster_def Let_def store_ok_def retain_in_def elim!: pending_ok_sub items_ok_sub)
qed (use assms(4,5) in \<open>simp_all add: store_ok_def begin_write_def commit_def\<close>)

lemma store_ok_empty: "store_ok u quota limit empty_tables"
proof -
  have "bt_range P (fmempty :: (string, bytes) fmap) = []" for P
    using table.set_scan [of P "fmempty :: (string, bytes) fmap"] by auto
  then show ?thesis
    by (simp add: store_ok_def items_ok_def pending_ok_def empty_tables_def within_quota_def owner_rows_def owner_bytes_def)
qed

lemma store_ok_reachable:
  assumes "roster_reachable u quota limit tx" and "quota_usize quota" and "0 < limit"
  shows "store_ok u quota limit (work tx) \<and> store_ok u quota limit (committed tx)"
  using assms(1)
  by (induction rule: roster_reachable.induct)
    (use store_ok_step [OF _ assms(2,3)] in \<open>auto simp: begin_write_def store_ok_empty\<close>)


section \<open>Reading rosters\<close>

lemma decode_item_key [simp]: "decode_key u owner (item_key_text owner jid) = decode_jid u jid"
  by (simp only: decode_key_def strip_item_key) simp

lemma read_items_stored:
  assumes "\<forall>(key, v) \<in> set rows. \<exists>item. stored_item u owner item key v"
    and "count + length rows \<le> max_items quota" and "tally + sum_list (map row_bytes rows) \<le> max_bytes quota"
    and "max_bytes quota \<le> max_of 64"
  shows "\<exists>items. read_items u owner quota rows count tally = Inr items \<and>
    list_all2 (\<lambda>(key, v) item. stored_item u owner item key v) rows items"
  using assms
proof (induction rows arbitrary: count tally)
  case (Cons row rows)
  obtain key v where row: "row = (key, v)" by fastforce
  from Cons.prems(1) obtain item where item: "stored_item u owner item key v" by (auto simp: row)
  then have v: "v = item_bytes item" and key: "key = item_key_text owner (item_jid item)"
    by (simp_all add: stored_item_def)
  have "\<exists>items. read_items u owner quota rows (count + 1) (tally + row_bytes row) = Inr items \<and>
      list_all2 (\<lambda>(key, v) item. stored_item u owner item key v) rows items"
    using Cons.prems by (intro Cons.IH) (simp_all add: add.assoc)
  then obtain items where items: "read_items u owner quota rows (count + 1) (tally + row_bytes row) = Inr items"
    "list_all2 (\<lambda>(key, v) item. stored_item u owner item key v) rows items" by blast
  have "tally + row_bytes (key, v) \<le> max_bytes quota" using Cons.prems(3) by (simp add: row)
  moreover from this have "length v \<le> max_bytes quota" by (simp add: row_bytes_def)
  ultimately have "read_items u owner quota (row # rows) count tally = Inr (item # items)"
    using item items(1) Cons.prems(2,4)
    by (simp add: row checked_row v key stored_item_def valid_item_def check_item_value decode_item_value)
  moreover have "list_all2 (\<lambda>(key, v) item. stored_item u owner item key v) (row # rows) (item # items)"
    using items(2) item by (simp add: row)
  ultimately show ?case by blast
qed simp

lemma roster_stored:
  assumes "items_ok u quota (ITEMS t)" and "owner_ok (key_text owner)" and "quota_usize quota"
  shows "\<exists>items. roster u t owner quota = Inr \<lparr>snapshot_version = roster_version t owner, snapshot_items = items\<rparr> \<and>
    list_all2 (\<lambda>(key, v) item. stored_item u (key_text owner) item key v)
      (bt_range (in_owner_range (key_text owner)) (ITEMS t)) items"
proof -
  let ?rows = "bt_range (in_owner_range (key_text owner)) (ITEMS t)"
  have "\<forall>(key, v) \<in> set ?rows. \<exists>item. stored_item u (key_text owner) item key v"
    using items_okD(2) [OF assms(1,2)] by (auto simp: table.set_scan)
  moreover have "length ?rows \<le> max_items quota" "sum_list (map row_bytes ?rows) \<le> max_bytes quota"
    using items_okD(1) [OF assms(1,2)] by (simp_all add: within_quota_def owner_rows_def owner_bytes_def)
  ultimately obtain items where "read_items u (key_text owner) quota ?rows 0 0 = Inr items"
    "list_all2 (\<lambda>(key, v) item. stored_item u (key_text owner) item key v) ?rows items"
    using read_items_stored [of ?rows u "key_text owner" 0 quota 0] assms(3) by (auto simp: quota_usize_def)
  then show ?thesis by (auto simp: roster_def)
qed

lemma roster_item_stored:
  assumes "items_ok u quota (ITEMS t)" and "owner_ok (key_text owner)" and "quota_usize quota"
    and "fmlookup (ITEMS t) (item_key owner (item_jid item)) = Some (item_bytes item)"
    and "stored_item u (key_text owner) item (item_key owner (item_jid item)) (item_bytes item)"
  shows "roster_item t owner (item_jid item) quota = Inr (Some item)"
proof -
  let ?key = "item_key owner (item_jid item)"
  have "owner_bytes (key_text owner) (ITEMS t) \<le> max_bytes quota"
    using items_okD(1) [OF assms(1,2)] by (simp add: within_quota_def)
  then have "length ?key + length (item_bytes item) \<le> max_bytes quota"
    using owner_usage_old(2) [OF _ assms(4), of "key_text owner"] by (simp add: item_key_def)
  then show ?thesis
    using assms(3-5)
    by (simp add: roster_item_def Let_def saturating_add_exact quota_usize_def stored_item_def valid_item_def
        check_item_value decode_item_value)
qed


lemma item_key_mono: "item_key_text owner s \<le> item_key_text owner t \<longleftrightarrow> s \<le> t"
  unfolding item_key_text_def by (induction owner) simp_all

lemma stored_rows_jids:
  assumes "list_all2 (\<lambda>(key, v) item. stored_item u owner item key v) rows items"
  shows "map fst rows = map (item_key_text owner) (map item_jid items)"
  using assms by (induction rule: list_all2_induct) (auto simp: stored_item_def)

lemma stored_rows_set:
  assumes "list_all2 (\<lambda>(key, v) item. stored_item u owner item key v) rows items" and "item \<in> set items"
  shows "(item_key_text owner (item_jid item), item_bytes item) \<in> set rows"
    and "stored_item u owner item (item_key_text owner (item_jid item)) (item_bytes item)"
  using assms by (induction rule: list_all2_induct) (auto simp: stored_item_def)

lemma key_lists:
  assumes "sorted (map (item_key_text owner) jids)" and "distinct (map (item_key_text owner) jids)"
  shows "sorted jids" and "distinct jids"
  using assms by (simp_all add: sorted_map item_key_mono distinct_map)

section \<open>Sample data\<close>

definition key_a :: AccountKey where
  "key_a = \<lparr>key_text = ''a@x'', username_len = 1\<rparr>"

definition sample_item :: RosterItem where
  "sample_item = \<lparr>item_jid = ''b@x'', item_name = Some ''Bob'', item_groups = [''g''],
     subscription = \<lparr>state = To, pending_out = False, approved = True\<rparr>\<rparr>"

definition sample_start :: RedbWrite where
  "sample_start = (begin_write empty_tables)\<lparr>work := two_accounts\<rparr>"

definition sample_roster :: RedbWrite where
  "sample_roster = sample_start\<lparr>work := two_accounts\<lparr>
     ITEMS := fmupd (item_key key_a ''b@x'') (item_bytes sample_item) fmempty,
     VERSIONS := fmupd ''a@x'' 1 fmempty\<rparr>\<rparr>"

lemma sample_item_ok: "valid_item ascii_tables sample_item" "item_fits sample_item"
proof -
  have "decode_jid ascii_tables ''b@x'' = Inr ''b@x''"
    using bare_ascii_key [of "CHR ''b''"]
    by (auto simp: decode_account_key_def decode_jid_def with_canonical_jid_def MAX_JID_LEN_def MAX_PART_LEN_def
        split: sum.splits if_splits)
  moreover have "item_strs sample_item"
    by (simp add: item_strs_def sample_item_def is_str_def as_bytes_def byte_of_char_def)
  ultimately show "valid_item ascii_tables sample_item" by (simp add: valid_item_def sample_item_def)
  show "item_fits sample_item"
    by (simp add: item_fits_def sample_item_def U32_MAX_def max_of_def item_bytes_def name_bytes_def encode_subscription_def)
qed

lemma empty_owner_rows [simp]: "owner_rows owner fmempty = 0" "owner_bytes owner fmempty = 0"
  by (simp_all add: owner_rows_def owner_bytes_def bt_range_def bt_entries_def bt_keys_def sorted_list_of_fset.rep_eq)

lemma default_quota_usize [simp]: "quota_usize default_quota"
  by (simp add: quota_usize_def default_quota_def max_of_def)

lemma sample_put: "put_roster_item key_a sample_item default_quota sample_start = Inr (1, sample_roster)"
proof -
  let ?key = "item_key key_a ''b@x''"
  have range: "in_owner_range ''a@x'' ?key" by (simp add: item_key_def key_a_def)
  have len: "length ?key + length (item_bytes sample_item) \<le> 30"
    by (simp add: item_key_def key_a_def item_key_text_def sample_item_def item_bytes_def name_bytes_def encode_subscription_def)
  have "within_quota default_quota ''a@x'' (fmupd ?key (item_bytes sample_item) fmempty)"
    using len by (simp add: within_quota_def owner_usage_put [OF range] default_quota_def)
  then have "admit_item fmempty ''a@x'' ?key (length (item_bytes sample_item)) default_quota = Inr ()"
    using len by (simp add: admit_item_exact [OF default_quota_usize range] max_of_def)
  then show ?thesis
    using sample_item_ok(2)
    by (simp add: put_roster_item_Inr sample_start_def sample_roster_def begin_write_def two_accounts_def empty_tables_def
        account_exists_def key_a_def roster_version_def MAX_GROUPS_PER_ITEM_def max_of_def)
      (simp add: sample_item_def MAX_GROUPS_PER_ITEM_def)
qed

lemma sample_roster_reachable: "roster_reachable ascii_tables default_quota 1 sample_roster"
proof -
  have "roster_step ascii_tables default_quota 1 (begin_write empty_tables) sample_start"
    using roster_step.accounts [of ascii_tables default_quota 1 "begin_write empty_tables" "ACCOUNTS two_accounts"]
    by (simp add: sample_start_def begin_write_def two_accounts_def)
  moreover have "owner_ok (key_text key_a)" by (simp add: owner_ok_def key_a_def)
  ultimately show ?thesis
    using roster_step.put [OF _ sample_item_ok(1) sample_put, of 1] roster_reachable.intros by metis
qed


section \<open>Properties\<close>

text \<open>
  C28. Item format. Encoding refuses an item exactly when a string, the group list or the whole record
  does not fit its length field; otherwise decoding gives the item back, the header alone gives its
  subscription, and the size computed in advance for the quota is the size written.
\<close>
theorem item_roundtrip:
  assumes "item_strs item"
  shows "(if item_fits item
      then \<exists>bs. encode_item item = Inr bs \<and> decode_item (item_jid item) bs = Inr item \<and>
        decode_subscription bs = Inr (subscription item) \<and> encoded_item_size item = Inr (length bs)
      else encode_item item = Inl ValueTooLarge)"
  using decode_item_value [OF assms]
  by (auto simp: encode_item_value encoded_item_size_value item_fits_def)

theorem item_roundtrip_witness:
  "\<exists>bs. encode_item sample_item = Inr bs \<and> decode_item ''b@x'' bs = Inr sample_item"
  using item_roundtrip [of sample_item] sample_item_ok by (auto simp: valid_item_def sample_item_def)

text \<open>
  C11. Stored rosters stay readable. After any sequence of writes by any owners, with accounts coming
  and going and transactions committed or dropped, reading a roster under the quota it was written
  with succeeds. It lists each contact once, in order; each listed item reads back alone; and no
  contact with a subscription is missing.
\<close>
theorem rosters_readable:
  assumes "roster_reachable u quota limit tx" and "quota_usize quota" and "0 < limit" and "owner_ok (key_text owner)"
  shows "\<exists>items. roster u (work tx) owner quota =
      Inr \<lparr>snapshot_version = roster_version (work tx) owner, snapshot_items = items\<rparr> \<and>
    sorted (map item_jid items) \<and> distinct (map item_jid items) \<and>
    (\<forall>item \<in> set items. roster_item (work tx) owner (item_jid item) quota = Inr (Some item)) \<and>
    (\<forall>jid. roster_subscription (work tx) owner jid \<noteq> Inr None \<longrightarrow> jid \<in> item_jid ` set items)"
proof -
  let ?t = "work tx" and ?rows = "bt_range (in_owner_range (key_text owner)) (ITEMS (work tx))"
  have ok: "items_ok u quota (ITEMS ?t)" using store_ok_reachable [OF assms(1-3)] by (simp add: store_ok_def)
  from roster_stored [OF ok assms(4,2)] obtain items where
    r: "roster u ?t owner quota = Inr \<lparr>snapshot_version = roster_version ?t owner, snapshot_items = items\<rparr>"
    and all: "list_all2 (\<lambda>(key, v) item. stored_item u (key_text owner) item key v) ?rows items" by blast
  note jids = stored_rows_jids [OF all]
  have "sorted (map item_jid items)" "distinct (map item_jid items)"
    using table.sorted_scan [of "in_owner_range (key_text owner)" "ITEMS ?t"]
      table.distinct_scan [of "in_owner_range (key_text owner)" "ITEMS ?t"]
    unfolding jids by (rule key_lists)+
  moreover have "roster_item ?t owner (item_jid item) quota = Inr (Some item)" if "item \<in> set items" for item
    using stored_rows_set [OF all that] roster_item_stored [OF ok assms(4,2), of item]
    by (simp add: table.set_scan item_key_def)
  moreover have "jid \<in> item_jid ` set items" if "roster_subscription ?t owner jid \<noteq> Inr None" for jid
  proof -
    from that have "item_key_text (key_text owner) jid \<in> fst ` set ?rows"
      by (force simp: roster_subscription_def table.set_scan item_key_def split: option.splits)
    also have "fst ` set ?rows = item_key_text (key_text owner) ` item_jid ` set items"
      using arg_cong [OF jids, of set] by (simp add: image_image)
    finally show ?thesis by auto
  qed
  ultimately show ?thesis using r by blast
qed

theorem rosters_readable_witness:
  "\<exists>items. roster ascii_tables (work sample_roster) key_a default_quota =
     Inr \<lparr>snapshot_version = roster_version (work sample_roster) key_a, snapshot_items = items\<rparr> \<and>
   ''b@x'' \<in> item_jid ` set items"
proof -
  have "owner_ok (key_text key_a)" by (simp add: owner_ok_def key_a_def)
  moreover have "roster_subscription (work sample_roster) key_a ''b@x'' \<noteq> Inr None"
    by (simp add: roster_subscription_def sample_roster_def)
  ultimately show ?thesis using rosters_readable [OF sample_roster_reachable default_quota_usize, of key_a] by auto
qed

text \<open>
  C15. The quota is exact. For an existing owner and an item that fits its format, a write is accepted
  exactly when it does not grow an existing row or leaves the owner within both limits; it is refused
  with \<open>QuotaExceeded\<close> otherwise. An owner within the quota stays within it.
\<close>
theorem quota_exact:
  fixes owner item tx
  defines "key \<equiv> item_key owner (item_jid item)" and "items \<equiv> ITEMS (work tx)"
  assumes "quota_usize quota" and "item_fits item" and "account_exists tx (key_text owner)"
    and "length (item_groups item) \<le> MAX_GROUPS_PER_ITEM" and "length key + length (item_bytes item) \<le> max_of 64"
    and "roster_version (work tx) owner < max_of 64"
  shows "(if (\<exists>old. fmlookup items key = Some old \<and> length (item_bytes item) \<le> length old) \<or>
        within_quota quota (key_text owner) (fmupd key (item_bytes item) items)
      then \<exists>tx'. put_roster_item owner item quota tx = Inr (roster_version (work tx) owner + 1, tx') \<and>
        (within_quota quota (key_text owner) items \<longrightarrow> within_quota quota (key_text owner) (ITEMS (work tx')))
      else put_roster_item owner item quota tx = Inl QuotaExceeded)"
proof -
  have range: "in_owner_range (key_text owner) key" by (simp add: key_def item_key_def)
  note exact = admit_item_exact [OF assms(3) range, of items "item_bytes item"]
  have size: "encoded_item_size item = Inr (length (item_bytes item))"
    using assms(4) by (simp add: encoded_item_size_value item_fits_def)
  show ?thesis
  proof (cases "(\<exists>old. fmlookup items key = Some old \<and> length (item_bytes item) \<le> length old) \<or>
      within_quota quota (key_text owner) (fmupd key (item_bytes item) items)")
    case True
    then have admit: "admit_item items (key_text owner) key (length (item_bytes item)) quota = Inr ()"
      using assms(7) by (auto simp: exact)
    from True have "within_quota quota (key_text owner) (fmupd key (item_bytes item) items)"
      if "within_quota quota (key_text owner) items"
    proof
      assume "\<exists>old. fmlookup items key = Some old \<and> length (item_bytes item) \<le> length old"
      then obtain old where "fmlookup items key = Some old" "length (item_bytes item) \<le> length old" by blast
      with that owner_usage_old [OF range this(1)] owner_usage_put [OF range, of "item_bytes item" items]
      show ?thesis by (simp add: within_quota_def)
    qed
    with True admit assms(3-6,8) show ?thesis
      by (simp add: put_roster_item_Inr key_def items_def Suc_le_eq)
  next
    case False
    then have "admit_item items (key_text owner) key (length (item_bytes item)) quota = Inl QuotaExceeded"
      by (auto simp: exact option.pred_set)
    with False assms(5,6) size show ?thesis
      by (simp add: put_roster_item_def Let_def key_def items_def)
  qed
qed

theorem quota_exact_witness:
  "(\<exists>tx'. put_roster_item key_a sample_item default_quota sample_roster = Inr (2, tx')) \<and>
   within_quota default_quota ''a@x'' (ITEMS (work sample_roster))"
proof -
  have len: "length (item_key key_a ''b@x'') + length (item_bytes sample_item) \<le> 30"
    by (simp add: item_key_def key_a_def item_key_text_def sample_item_def item_bytes_def name_bytes_def encode_subscription_def)
  have range: "in_owner_range ''a@x'' (item_key key_a ''b@x'')" by (simp add: item_key_def key_a_def)
  have "item_jid sample_item = ''b@x''" "roster_version (work sample_roster) key_a = 1"
    "account_exists sample_roster (key_text key_a)" "length (item_groups sample_item) \<le> MAX_GROUPS_PER_ITEM"
    by (simp_all add: sample_item_def roster_version_def sample_roster_def key_a_def account_exists_def two_accounts_def
        MAX_GROUPS_PER_ITEM_def)
  moreover have "fmlookup (ITEMS (work sample_roster)) (item_key key_a ''b@x'') = Some (item_bytes sample_item)"
    by (simp add: sample_roster_def)
  ultimately have "\<exists>tx'. put_roster_item key_a sample_item default_quota sample_roster = Inr (2, tx')"
    using quota_exact [OF default_quota_usize sample_item_ok(2), of sample_roster key_a] len by (auto simp: max_of_def)
  moreover have "within_quota default_quota ''a@x'' (ITEMS (work sample_roster))"
    using len by (simp add: sample_roster_def within_quota_def owner_usage_put [OF range] default_quota_def)
  ultimately show ?thesis by blast
qed




text \<open>
  C30. A write touches one row. A successful put stores exactly the item, advances the owner's version
  by one and changes no other row of any table; replacing the subscription header afterwards keeps name
  and groups and never decodes or loses them.
\<close>
theorem put_and_transition_exact:
  assumes "quota_usize quota" and "item_strs item"
    and "put_roster_item owner item quota tx = Inr (v, tx')"
    and "transition_roster_subscription owner (item_jid item) (subscription item) new (begin_write (commit tx')) = Inr (n, tx'')"
  shows "v = roster_version (work tx) owner + 1 \<and>
    roster_subscription (work tx') owner (item_jid item) = Inr (Some (subscription item)) \<and>
    (\<forall>key. key \<noteq> item_key owner (item_jid item) \<longrightarrow> fmlookup (ITEMS (work tx'')) key = fmlookup (ITEMS (work tx)) key) \<and>
    (\<forall>key. key \<noteq> key_text owner \<longrightarrow> fmlookup (VERSIONS (work tx'')) key = fmlookup (VERSIONS (work tx)) key) \<and>
    ACCOUNTS (work tx'') = ACCOUNTS (work tx) \<and> PENDING (work tx'') = PENDING (work tx) \<and>
    (\<exists>row. fmlookup (ITEMS (work tx'')) (item_key owner (item_jid item)) = Some row \<and>
      decode_item (item_jid item) row = Inr (item\<lparr>subscription := new\<rparr>)) \<and>
    n = (if new = subscription item then None else Some (v + 1)) \<and>
    roster_version (work tx'') owner = (case n of None \<Rightarrow> v | Some k \<Rightarrow> k)"
proof -
  let ?key = "item_key owner (item_jid item)"
  from assms(3) have put: "item_fits item" "v = roster_version (work tx) owner + 1"
    "tx' = tx\<lparr>work := (work tx)\<lparr>ITEMS := fmupd ?key (item_bytes item) (ITEMS (work tx)),
       VERSIONS := fmupd (key_text owner) v (VERSIONS (work tx))\<rparr>\<rparr>"
    by (auto simp: put_roster_item_Inr [OF assms(1)])
  have new: "decode_item (item_jid item) (item_bytes (item\<lparr>subscription := new\<rparr>)) = Inr (item\<lparr>subscription := new\<rparr>)"
    using decode_item_value [of "item\<lparr>subscription := new\<rparr>"] assms(2) put(1)
    by (simp add: item_strs_def item_fits_def item_bytes_def encode_subscription_def)
  have "item = item\<lparr>subscription := subscription item\<rparr>" by simp
  then show ?thesis
    using assms(4) put new
    by (auto simp: transition_roster_subscription_def run_with_snapshot_def copy_subscription_def begin_write_def commit_def
        roster_subscription_def roster_version_def advance_version_Inr item_bytes_header split: if_splits)
qed

theorem put_and_transition_exact_witness:
  "\<exists>tx''. transition_roster_subscription key_a ''b@x'' (subscription sample_item) default_subscription
       (begin_write (commit sample_roster)) = Inr (Some 2, tx'') \<and>
     roster_version (work tx'') key_a = 2"
proof -
  have "\<exists>tx''. transition_roster_subscription key_a ''b@x'' (subscription sample_item) default_subscription
       (begin_write (commit sample_roster)) = Inr (Some 2, tx'')"
    by (simp add: transition_roster_subscription_def run_with_snapshot_def copy_subscription_def begin_write_def commit_def
        sample_roster_def account_exists_def two_accounts_def key_a_def advance_version_def max_of_def)
      (simp add: sample_item_def default_subscription_def checked_add_def max_of_def)
  then obtain tx'' where tx'': "transition_roster_subscription key_a (item_jid sample_item) (subscription sample_item)
      default_subscription (begin_write (commit sample_roster)) = Inr (Some 2, tx'')"
    by (auto simp: sample_item_def)
  have "item_strs sample_item" using sample_item_ok(1) by (simp add: valid_item_def)
  from put_and_transition_exact [OF default_quota_usize this sample_put tx''] tx'' show ?thesis
    by (auto simp: sample_item_def)
qed

text \<open>
  C31. Clearing a roster removes exactly one owner's data: afterwards that owner has no items, no pending
  requests and no version, and every row of every other owner is unchanged.
\<close>
theorem clear_exact:
  assumes "owner_ok (key_text owner)" and "owner_ok (key_text other)" and "key_text other \<noteq> key_text owner"
  shows "roster_subscription (work (clear_roster owner tx)) owner jid = Inr None \<and>
    \<not> pending_request_exists (work (clear_roster owner tx)) owner jid \<and>
    roster_version (work (clear_roster owner tx)) owner = 0 \<and>
    roster u (work (clear_roster owner tx)) owner quota = Inr \<lparr>snapshot_version = 0, snapshot_items = []\<rparr> \<and>
    roster u (work (clear_roster owner tx)) other quota = roster u (work tx) other quota \<and>
    pending_requests u (work (clear_roster owner tx)) other = pending_requests u (work tx) other"
proof -
  let ?o = "key_text owner" and ?p = "key_text other"
  have gone: "bt_range (in_owner_range ?o) (retain_in (in_owner_range ?o) t) = []" for t :: "(string, bytes) fmap"
  proof -
    have "set (bt_range (in_owner_range ?o) (retain_in (in_owner_range ?o) t)) = {}"
      unfolding table.set_scan by (auto simp: table.get_keep)
    then show ?thesis by simp
  qed
  have kept: "bt_range (in_owner_range ?p) (retain_in (in_owner_range ?o) t) = bt_range (in_owner_range ?p) t"
    for t :: "(string, bytes) fmap"
  proof (rule table.scan_cong)
    fix k assume "in_owner_range ?p k"
    then have "\<not> in_owner_range ?o k"
      using assms item_key_owner [of ?o ?p] by (auto simp: in_owner_range_iff owner_ok_def)
    then show "fmlookup (retain_in (in_owner_range ?o) t) k = fmlookup t k" by (simp add: table.get_keep)
  qed
  show ?thesis
    using assms(3)
    by (simp add: clear_roster_def Let_def roster_subscription_def pending_request_exists_def roster_version_def roster_def
        pending_requests_def gone kept item_key_def table.get_keep)
qed

theorem clear_exact_witness:
  "roster ascii_tables (work (clear_roster key_a sample_roster)) key_a default_quota =
     Inr \<lparr>snapshot_version = 0, snapshot_items = []\<rparr>"
  using clear_exact [of key_a "\<lparr>key_text = ''b@x'', username_len = 1\<rparr>" sample_roster "[]" ascii_tables default_quota]
  by (simp add: owner_ok_def key_a_def)

end
