(* ===== verification/Content_Stores.thy ===== *)
theory Content_Stores
  imports Roster_Store
begin

text \<open>
  The stores that keep content for an account: offline messages (\<open>lonewolf-storage/src/offline\<close>),
  private XML (\<open>private\<close>) and vCards (\<open>vcard\<close>), and the contract every store gives to account
  deletion: forgetting an owner removes all of that owner's rows and no other row.

  \<open>redb_max\<close> is the largest value redb accepts; it answers \<open>ValueTooLarge\<close> beyond it.
\<close>

section \<open>Definitions\<close>

subsection \<open>Offline messages\<close>

record StoredMessage =
  sequence :: nat
  stored_at :: nat
  message :: bytes

datatype OfflineError = OfflineNoAccount | OfflineTooLarge | OfflineStorage StorageErrorKind

definition message_range :: "string \<Rightarrow> nat \<Rightarrow> string \<times> nat \<Rightarrow> bool" where
  "message_range owner through key \<longleftrightarrow> (owner, 0) \<le> key \<and> key \<le> (owner, through)"

fun read_rows :: "((string \<times> nat) \<times> bytes) list \<Rightarrow> (OfflineError, StoredMessage list) result" where
  "read_rows [] = Inr []"
| "read_rows ((key, record) # rows) =
     ok_then (ok_or (OfflineStorage CorruptData) (split_first_chunk 8 record)) (\<lambda>(at, body).
     ok_then (read_rows rows) (\<lambda>messages.
       Inr (\<lparr>sequence = snd key, stored_at = from_be_bytes at, message = body\<rparr> # messages)))"

definition read_messages :: "(string \<times> nat, bytes) fmap \<Rightarrow> string \<Rightarrow> (OfflineError, StoredMessage list) result" where
  "read_messages t owner = read_rows (bt_range (message_range owner (max_of 64)) t)"

definition offline_messages :: "Tables \<Rightarrow> AccountKey \<Rightarrow> (OfflineError, StoredMessage list) result" where
  "offline_messages t owner = read_messages (MESSAGES t) (key_text owner)"

definition offline_count :: "Tables \<Rightarrow> AccountKey \<Rightarrow> nat" where
  "offline_count t owner = length (bt_range (message_range (key_text owner) (max_of 64)) (MESSAGES t))"

definition push_offline_message :: "nat \<Rightarrow> AccountKey \<Rightarrow> nat \<Rightarrow> bytes \<Rightarrow> (OfflineError, nat) txn" where
  "push_offline_message redb_max owner at body tx =
     (let acc = key_text owner; t = work tx in
      if \<not> account_exists tx acc then Inl OfflineNoAccount
      else
        ok_then (ok_or OfflineTooLarge (checked_add 64 (case fmlookup (SEQUENCES t) acc of None \<Rightarrow> 0 | Some n \<Rightarrow> n) 1)) (\<lambda>next.
        ok_then (ok_or OfflineTooLarge (checked_add 64 8 (length body))) (\<lambda>len.
          if redb_max < len then Inl OfflineTooLarge
          else Inr (next, tx\<lparr>work := t\<lparr>MESSAGES := fmupd (acc, next) (to_be_bytes 8 at @ body) (MESSAGES t),
                 SEQUENCES := fmupd acc next (SEQUENCES t)\<rparr>\<rparr>))))"

definition remove_offline_messages_through :: "AccountKey \<Rightarrow> nat \<Rightarrow> RedbWrite \<Rightarrow> nat \<times> RedbWrite" where
  "remove_offline_messages_through owner through tx =
     (let t = work tx; within = message_range (key_text owner) through in
      (length (bt_range within (MESSAGES t)), tx\<lparr>work := t\<lparr>MESSAGES := retain_in within (MESSAGES t)\<rparr>\<rparr>))"

definition remove_offline_message :: "AccountKey \<Rightarrow> nat \<Rightarrow> RedbWrite \<Rightarrow> bool \<times> RedbWrite" where
  "remove_offline_message owner seq tx =
     (let t = work tx; key = (key_text owner, seq) in
      (fmlookup (MESSAGES t) key \<noteq> None, tx\<lparr>work := t\<lparr>MESSAGES := fmdrop key (MESSAGES t)\<rparr>\<rparr>))"

definition clear_offline_messages :: "AccountKey \<Rightarrow> RedbWrite \<Rightarrow> RedbWrite" where
  "clear_offline_messages owner tx =
     (let t = work tx in
      tx\<lparr>work := t\<lparr>MESSAGES := retain_in (message_range (key_text owner) (max_of 64)) (MESSAGES t),
        SEQUENCES := fmdrop (key_text owner) (SEQUENCES t)\<rparr>\<rparr>)"

subsection \<open>Private XML\<close>

record PrivateXmlQuota =
  xml_max_items :: nat
  xml_max_bytes :: nat

definition default_xml_quota :: PrivateXmlQuota where
  "default_xml_quota = \<lparr>xml_max_items = 50, xml_max_bytes = 2097152\<rparr>"

record PrivateXmlChange =
  namespace :: string
  element_name :: string
  xml :: "string option"

datatype PrivateXmlError = XmlNoAccount | XmlQuotaExceeded | XmlStorage StorageErrorKind

record ElementKey =
  element_text :: string
  owner_len :: nat
  namespace_len :: nat

definition new_element_key :: "string \<Rightarrow> string \<Rightarrow> string \<Rightarrow> ElementKey" where
  "new_element_key owner ns name =
     \<lparr>element_text = owner @ ns @ name, owner_len = length owner, namespace_len = length owner + length ns\<rparr>"

definition element_parts :: "ElementKey \<Rightarrow> string \<times> string \<times> string" where
  "element_parts k = (take (owner_len k) (element_text k),
     drop (owner_len k) (take (namespace_len k) (element_text k)), drop (namespace_len k) (element_text k))"

definition owner_end :: "string \<Rightarrow> string" where
  "owner_end owner = owner @ [CHR 0x00]"

definition element_range :: "string \<Rightarrow> string \<times> string \<times> string \<Rightarrow> bool" where
  "element_range owner key \<longleftrightarrow> (owner, [], []) \<le> key \<and> key < (owner_end owner, [], [])"

fun usage_rows :: "('k \<times> bytes) list \<Rightarrow> nat \<Rightarrow> nat \<Rightarrow> (PrivateXmlError, nat \<times> nat) result" where
  "usage_rows [] items tally = Inr (items, tally)"
| "usage_rows ((_, value) # rows) items tally =
     ok_then (ok_or (XmlStorage CorruptData) (checked_add 64 items 1)) (\<lambda>items.
     ok_then (ok_or (XmlStorage CorruptData) (checked_add 64 tally (length value))) (\<lambda>tally.
       usage_rows rows items tally))"

definition usage :: "(string \<times> string \<times> string, bytes) fmap \<Rightarrow> string \<Rightarrow> (PrivateXmlError, nat \<times> nat) result" where
  "usage t owner = usage_rows (bt_range (element_range owner) t) 0 0"

definition read_private_record :: "bytes \<Rightarrow> (PrivateXmlError, string) result" where
  "read_private_record bs = ok_or (XmlStorage CorruptData) (from_utf8 bs)"

definition private_xml :: "Tables \<Rightarrow> AccountKey \<Rightarrow> string \<Rightarrow> string \<Rightarrow> (PrivateXmlError, string option) result" where
  "private_xml t owner ns name =
     (case fmlookup (ELEMENTS t) (element_parts (new_element_key (key_text owner) ns name)) of
        None \<Rightarrow> Inr None
      | Some record \<Rightarrow> ok_then (read_private_record record) (\<lambda>s. Inr (Some s)))"

definition last_changes :: "string \<Rightarrow> PrivateXmlChange list \<Rightarrow> (string \<times> string \<times> string, string option) fmap" where
  "last_changes owner changes =
     fold (\<lambda>c. fmupd (element_parts (new_element_key owner (namespace c) (element_name c))) (xml c)) changes fmempty"

fun planned_usage :: "(string \<times> string \<times> string, bytes) fmap \<Rightarrow> ((string \<times> string \<times> string) \<times> string option) list
    \<Rightarrow> nat \<Rightarrow> nat \<Rightarrow> (PrivateXmlError, nat \<times> nat) result" where
  "planned_usage t [] items tally = Inr (items, tally)"
| "planned_usage t ((key, new) # rows) items tally =
     ok_then (case fmlookup t key of
         None \<Rightarrow> Inr (items, tally)
       | Some old \<Rightarrow>
           ok_then (ok_or (XmlStorage CorruptData) (checked_sub items 1)) (\<lambda>items.
           ok_then (ok_or (XmlStorage CorruptData) (checked_sub tally (length old))) (\<lambda>tally. Inr (items, tally)))) (\<lambda>(items, tally).
     ok_then (case new of
         None \<Rightarrow> Inr (items, tally)
       | Some s \<Rightarrow>
           ok_then (ok_or XmlQuotaExceeded (checked_add 64 items 1)) (\<lambda>items.
           ok_then (ok_or XmlQuotaExceeded (checked_add 64 tally (length s))) (\<lambda>tally. Inr (items, tally)))) (\<lambda>(items, tally).
       planned_usage t rows items tally))"

definition apply_change :: "(string \<times> string \<times> string) \<times> string option \<Rightarrow> (string \<times> string \<times> string, bytes) fmap
    \<Rightarrow> (string \<times> string \<times> string, bytes) fmap" where
  "apply_change change t =
     (case snd change of Some s \<Rightarrow> fmupd (fst change) (as_bytes s) t | None \<Rightarrow> fmdrop (fst change) t)"

definition update_private_xml :: "AccountKey \<Rightarrow> PrivateXmlChange list \<Rightarrow> PrivateXmlQuota \<Rightarrow> (PrivateXmlError, unit) txn" where
  "update_private_xml owner changes quota tx =
     (let acc = key_text owner; t = ELEMENTS (work tx) in
      if \<not> account_exists tx acc then Inl XmlNoAccount
      else
        (let latest = bt_entries (last_changes acc changes) in
         ok_then (usage t acc) (\<lambda>(before_items, before_bytes).
         ok_then (planned_usage t latest before_items before_bytes) (\<lambda>(items, tally).
           if xml_max_items quota < items \<and> before_items < items \<or> xml_max_bytes quota < tally \<and> before_bytes < tally
           then Inl XmlQuotaExceeded
           else Inr ((), tx\<lparr>work := (work tx)\<lparr>ELEMENTS := fold apply_change latest t\<rparr>\<rparr>)))))"

definition clear_private_xml :: "AccountKey \<Rightarrow> RedbWrite \<Rightarrow> RedbWrite" where
  "clear_private_xml owner tx =
     tx\<lparr>work := (work tx)\<lparr>ELEMENTS := retain_in (element_range (key_text owner)) (ELEMENTS (work tx))\<rparr>\<rparr>"

subsection \<open>vCards\<close>

definition MAX_VCARD_BYTES :: nat where
  "MAX_VCARD_BYTES = 1048576"

definition default_vcard_quota :: nat where
  "default_vcard_quota = 262144"

datatype VCardError = VCardNoAccount | VCardQuotaExceeded | VCardStorage StorageErrorKind

definition read_vcard_record :: "bytes \<Rightarrow> (VCardError, string) result" where
  "read_vcard_record bs =
     (if MAX_VCARD_BYTES < length bs then Inl (VCardStorage CorruptData)
      else ok_or (VCardStorage CorruptData) (from_utf8 bs))"

definition vcard :: "Tables \<Rightarrow> AccountKey \<Rightarrow> (VCardError, string option) result" where
  "vcard t owner =
     (case fmlookup (VCARDS t) (key_text owner) of
        None \<Rightarrow> Inr None
      | Some record \<Rightarrow> ok_then (read_vcard_record record) (\<lambda>s. Inr (Some s)))"

definition replace_vcard :: "nat \<Rightarrow> AccountKey \<Rightarrow> string \<Rightarrow> nat \<Rightarrow> (VCardError, unit) txn" where
  "replace_vcard redb_max owner content quota tx =
     (if quota < length content \<or> MAX_VCARD_BYTES < length content then Inl VCardQuotaExceeded
      else if \<not> account_exists tx (key_text owner) then Inl VCardNoAccount
      else if redb_max < length content then Inl VCardQuotaExceeded
      else Inr ((), tx\<lparr>work := (work tx)\<lparr>VCARDS := fmupd (key_text owner) (as_bytes content) (VCARDS (work tx))\<rparr>\<rparr>))"

definition delete_vcard :: "AccountKey \<Rightarrow> RedbWrite \<Rightarrow> RedbWrite" where
  "delete_vcard owner tx = tx\<lparr>work := (work tx)\<lparr>VCARDS := fmdrop (key_text owner) (VCARDS (work tx))\<rparr>\<rparr>"


section \<open>Forgetting an owner\<close>

text \<open>
  What account deletion relies on: each store can forget an owner. \<open>rows\<close> is everything a store holds
  for an owner, \<open>blank\<close> what it holds for one it never saw.
\<close>

locale owner_store =
  fixes rows :: "Tables \<Rightarrow> string \<Rightarrow> 'r" and blank :: 'r and forget :: "AccountKey \<Rightarrow> RedbWrite \<Rightarrow> RedbWrite"
  assumes forgotten: "rows (work (forget owner tx)) (key_text owner) = blank"
    and kept: "owner_ok (key_text owner) \<Longrightarrow> owner_ok other \<Longrightarrow> other \<noteq> key_text owner \<Longrightarrow>
      rows (work (forget owner tx)) other = rows (work tx) other"
    and snapshot_kept: "committed (forget owner tx) = committed tx"
begin

lemma forget_all:
  assumes "\<forall>k \<in> set owners. owner_ok (key_text k)" and "owner_ok other"
  shows "rows (work (fold forget owners tx)) other =
    (if other \<in> key_text ` set owners then blank else rows (work tx) other)"
  using assms by (induction owners arbitrary: tx) (auto simp: forgotten kept)

end

definition roster_rows :: "Tables \<Rightarrow> string \<Rightarrow> (string \<times> bytes) list \<times> (string \<times> bytes) list \<times> nat option" where
  "roster_rows t owner = (bt_range (in_owner_range owner) (ITEMS t), bt_range (in_owner_range owner) (PENDING t),
     fmlookup (VERSIONS t) owner)"

definition offline_rows :: "Tables \<Rightarrow> string \<Rightarrow> ((string \<times> nat) \<times> bytes) list \<times> nat option" where
  "offline_rows t owner = (bt_range (message_range owner (max_of 64)) (MESSAGES t), fmlookup (SEQUENCES t) owner)"

definition private_rows :: "Tables \<Rightarrow> string \<Rightarrow> ((string \<times> string \<times> string) \<times> bytes) list" where
  "private_rows t owner = bt_range (element_range owner) (ELEMENTS t)"

definition vcard_row :: "Tables \<Rightarrow> string \<Rightarrow> bytes option" where
  "vcard_row t owner = fmlookup (VCARDS t) owner"

lemma retain_empty: "bt_range P (retain_in P t) = []"
  by (simp add: table.scan_keep filter_empty_conv) (auto simp: table.set_scan)

lemma retain_other:
  assumes "\<And>k. P k \<Longrightarrow> \<not> Q k"
  shows "bt_range P (retain_in Q t) = bt_range P t"
  by (rule table.scan_cong) (use assms in \<open>simp add: table.get_keep\<close>)

lemma owner_ranges_disjoint:
  assumes "owner_ok owner" and "owner_ok other" and "other \<noteq> owner" and "in_owner_range other k"
  shows "\<not> in_owner_range owner k"
  using assms item_key_owner [of owner other] by (auto simp: in_owner_range_iff owner_ok_def)

lemma message_range_iff: "message_range owner n key \<longleftrightarrow> fst key = owner \<and> snd key \<le> n"
  by (cases key) (auto simp: message_range_def)

lemma less_owner_end: "s < owner @ [CHR 0x00] \<longleftrightarrow> s \<le> (owner :: string)"
proof (induction owner arbitrary: s)
  case Nil
  have "\<not> c < CHR 0x00" for c :: char using nul_least(1) by (simp add: not_less)
  then show ?case by (cases s) auto
next
  case (Cons c owner)
  show ?case by (cases s) (simp_all add: Cons.IH)
qed

lemma element_range_iff: "element_range owner key \<longleftrightarrow> fst key = owner"
proof -
  obtain s ns name where key: "key = (s, ns, name)" by (cases key)
  have "s < owner_end owner \<longleftrightarrow> s \<le> owner" by (simp add: owner_end_def less_owner_end)
  then show ?thesis by (auto simp: key element_range_def owner_end_def)
qed

interpretation roster_store: owner_store roster_rows "([], [], None)" clear_roster
  by unfold_locales
    (auto simp: roster_rows_def clear_roster_def Let_def retain_empty intro!: retain_other dest: owner_ranges_disjoint)

interpretation offline_store: owner_store offline_rows "([], None)" clear_offline_messages
  by unfold_locales
    (auto simp: offline_rows_def clear_offline_messages_def Let_def retain_empty message_range_iff intro!: retain_other)

interpretation private_store: owner_store private_rows "[]" clear_private_xml
  by unfold_locales (auto simp: private_rows_def clear_private_xml_def retain_empty element_range_iff intro!: retain_other)

interpretation vcard_store: owner_store vcard_row None delete_vcard
  by unfold_locales (auto simp: vcard_row_def delete_vcard_def)


section \<open>Mailboxes\<close>

text \<open>
  The contract of offline storage: per owner a counter and a list of messages. Pushing appends with
  the next number; removing filters; the counter never goes back unless the owner is forgotten.
\<close>

datatype offline_op = Push AccountKey nat bytes | RemoveThrough AccountKey nat | RemoveOne AccountKey nat | Forget AccountKey

type_synonym mailboxes = "string \<Rightarrow> nat \<times> StoredMessage list"

definition exec_offline :: "nat \<Rightarrow> offline_op \<Rightarrow> RedbWrite \<Rightarrow> RedbWrite" where
  "exec_offline redb_max op tx =
     (case op of
        Push owner at body \<Rightarrow> (case push_offline_message redb_max owner at body tx of Inl _ \<Rightarrow> tx | Inr (_, tx') \<Rightarrow> tx')
      | RemoveThrough owner n \<Rightarrow> snd (remove_offline_messages_through owner n tx)
      | RemoveOne owner n \<Rightarrow> snd (remove_offline_message owner n tx)
      | Forget owner \<Rightarrow> clear_offline_messages owner tx)"

definition accepts :: "nat \<Rightarrow> (string, bytes) fmap \<Rightarrow> string \<Rightarrow> nat \<Rightarrow> bytes \<Rightarrow> bool" where
  "accepts redb_max accs acc n body \<longleftrightarrow>
     fmlookup accs acc \<noteq> None \<and> n < max_of 64 \<and> 8 + length body \<le> max_of 64 \<and> 8 + length body \<le> redb_max"

definition spec_offline :: "nat \<Rightarrow> (string, bytes) fmap \<Rightarrow> offline_op \<Rightarrow> mailboxes \<Rightarrow> mailboxes" where
  "spec_offline redb_max accs op m =
     (case op of
        Push owner at body \<Rightarrow>
          (let acc = key_text owner; (n, msgs) = m acc in
           if accepts redb_max accs acc n body
           then m(acc := (n + 1, msgs @ [\<lparr>sequence = n + 1, stored_at = at, message = body\<rparr>])) else m)
      | RemoveThrough owner k \<Rightarrow>
          m(key_text owner := (fst (m (key_text owner)), filter (\<lambda>x. k < sequence x) (snd (m (key_text owner)))))
      | RemoveOne owner k \<Rightarrow>
          m(key_text owner := (fst (m (key_text owner)), filter (\<lambda>x. sequence x \<noteq> k) (snd (m (key_text owner)))))
      | Forget owner \<Rightarrow> m(key_text owner := (0, [])))"

fun op_u64 :: "offline_op \<Rightarrow> bool" where
  "op_u64 (Push owner at body) = (at < 2 ^ 64)"
| "op_u64 _ = True"

definition row_message :: "(string \<times> nat) \<times> bytes \<Rightarrow> StoredMessage" where
  "row_message row = \<lparr>sequence = snd (fst row), stored_at = from_be_bytes (take 8 (snd row)), message = drop 8 (snd row)\<rparr>"

definition last_sequence :: "Tables \<Rightarrow> string \<Rightarrow> nat" where
  "last_sequence t acc = (case fmlookup (SEQUENCES t) acc of None \<Rightarrow> 0 | Some n \<Rightarrow> n)"

definition abs_mail :: "Tables \<Rightarrow> mailboxes" where
  "abs_mail t acc = (last_sequence t acc, map row_message (bt_range (message_range acc (max_of 64)) (MESSAGES t)))"

definition mail_ok :: "Tables \<Rightarrow> bool" where
  "mail_ok t \<longleftrightarrow>
     (\<forall>acc n v. fmlookup (MESSAGES t) (acc, n) = Some v \<longrightarrow> n \<le> last_sequence t acc \<and> 8 \<le> length v) \<and>
     (\<forall>acc. last_sequence t acc \<le> max_of 64)"

lemma push_Inr:
  "push_offline_message redb_max owner at body tx = Inr (n, tx') \<longleftrightarrow>
     accepts redb_max (ACCOUNTS (work tx)) (key_text owner) (last_sequence (work tx) (key_text owner)) body \<and>
     n = last_sequence (work tx) (key_text owner) + 1 \<and>
     tx' = tx\<lparr>work := (work tx)\<lparr>MESSAGES := fmupd (key_text owner, n) (to_be_bytes 8 at @ body) (MESSAGES (work tx)),
       SEQUENCES := fmupd (key_text owner) n (SEQUENCES (work tx))\<rparr>\<rparr>"
  by (auto simp: push_offline_message_def Let_def accepts_def account_exists_def last_sequence_def split: if_splits)

definition pushed :: "AccountKey \<Rightarrow> nat \<Rightarrow> bytes \<Rightarrow> Tables \<Rightarrow> Tables" where
  "pushed owner at body t =
     (let acc = key_text owner; n = last_sequence t acc + 1 in
      t\<lparr>MESSAGES := fmupd (acc, n) (to_be_bytes 8 at @ body) (MESSAGES t), SEQUENCES := fmupd acc n (SEQUENCES t)\<rparr>)"

lemma exec_Push:
  "work (exec_offline redb_max (Push owner at body) tx) =
     (if accepts redb_max (ACCOUNTS (work tx)) (key_text owner) (last_sequence (work tx) (key_text owner)) body
      then pushed owner at body (work tx) else work tx)"
proof (cases "accepts redb_max (ACCOUNTS (work tx)) (key_text owner) (last_sequence (work tx) (key_text owner)) body")
  case True
  then have "push_offline_message redb_max owner at body tx =
      Inr (last_sequence (work tx) (key_text owner) + 1, tx\<lparr>work := pushed owner at body (work tx)\<rparr>)"
    by (subst push_Inr) (simp add: pushed_def Let_def)
  with True show ?thesis by (simp add: exec_offline_def)
next
  case False
  then have "push_offline_message redb_max owner at body tx \<noteq> Inr r" for r
    by (cases r) (simp add: push_Inr)
  then obtain e where "push_offline_message redb_max owner at body tx = Inl e"
    by (cases "push_offline_message redb_max owner at body tx") auto
  with False show ?thesis by (simp add: exec_offline_def)
qed

lemma last_sequence_pushed:
  "last_sequence (pushed owner at body t) acc = (if acc = key_text owner then last_sequence t acc + 1 else last_sequence t acc)"
  by (simp add: last_sequence_def pushed_def Let_def)

lemma read_rows_messages:
  "\<forall>row \<in> set rows. 8 \<le> length (snd row) \<Longrightarrow> read_rows rows = Inr (map row_message rows)"
  by (induction rows rule: read_rows.induct) (simp_all add: split_first_chunk_def row_message_def)

lemma mail_readable:
  assumes "mail_ok t"
  shows "offline_messages t owner = Inr (snd (abs_mail t (key_text owner)))"
proof -
  have "\<forall>row \<in> set (bt_range (message_range (key_text owner) (max_of 64)) (MESSAGES t)). 8 \<le> length (snd row)"
    using assms by (auto simp: table.set_scan mail_ok_def)
  then show ?thesis by (simp add: offline_messages_def read_messages_def abs_mail_def read_rows_messages)
qed

lemma exec_accounts [simp]: "ACCOUNTS (work (exec_offline redb_max op tx)) = ACCOUNTS (work tx)"
proof (cases op)
  case (Push owner at body)
  show ?thesis unfolding Push exec_Push by (simp add: pushed_def Let_def)
qed (simp_all add: exec_offline_def remove_offline_messages_through_def remove_offline_message_def
    clear_offline_messages_def Let_def)

lemma mail_ok_pushed:
  assumes "mail_ok t" and "last_sequence t (key_text owner) < max_of 64"
  shows "mail_ok (pushed owner at body t)"
proof -
  have "n \<le> last_sequence (pushed owner at body t) acc \<and> 8 \<le> length v"
    if "fmlookup (MESSAGES (pushed owner at body t)) (acc, n) = Some v" for acc n v
  proof (cases "(acc, n) = (key_text owner, last_sequence t (key_text owner) + 1)")
    case True
    with that show ?thesis by (auto simp: last_sequence_pushed) (auto simp: pushed_def Let_def)
  next
    case False
    with that have "fmlookup (MESSAGES t) (acc, n) = Some v" by (auto simp: pushed_def Let_def split: if_splits)
    with assms(1) show ?thesis by (auto simp: mail_ok_def last_sequence_pushed intro: le_SucI)
  qed
  moreover have "last_sequence (pushed owner at body t) acc \<le> max_of 64" for acc
    using assms by (simp add: last_sequence_pushed mail_ok_def)
  ultimately show ?thesis unfolding mail_ok_def by blast
qed

lemma mail_ok_exec:
  assumes "mail_ok (work tx)"
  shows "mail_ok (work (exec_offline redb_max op tx))"
proof (cases op)
  case (Push owner at body)
  show ?thesis unfolding Push exec_Push using assms by (auto simp: accepts_def intro: mail_ok_pushed)
next
  case (RemoveThrough owner n)
  then show ?thesis
    using assms
    by (auto simp: exec_offline_def remove_offline_messages_through_def Let_def mail_ok_def last_sequence_def table.get_keep
        split: if_splits)
next
  case (RemoveOne owner n)
  then show ?thesis
    using assms
    by (auto simp: exec_offline_def remove_offline_message_def Let_def mail_ok_def last_sequence_def split: if_splits)
next
  case (Forget owner)
  have n: "fmlookup (MESSAGES (work tx)) (acc, n) = None" if "\<not> n \<le> max_of 64" for acc n
    using assms that unfolding mail_ok_def by (metis not_None_eq order_trans)
  show ?thesis
    using assms n
    by (auto simp: exec_offline_def Forget clear_offline_messages_def Let_def mail_ok_def last_sequence_def table.get_keep
        message_range_iff split: if_splits)
qed


lemma mail_range: "mail_ok t \<Longrightarrow> fmlookup (MESSAGES t) (acc, n) = Some v \<Longrightarrow> n \<le> last_sequence t acc \<and> n \<le> max_of 64"
  unfolding mail_ok_def by (meson order_trans)

lemma abs_pushed:
  assumes "mail_ok t" and "last_sequence t (key_text owner) < max_of 64" and "at < 2 ^ 64"
  shows "abs_mail (pushed owner at body t) = (abs_mail t)(key_text owner :=
    (last_sequence t (key_text owner) + 1, snd (abs_mail t (key_text owner)) @
      [\<lparr>sequence = last_sequence t (key_text owner) + 1, stored_at = at, message = body\<rparr>]))"
proof
  fix acc
  let ?n = "last_sequence t (key_text owner) + 1" and ?P = "message_range acc (max_of 64)"
  have bytes: "row_message ((key_text owner, ?n), to_be_bytes 8 at @ body) = \<lparr>sequence = ?n, stored_at = at, message = body\<rparr>"
    using assms(3) by (simp add: row_message_def from_to_be_bytes)
  show "abs_mail (pushed owner at body t) acc = ((abs_mail t)(key_text owner :=
    (?n, snd (abs_mail t (key_text owner)) @ [\<lparr>sequence = ?n, stored_at = at, message = body\<rparr>]))) acc"
  proof (cases "acc = key_text owner")
    case True
    have "bt_range ?P (MESSAGES (pushed owner at body t)) =
        bt_range ?P (MESSAGES t) @ [((key_text owner, ?n), to_be_bytes 8 at @ body)]"
      unfolding pushed_def Let_def using assms(2)
      by (simp, intro table.scan_append)
        (auto simp: message_range_iff True less_Suc_eq_le dest: mail_range [OF assms(1)])
    then show ?thesis using bytes by (simp add: abs_mail_def last_sequence_pushed True)
  next
    case False
    have "bt_range ?P (MESSAGES (pushed owner at body t)) = bt_range ?P (MESSAGES t)"
      by (rule table.scan_cong) (use False in \<open>auto simp: pushed_def Let_def message_range_iff\<close>)
    with False show ?thesis by (simp add: abs_mail_def last_sequence_pushed)
  qed
qed

lemma range_filter:
  assumes "\<And>k. message_range acc (max_of 64) k \<Longrightarrow> keep k \<longleftrightarrow> Q (snd k)"
  shows "map row_message (filter (\<lambda>e. keep (fst e)) (bt_range (message_range acc (max_of 64)) t)) =
    filter (\<lambda>m. Q (sequence m)) (map row_message (bt_range (message_range acc (max_of 64)) t))"
proof -
  have "filter (\<lambda>e. keep (fst e)) (bt_range (message_range acc (max_of 64)) t) =
      filter (\<lambda>e. Q (snd (fst e))) (bt_range (message_range acc (max_of 64)) t)"
    by (rule filter_cong) (auto simp: table.set_scan assms)
  then show ?thesis by (simp add: filter_map comp_def row_message_def)
qed

lemma abs_exec:
  assumes "mail_ok (work tx)" and "op_u64 op"
  shows "abs_mail (work (exec_offline redb_max op tx)) = spec_offline redb_max (ACCOUNTS (work tx)) op (abs_mail (work tx))"
proof (cases op)
  case (Push owner at body)
  have "fst (abs_mail (work tx) (key_text owner)) = last_sequence (work tx) (key_text owner)" by (simp add: abs_mail_def)
  with assms show ?thesis
    unfolding Push exec_Push
    by (auto simp: spec_offline_def abs_pushed accepts_def Let_def split: prod.splits)
next
  case (RemoveThrough owner n)
  have same: "map row_message (filter (\<lambda>e. \<not> message_range (key_text owner) n (fst e))
        (bt_range (message_range acc (max_of 64)) t)) =
      filter (\<lambda>m. acc = key_text owner \<longrightarrow> n < sequence m) (map row_message (bt_range (message_range acc (max_of 64)) t))" for acc t
    by (rule range_filter) (auto simp: message_range_iff)
  show ?thesis
    by (auto simp: fun_eq_iff RemoveThrough exec_offline_def spec_offline_def remove_offline_messages_through_def Let_def
        abs_mail_def last_sequence_def table.scan_keep same)
next
  case (RemoveOne owner n)
  have same: "map row_message (filter (\<lambda>e. fst e \<noteq> (key_text owner, n)) (bt_range (message_range acc (max_of 64)) t)) =
      filter (\<lambda>m. acc = key_text owner \<longrightarrow> sequence m \<noteq> n) (map row_message (bt_range (message_range acc (max_of 64)) t))" for acc t
    by (rule range_filter) (auto simp: message_range_iff)
  show ?thesis
    by (auto simp: fun_eq_iff RemoveOne exec_offline_def spec_offline_def remove_offline_message_def Let_def
        abs_mail_def last_sequence_def table.scan_rem same)
next
  case (Forget owner)
  have "bt_range (message_range acc (max_of 64)) (retain_in (message_range (key_text owner) (max_of 64)) t) =
      (if acc = key_text owner then [] else bt_range (message_range acc (max_of 64)) t)" for acc and t :: "(string \<times> nat, bytes) fmap"
    by (auto simp: retain_empty message_range_iff intro!: retain_other)
  then show ?thesis
    by (auto simp: fun_eq_iff Forget exec_offline_def spec_offline_def clear_offline_messages_def Let_def abs_mail_def last_sequence_def)
qed

lemma mailboxes_run:
  assumes "mail_ok (work tx)" and "list_all op_u64 ops"
  shows "abs_mail (work (fold (exec_offline redb_max) ops tx)) =
      fold (spec_offline redb_max (ACCOUNTS (work tx))) ops (abs_mail (work tx))"
    and "mail_ok (work (fold (exec_offline redb_max) ops tx))"
  using assms by (induction ops arbitrary: tx) (simp_all add: abs_exec mail_ok_exec)


section \<open>Private XML\<close>

lemma element_parts_new [simp]: "element_parts (new_element_key owner ns name) = (owner, ns, name)"
  by (simp add: element_parts_def new_element_key_def)

definition xml_items :: "string \<Rightarrow> (string \<times> string \<times> string, bytes) fmap \<Rightarrow> nat" where
  "xml_items owner t = length (bt_range (element_range owner) t)"

definition xml_bytes :: "string \<Rightarrow> (string \<times> string \<times> string, bytes) fmap \<Rightarrow> nat" where
  "xml_bytes owner t = sum_list (map (\<lambda>row. length (snd row)) (bt_range (element_range owner) t))"

definition new_bytes :: "('k \<times> string option) list \<Rightarrow> nat" where
  "new_bytes rows = sum_list (map (\<lambda>row. case snd row of None \<Rightarrow> 0 | Some s \<Rightarrow> length s) rows)"

lemma xml_usage_total:
  "xml_items owner t = table.total (\<lambda>_. 1) (element_range owner) t"
  "xml_bytes owner t = table.total (\<lambda>row. length (snd row)) (element_range owner) t"
  by (simp_all add: xml_items_def xml_bytes_def table.total_def length_bt_range)

lemma usage_rows_value:
  assumes "items + length rows \<le> max_of 64" and "tally + sum_list (map (\<lambda>row. length (snd row)) rows) \<le> max_of 64"
  shows "usage_rows rows items tally = Inr (items + length rows, tally + sum_list (map (\<lambda>row. length (snd row)) rows))"
  using assms by (induction rows items tally rule: usage_rows.induct) (simp_all add: checked_add_def add.assoc)

lemma usage_value:
  "xml_items owner t \<le> max_of 64 \<Longrightarrow> xml_bytes owner t \<le> max_of 64 \<Longrightarrow> usage t owner = Inr (xml_items owner t, xml_bytes owner t)"
  using usage_rows_value [of 0 "bt_range (element_range owner) t" 0] by (simp add: usage_def xml_items_def xml_bytes_def)

lemma xml_usage_drop:
  assumes "fst key = owner"
  shows "xml_items owner t = xml_items owner (fmdrop key t) + (case fmlookup t key of None \<Rightarrow> 0 | Some _ \<Rightarrow> 1)"
    and "xml_bytes owner t = xml_bytes owner (fmdrop key t) + (case fmlookup t key of None \<Rightarrow> 0 | Some old \<Rightarrow> length old)"
  using assms table.total_rem [of "element_range owner" key t]
  by (simp_all add: xml_usage_total element_range_iff table.total_rem_absent split: option.split)

lemma xml_usage_change:
  assumes "fst key = owner"
  shows "xml_items owner (apply_change (key, new) t) = xml_items owner (fmdrop key t) + (case new of None \<Rightarrow> 0 | Some _ \<Rightarrow> 1)"
    and "xml_bytes owner (apply_change (key, new) t) = xml_bytes owner (fmdrop key t) + (case new of None \<Rightarrow> 0 | Some s \<Rightarrow> length s)"
  using assms
  by (simp_all add: apply_change_def xml_usage_total table.total_ins element_range_iff split: option.split)

lemma planned_usage_value:
  assumes "\<forall>row \<in> set rows. fst (fst row) = owner \<and> fmlookup t' (fst row) = fmlookup t (fst row)"
    and "distinct (map fst rows)"
    and "xml_items owner t' + length rows \<le> max_of 64" and "xml_bytes owner t' + new_bytes rows \<le> max_of 64"
  shows "planned_usage t rows (xml_items owner t') (xml_bytes owner t') =
    Inr (xml_items owner (fold apply_change rows t'), xml_bytes owner (fold apply_change rows t'))"
  using assms
proof (induction rows arbitrary: t')
  case (Cons row rows)
  obtain key new where row: "row = (key, new)" by fastforce
  let ?t = "apply_change row t'"
  have key: "fst key = owner" and same: "fmlookup t' key = fmlookup t key" using Cons.prems(1) by (auto simp: row)
  note drop = xml_usage_drop [OF key, of t'] and change = xml_usage_change [OF key, of new t']
  have "planned_usage t rows (xml_items owner ?t) (xml_bytes owner ?t) =
      Inr (xml_items owner (fold apply_change rows ?t), xml_bytes owner (fold apply_change rows ?t))"
  proof (rule Cons.IH)
    show "\<forall>r \<in> set rows. fst (fst r) = owner \<and> fmlookup ?t (fst r) = fmlookup t (fst r)"
      using Cons.prems(1,2) by (auto simp: row apply_change_def split: option.split)
    show "xml_items owner ?t + length rows \<le> max_of 64" "xml_bytes owner ?t + new_bytes rows \<le> max_of 64"
      using Cons.prems(3,4) drop change by (auto simp: row new_bytes_def split: option.splits)
  qed (use Cons.prems(2) in simp)
  moreover have "planned_usage t (row # rows) (xml_items owner t') (xml_bytes owner t') =
      planned_usage t rows (xml_items owner ?t) (xml_bytes owner ?t)"
    using Cons.prems(3,4) drop change same
    by (cases "fmlookup t key"; cases new) (simp_all add: row new_bytes_def checked_add_def checked_sub_def)
  ultimately show ?case by simp
qed simp

lemma fold_apply_lookup:
  "distinct (map fst rows) \<Longrightarrow>
    fmlookup (fold apply_change rows t) key = (case map_of rows key of None \<Rightarrow> fmlookup t key | Some new \<Rightarrow> map_option as_bytes new)"
proof (induction rows arbitrary: t)
  case (Cons row rows)
  show ?case
  proof (cases "key = fst row")
    case True
    then have "map_of rows key = None" using Cons.prems by (auto simp: map_of_eq_None_iff)
    with Cons True show ?thesis by (cases row) (simp add: apply_change_def split: option.split)
  next
    case False
    with Cons show ?thesis by (cases row) (simp add: apply_change_def split: option.split)
  qed
qed simp

lemma map_of_entries: "map_of (bt_entries t) key = fmlookup t key"
proof (cases "fmlookup t key")
  case None
  then show ?thesis by (simp add: map_of_eq_None_iff bt_entries_def image_image fmlookup_dom_iff)
next
  case (Some v)
  then have "(key, v) \<in> set (bt_entries t)" by (auto simp: bt_entries_def image_iff fmlookup_dom_iff)
  moreover have "distinct (map fst (bt_entries t))" by simp
  ultimately show ?thesis using Some by (simp add: map_of_eq_Some_iff)
qed

lemma last_changes_lookup:
  "fmlookup (last_changes owner changes) key =
     map_option xml (find (\<lambda>c. (owner, namespace c, element_name c) = key) (rev changes))"
  by (induction changes rule: rev_induct) (simp_all add: last_changes_def)

definition xml_fits :: "string \<Rightarrow> PrivateXmlChange list \<Rightarrow> (string \<times> string \<times> string, bytes) fmap \<Rightarrow> bool" where
  "xml_fits owner changes t \<longleftrightarrow>
     xml_items owner t + length (bt_entries (last_changes owner changes)) \<le> max_of 64 \<and>
     xml_bytes owner t + new_bytes (bt_entries (last_changes owner changes)) \<le> max_of 64"

definition changed_xml :: "string \<Rightarrow> PrivateXmlChange list \<Rightarrow> (string \<times> string \<times> string, bytes) fmap
    \<Rightarrow> (string \<times> string \<times> string, bytes) fmap" where
  "changed_xml owner changes t = fold apply_change (bt_entries (last_changes owner changes)) t"

lemma changed_xml_lookup:
  "fmlookup (changed_xml owner changes t) key =
     (case find (\<lambda>c. (owner, namespace c, element_name c) = key) (rev changes) of
        None \<Rightarrow> fmlookup t key | Some c \<Rightarrow> map_option as_bytes (xml c))"
  by (simp add: changed_xml_def fold_apply_lookup map_of_entries last_changes_lookup split: option.split)

lemma update_private_xml_value:
  assumes "account_exists tx (key_text owner)" and "xml_fits (key_text owner) changes (ELEMENTS (work tx))"
  shows "update_private_xml owner changes quota tx =
    (let before = ELEMENTS (work tx); after = changed_xml (key_text owner) changes before; acc = key_text owner in
     if xml_max_items quota < xml_items acc after \<and> xml_items acc before < xml_items acc after \<or>
        xml_max_bytes quota < xml_bytes acc after \<and> xml_bytes acc before < xml_bytes acc after
     then Inl XmlQuotaExceeded else Inr ((), tx\<lparr>work := (work tx)\<lparr>ELEMENTS := after\<rparr>\<rparr>))"
proof -
  let ?acc = "key_text owner" and ?t = "ELEMENTS (work tx)" and ?rows = "bt_entries (last_changes (key_text owner) changes)"
  have "fst (fst row) = ?acc" if row: "row \<in> set ?rows" for row
  proof -
    have "fmlookup (last_changes ?acc changes) (fst row) \<noteq> None"
      using row by (auto simp: bt_entries_def fmlookup_dom_iff)
    then show ?thesis by (auto simp: last_changes_lookup find_Some_iff) (metis fst_conv)
  qed
  then have "planned_usage ?t ?rows (xml_items ?acc ?t) (xml_bytes ?acc ?t) =
      Inr (xml_items ?acc (changed_xml ?acc changes ?t), xml_bytes ?acc (changed_xml ?acc changes ?t))"
    using assms(2) planned_usage_value [of ?rows ?acc ?t ?t] by (simp add: xml_fits_def changed_xml_def)
  moreover have "usage ?t ?acc = Inr (xml_items ?acc ?t, xml_bytes ?acc ?t)"
    using assms(2) by (intro usage_value) (simp_all add: xml_fits_def)
  ultimately show ?thesis using assms(1) by (simp add: update_private_xml_def Let_def changed_xml_def)
qed


section \<open>Properties\<close>

text \<open>
  C14. Offline storage is a mailbox per account. Any sequence of pushes and removals, by any accounts,
  from an empty store reads back as the contract says: each mailbox holds its accepted messages in the
  order they were pushed, with their times and bytes, minus those removed; sequence numbers only grow
  until the account is forgotten; a push is refused exactly without an account or beyond a size or
  sequence limit.
\<close>
theorem offline_fifo:
  fixes accs redb_max ops
  defines "tx \<equiv> fold (exec_offline redb_max) ops (begin_write (empty_tables\<lparr>ACCOUNTS := accs\<rparr>))"
  assumes "list_all op_u64 ops"
  shows "offline_messages (work tx) owner = Inr (snd (fold (spec_offline redb_max accs) ops (\<lambda>_. (0, [])) (key_text owner))) \<and>
    offline_count (work tx) owner = length (snd (fold (spec_offline redb_max accs) ops (\<lambda>_. (0, [])) (key_text owner)))"
proof -
  let ?t = "empty_tables\<lparr>ACCOUNTS := accs\<rparr>"
  have start: "mail_ok ?t" "abs_mail ?t = (\<lambda>_. (0, []))"
    by (simp_all add: fun_eq_iff mail_ok_def last_sequence_def empty_tables_def abs_mail_def bt_range_def bt_entries_def
        bt_keys_def sorted_list_of_fset.rep_eq)
  have run: "abs_mail (work tx) = fold (spec_offline redb_max accs) ops (\<lambda>_. (0, []))" "mail_ok (work tx)"
    using mailboxes_run [of "begin_write ?t" ops redb_max] assms(2) start by (simp_all add: tx_def begin_write_def)
  from mail_readable [OF run(2), of owner] show ?thesis
    unfolding run(1) [symmetric] by (simp add: offline_count_def abs_mail_def)
qed

theorem offline_fifo_witness:
  "offline_messages (work (fold (exec_offline 4096) [Push key_a 5 [1], Push key_a 6 [2], RemoveOne key_a 1]
      (begin_write (empty_tables\<lparr>ACCOUNTS := ACCOUNTS two_accounts\<rparr>)))) key_a =
   Inr [\<lparr>sequence = 2, stored_at = 6, message = [2]\<rparr>]"
  using offline_fifo [of "[Push key_a 5 [1], Push key_a 6 [2], RemoveOne key_a 1]" 4096 "ACCOUNTS two_accounts" key_a]
  by (simp add: spec_offline_def accepts_def two_accounts_def key_a_def max_of_def)

text \<open>
  C32. Private XML updates. Of several changes to one element the last wins, elements not named and
  other accounts keep their data, and an update is refused exactly when it grows the element count
  past its limit or the byte total past its limit, so an account over quota can still shrink.
\<close>
theorem private_update_exact:
  assumes "account_exists tx (key_text owner)" and "xml_fits (key_text owner) changes (ELEMENTS (work tx))"
  shows "(case update_private_xml owner changes quota tx of
      Inl e \<Rightarrow> e = XmlQuotaExceeded \<and>
        (\<exists>after. (\<forall>key. fmlookup after key =
            (case find (\<lambda>c. (key_text owner, namespace c, element_name c) = key) (rev changes) of
               None \<Rightarrow> fmlookup (ELEMENTS (work tx)) key | Some c \<Rightarrow> map_option as_bytes (xml c))) \<and>
          (max (xml_max_items quota) (xml_items (key_text owner) (ELEMENTS (work tx))) < xml_items (key_text owner) after \<or>
           max (xml_max_bytes quota) (xml_bytes (key_text owner) (ELEMENTS (work tx))) < xml_bytes (key_text owner) after))
    | Inr (_, tx') \<Rightarrow>
        (\<forall>key. fmlookup (ELEMENTS (work tx')) key =
          (case find (\<lambda>c. (key_text owner, namespace c, element_name c) = key) (rev changes) of
             None \<Rightarrow> fmlookup (ELEMENTS (work tx)) key | Some c \<Rightarrow> map_option as_bytes (xml c))) \<and>
        tx' = tx\<lparr>work := (work tx)\<lparr>ELEMENTS := ELEMENTS (work tx')\<rparr>\<rparr> \<and>
        xml_items (key_text owner) (ELEMENTS (work tx')) \<le> max (xml_max_items quota) (xml_items (key_text owner) (ELEMENTS (work tx))) \<and>
        xml_bytes (key_text owner) (ELEMENTS (work tx')) \<le> max (xml_max_bytes quota) (xml_bytes (key_text owner) (ELEMENTS (work tx))))"
  unfolding update_private_xml_value [OF assms] Let_def
  by (auto simp: changed_xml_lookup intro!: exI [of _ "changed_xml (key_text owner) changes (ELEMENTS (work tx))"])

theorem private_update_exact_witness:
  "\<exists>tx'. update_private_xml key_a
      [\<lparr>namespace = ''n'', element_name = ''e'', xml = Some ''old''\<rparr>, \<lparr>namespace = ''n'', element_name = ''e'', xml = Some ''new''\<rparr>]
      default_xml_quota sample_start = Inr ((), tx') \<and>
    private_xml (work tx') key_a ''n'' ''e'' = Inr (Some ''new'')"
proof -
  let ?changes = "[\<lparr>namespace = ''n'', element_name = ''e'', xml = Some ''old''\<rparr>,
    \<lparr>namespace = ''n'', element_name = ''e'', xml = Some ''new''\<rparr>]"
  have none: "ELEMENTS (work sample_start) = fmempty"
    by (simp add: sample_start_def two_accounts_def empty_tables_def)
  have acc: "account_exists sample_start (key_text key_a)"
    by (simp add: sample_start_def account_exists_def two_accounts_def key_a_def)
  have latest: "bt_entries (last_changes (key_text key_a) ?changes) = [((''a@x'', ''n'', ''e''), Some ''new'')]"
    by (simp add: last_changes_def key_a_def bt_entries_def bt_keys_def sorted_list_of_fset.rep_eq)
  have zero: "xml_items (key_text key_a) fmempty = 0" "xml_bytes (key_text key_a) fmempty = 0"
    by (simp_all add: xml_items_def xml_bytes_def bt_range_def bt_entries_def bt_keys_def sorted_list_of_fset.rep_eq)
  have fits: "xml_fits (key_text key_a) ?changes (ELEMENTS (work sample_start))"
    unfolding xml_fits_def latest none zero by (simp add: new_bytes_def max_of_def)
  have after: "changed_xml (key_text key_a) ?changes fmempty = apply_change ((''a@x'', ''n'', ''e''), Some ''new'') fmempty"
    by (simp add: changed_xml_def latest)
  have small: "xml_items (key_text key_a) (changed_xml (key_text key_a) ?changes fmempty) = 1"
    "xml_bytes (key_text key_a) (changed_xml (key_text key_a) ?changes fmempty) = 3"
    unfolding after using zero by (simp_all add: xml_usage_change key_a_def)
  obtain tx' where tx': "update_private_xml key_a ?changes default_xml_quota sample_start = Inr ((), tx')"
    unfolding update_private_xml_value [OF acc fits] none Let_def small by (simp add: default_xml_quota_def)
  have "fmlookup (ELEMENTS (work tx')) (''a@x'', ''n'', ''e'') = Some (as_bytes ''new'')"
    using private_update_exact [OF acc fits, of default_xml_quota] unfolding tx' by (simp add: key_a_def)
  moreover have "is_str ''new''" by (simp add: is_str_def as_bytes_def byte_of_char_def)
  ultimately show ?thesis
    using tx' by (simp add: private_xml_def key_a_def read_private_record_def from_utf8_as_bytes)
qed



end
