(* ===== verification/Roster_State.thy ===== *)
theory Roster_State
  imports Content_Stores
begin

text \<open>
  The subscription state transitions of the roster extension
  (\<open>lonewolf-extension/src/roster/state.rs\<close>). The source is generic in the write transaction; the
  trait is the record \<open>WriteTransaction\<close> of its operations, \<open>redb_writes\<close> the implementation on redb,
  and the locale \<open>roster_writes\<close> of \<open>Roster_Mirror\<close> what the transitions rely on: what a subscription reads as after each
  write, and what each write leaves alone.

  An operation that fails ends the handler, which drops the transaction; the two errors the code goes
  on after (a quota refusal of a read, \<open>NoAccount\<close> of a pending request) come before any write.
\<close>

section \<open>Definitions\<close>

subsection \<open>The transaction\<close>

record 'w WriteTransaction =
  tx_account :: "'w \<Rightarrow> AccountKey \<Rightarrow> (AccountError, Account option) result"
  tx_subscription :: "'w \<Rightarrow> AccountKey \<Rightarrow> RosterJid \<Rightarrow> (RosterError, RosterSubscription option) result"
  tx_item :: "'w \<Rightarrow> AccountKey \<Rightarrow> RosterJid \<Rightarrow> RosterQuota \<Rightarrow> (RosterError, RosterItem option) result"
  tx_pending_exists :: "'w \<Rightarrow> AccountKey \<Rightarrow> RosterJid \<Rightarrow> (RosterError, bool) result"
  tx_put_item :: "AccountKey \<Rightarrow> RosterItem \<Rightarrow> RosterQuota \<Rightarrow> 'w \<Rightarrow> (RosterError, RosterVersion \<times> 'w) result"
  tx_transition :: "AccountKey \<Rightarrow> RosterJid \<Rightarrow> RosterSubscription \<Rightarrow> RosterSubscription \<Rightarrow> 'w
    \<Rightarrow> (RosterError, RosterVersion option \<times> 'w) result"
  tx_remove_subscription :: "AccountKey \<Rightarrow> RosterJid \<Rightarrow> 'w
    \<Rightarrow> (RosterError, RosterSubscription RosterMutation option \<times> 'w) result"
  tx_put_pending :: "AccountKey \<Rightarrow> PendingSubscription \<Rightarrow> nat \<Rightarrow> 'w \<Rightarrow> (RosterError, unit \<times> 'w) result"
  tx_remove_pending :: "AccountKey \<Rightarrow> RosterJid \<Rightarrow> 'w \<Rightarrow> (RosterError, bool \<times> 'w) result"

definition redb_writes :: "RedbWrite WriteTransaction" where
  "redb_writes = \<lparr>
     tx_account = (\<lambda>tx. read_account (work tx)),
     tx_subscription = (\<lambda>tx. roster_subscription (work tx)),
     tx_item = (\<lambda>tx. roster_item (work tx)),
     tx_pending_exists = (\<lambda>tx owner jid. Inr (pending_request_exists (work tx) owner jid)),
     tx_put_item = put_roster_item,
     tx_transition = transition_roster_subscription,
     tx_remove_subscription = remove_roster_subscription,
     tx_put_pending = put_pending_request,
     tx_remove_pending = (\<lambda>owner jid tx. Inr (remove_pending_request owner jid tx))\<rparr>"

subsection \<open>Limits\<close>

record RosterLimits =
  limit_items :: nat
  limit_bytes :: nat
  max_pending_subscription_requests :: nat

definition default_limits :: RosterLimits where
  "default_limits = \<lparr>limit_items = max_items default_quota, limit_bytes = max_bytes default_quota,
     max_pending_subscription_requests = 100\<rparr>"

type_synonym Roster = "(string, RosterLimits) fmap"

definition limits_of :: "Roster \<Rightarrow> string \<Rightarrow> RosterLimits" where
  "limits_of ro host = (case fmlookup ro host of None \<Rightarrow> default_limits | Some l \<Rightarrow> l)"

definition quota_of :: "Roster \<Rightarrow> AccountKey \<Rightarrow> RosterQuota" where
  "quota_of ro owner =
     (let l = limits_of ro (domain owner) in \<lparr>max_items = limit_items l, max_bytes = limit_bytes l\<rparr>)"

subsection \<open>Outcomes\<close>

datatype ItemChange = PushItem "RosterItem RosterMutation" | ItemUnavailable RosterVersion

type_synonym ItemMutation = "ItemChange option"

datatype RequestOutcome =
    AutoApproved ItemMutation
  | PreApproved ItemMutation ItemMutation
  | PendingRequest ItemMutation
  | ContactMissing

record Cancellation =
  cancel_route :: bool
  cancel_unavailable :: bool
  cancel_grantor :: ItemMutation
  cancel_subscriber :: ItemMutation

record Withdrawal =
  notify_contact :: bool
  withdraw_unavailable :: bool
  withdraw_subscriber :: ItemMutation
  withdraw_contact :: ItemMutation

record Removal =
  removal_version :: RosterVersion
  removal_subscription :: RosterSubscription
  removal_pending :: bool
  contact_before :: "RosterSubscription option"
  removal_contact :: ItemMutation

subsection \<open>States\<close>

definition grants :: "SubscriptionState \<Rightarrow> bool" where
  "grants st \<longleftrightarrow> st = From \<or> st = Both"

definition subscribed_to :: "SubscriptionState \<Rightarrow> bool" where
  "subscribed_to st \<longleftrightarrow> st = To \<or> st = Both"

fun without_from :: "SubscriptionState \<Rightarrow> SubscriptionState" where
  "without_from From = SubNone"
| "without_from Both = To"
| "without_from st = st"

fun without_to :: "SubscriptionState \<Rightarrow> SubscriptionState" where
  "without_to To = SubNone"
| "without_to Both = From"
| "without_to st = st"

definition bare_item :: "RosterJid \<Rightarrow> RosterItem" where
  "bare_item jid = \<lparr>item_jid = jid, item_name = None, item_groups = [], subscription = default_subscription\<rparr>"

definition approve_pending_out :: "RosterSubscription \<Rightarrow> RosterSubscription option" where
  "approve_pending_out s =
     (if \<not> pending_out s then None
      else (case state s of
          SubNone \<Rightarrow> Some (s\<lparr>state := To, pending_out := False\<rparr>)
        | From \<Rightarrow> Some (s\<lparr>state := Both, pending_out := False\<rparr>)
        | _ \<Rightarrow> None))"

definition pre_approve :: "RosterSubscription \<Rightarrow> RosterSubscription option" where
  "pre_approve s = (if grants (state s) \<or> approved s then None else Some (s\<lparr>approved := True\<rparr>))"

definition set_pending_out :: "RosterSubscription \<Rightarrow> RosterSubscription option" where
  "set_pending_out s = (if pending_out s \<or> subscribed_to (state s) then None else Some (s\<lparr>pending_out := True\<rparr>))"

definition then_some :: "RosterSubscription \<Rightarrow> RosterSubscription \<Rightarrow> RosterSubscription option" where
  "then_some old s = (if s \<noteq> old then Some s else None)"

definition withdraw_outbound :: "RosterSubscription \<Rightarrow> RosterSubscription option" where
  "withdraw_outbound s = then_some s (s\<lparr>state := without_to (state s), pending_out := False\<rparr>)"

definition grant :: "RosterSubscription \<Rightarrow> RosterSubscription option" where
  "grant s = (case state s of SubNone \<Rightarrow> Some (s\<lparr>state := From\<rparr>) | To \<Rightarrow> Some (s\<lparr>state := Both\<rparr>) | _ \<Rightarrow> None)"

definition grant_approved :: "RosterSubscription \<Rightarrow> RosterSubscription option" where
  "grant_approved s = map_option (\<lambda>granted. granted\<lparr>approved := False\<rparr>) (grant s)"

definition subscribe_granted :: "RosterSubscription \<Rightarrow> RosterSubscription option" where
  "subscribe_granted s =
     (case state s of
        SubNone \<Rightarrow> Some (s\<lparr>state := To, pending_out := False\<rparr>)
      | From \<Rightarrow> Some (s\<lparr>state := Both, pending_out := False\<rparr>)
      | _ \<Rightarrow> None)"

definition cancel_grant :: "bool \<Rightarrow> RosterSubscription \<Rightarrow> RosterSubscription option" where
  "cancel_grant both s =
     (let new = s\<lparr>state := without_from (state s), approved := False\<rparr>;
          new = (if both then new\<lparr>state := without_to (state new), pending_out := False\<rparr> else new)
      in then_some s new)"

definition withdraw_own :: "bool \<Rightarrow> RosterSubscription \<Rightarrow> RosterSubscription option" where
  "withdraw_own both s =
     (let new = s\<lparr>state := without_to (state s), pending_out := False\<rparr>;
          new = (if both then new\<lparr>state := without_from (state new)\<rparr> else new)
      in then_some s new)"

definition drop_grant :: "RosterSubscription \<Rightarrow> RosterSubscription option" where
  "drop_grant s = then_some s (s\<lparr>state := without_from (state s)\<rparr>)"

definition clear_contact :: "RosterSubscription \<Rightarrow> RosterSubscription option" where
  "clear_contact s = then_some s \<lparr>state = SubNone, pending_out = False, approved = approved s\<rparr>"

subsection \<open>Writing one subscription\<close>

definition write_subscription :: "'w WriteTransaction \<Rightarrow> Roster \<Rightarrow> AccountKey \<Rightarrow> RosterJid \<Rightarrow> RosterSubscription option
    \<Rightarrow> (RosterSubscription \<Rightarrow> RosterSubscription option) \<Rightarrow> 'w \<Rightarrow> (RosterError, ItemMutation \<times> 'w) result" where
  "write_subscription W ro owner jid current update tx =
     (case update (case current of None \<Rightarrow> default_subscription | Some s \<Rightarrow> s) of
        None \<Rightarrow> Inr (None, tx)
      | Some new \<Rightarrow>
          if current = Some new then Inr (None, tx)
          else
            (let put = (\<lambda>item.
               (let item = item\<lparr>subscription := new\<rparr> in
                ok_then (tx_put_item W owner item (quota_of ro owner) tx) (\<lambda>(v, tx).
                  Inr (Some (PushItem \<lparr>version = v, mutated = item\<rparr>), tx))))
             in case current of
                  None \<Rightarrow> put (bare_item jid)
                | Some expected \<Rightarrow>
                    (case tx_item W tx owner jid (quota_of ro owner) of
                       Inr (Some item) \<Rightarrow> put item
                     | Inr None \<Rightarrow> Inl (RosterStorage CorruptData)
                     | Inl QuotaExceeded \<Rightarrow>
                         ok_then (tx_transition W owner jid expected new tx) (\<lambda>(v, tx).
                         ok_then (ok_or (RosterStorage CorruptData) v) (\<lambda>v. Inr (Some (ItemUnavailable v), tx)))
                     | Inl e \<Rightarrow> Inl e)))"

definition update_subscription :: "'w WriteTransaction \<Rightarrow> Roster \<Rightarrow> AccountKey \<Rightarrow> RosterJid
    \<Rightarrow> (RosterSubscription \<Rightarrow> RosterSubscription option) \<Rightarrow> 'w \<Rightarrow> (RosterError, ItemMutation \<times> 'w) result" where
  "update_subscription W ro owner jid update tx =
     ok_then (tx_subscription W tx owner jid) (\<lambda>current. write_subscription W ro owner jid current update tx)"

definition update_existing_subscription :: "'w WriteTransaction \<Rightarrow> Roster \<Rightarrow> AccountKey \<Rightarrow> RosterJid
    \<Rightarrow> (RosterSubscription \<Rightarrow> RosterSubscription option) \<Rightarrow> 'w \<Rightarrow> (RosterError, ItemMutation \<times> 'w) result" where
  "update_existing_subscription W ro owner jid update tx =
     ok_then (tx_subscription W tx owner jid) (\<lambda>current.
       (case current of
          None \<Rightarrow> Inr (None, tx)
        | Some s \<Rightarrow> write_subscription W ro owner jid (Some s) update tx))"

definition resolve_pending :: "'w WriteTransaction \<Rightarrow> Roster \<Rightarrow> AccountKey \<Rightarrow> RosterJid
    \<Rightarrow> (RosterSubscription \<Rightarrow> RosterSubscription option) \<Rightarrow> 'w \<Rightarrow> (RosterError, ItemMutation \<times> 'w) result" where
  "resolve_pending W ro owner from update tx =
     ok_then (tx_remove_pending W owner from tx) (\<lambda>(removed, tx).
       if \<not> removed then Inr (None, tx) else update_subscription W ro owner from update tx)"

subsection \<open>Transitions between two accounts\<close>

definition some_and :: "(RosterSubscription \<Rightarrow> bool) \<Rightarrow> RosterSubscription option \<Rightarrow> bool" where
  "some_and p s \<longleftrightarrow> (case s of None \<Rightarrow> False | Some s \<Rightarrow> p s)"

definition request_subscription :: "'w WriteTransaction \<Rightarrow> Roster \<Rightarrow> AccountKey \<Rightarrow> RosterJid \<Rightarrow> AccountKey \<Rightarrow> RosterJid
    \<Rightarrow> bytes \<Rightarrow> nat \<Rightarrow> 'w \<Rightarrow> (RosterError, RequestOutcome \<times> 'w) result" where
  "request_subscription W ro requester requester_jid contact contact_jid body limit tx =
     ok_then (tx_subscription W tx contact requester_jid) (\<lambda>contact_view.
       if some_and (\<lambda>s. grants (state s)) contact_view then
         ok_then (update_existing_subscription W ro requester contact_jid approve_pending_out tx) (\<lambda>(m, tx).
           Inr (AutoApproved m, tx))
       else if some_and approved contact_view then
         ok_then (update_existing_subscription W ro contact requester_jid grant_approved tx) (\<lambda>(g, tx).
         ok_then (update_subscription W ro requester contact_jid subscribe_granted tx) (\<lambda>(r, tx).
           Inr (PreApproved g r, tx)))
       else (case tx_put_pending W contact \<lparr>sender = requester_jid, stanza = body\<rparr> limit tx of
           Inl NoAccount \<Rightarrow> Inr (ContactMissing, tx)
         | Inl e \<Rightarrow> Inl e
         | Inr ((), tx) \<Rightarrow>
             ok_then (update_subscription W ro requester contact_jid set_pending_out tx) (\<lambda>(m, tx).
               Inr (PendingRequest m, tx))))"

definition cancel_subscription :: "'w WriteTransaction \<Rightarrow> Roster \<Rightarrow> AccountKey \<Rightarrow> RosterJid \<Rightarrow> (AccountKey \<times> RosterJid) option
    \<Rightarrow> 'w \<Rightarrow> (RosterError, Cancellation \<times> 'w) result" where
  "cancel_subscription W ro grantor contact peer tx =
     ok_then (tx_remove_pending W grantor contact tx) (\<lambda>(pending, tx).
     ok_then (tx_subscription W tx grantor contact) (\<lambda>item.
       (let granted = some_and (\<lambda>s. grants (state s)) item;
            route = (peer \<noteq> None \<and> (pending \<or> granted));
            same_item = (case peer of None \<Rightarrow> False | Some (account, _) \<Rightarrow> account = grantor)
        in ok_then (update_existing_subscription W ro grantor contact (cancel_grant (same_item \<and> route)) tx) (\<lambda>(g, tx).
           ok_then (case peer of
               Some (account, grantor_jid) \<Rightarrow>
                 if route \<and> \<not> same_item
                 then update_existing_subscription W ro account grantor_jid withdraw_outbound tx
                 else Inr (None, tx)
             | None \<Rightarrow> Inr (None, tx)) (\<lambda>(s, tx).
             Inr (\<lparr>cancel_route = route, cancel_unavailable = (route \<and> granted), cancel_grantor = g, cancel_subscriber = s\<rparr>, tx))))))"

definition unsubscribe :: "'w WriteTransaction \<Rightarrow> Roster \<Rightarrow> AccountKey \<Rightarrow> RosterJid \<Rightarrow> (AccountKey \<times> RosterJid) option
    \<Rightarrow> 'w \<Rightarrow> (RosterError, Withdrawal \<times> 'w) result" where
  "unsubscribe W ro subscriber contact recipient tx =
     (let same_item = (case recipient of None \<Rightarrow> False | Some (account, _) \<Rightarrow> account = subscriber) in
      ok_then (case recipient of
          Some (account, subscriber_jid) \<Rightarrow>
            ok_then (tx_remove_pending W account subscriber_jid tx) (\<lambda>(removed, tx).
            ok_then (tx_subscription W tx account subscriber_jid) (\<lambda>item.
              Inr ((removed, some_and (\<lambda>s. grants (state s)) item), tx)))
        | None \<Rightarrow> Inr ((False, False), tx)) (\<lambda>((pending_removed, prior_grant), tx).
      ok_then (update_existing_subscription W ro subscriber contact (withdraw_own (same_item \<and> prior_grant)) tx) (\<lambda>(s, tx).
      ok_then (case recipient of
          Some (account, subscriber_jid) \<Rightarrow>
            if prior_grant \<and> \<not> same_item
            then update_existing_subscription W ro account subscriber_jid drop_grant tx
            else Inr (None, tx)
        | None \<Rightarrow> Inr (None, tx)) (\<lambda>(c, tx).
        Inr (\<lparr>notify_contact = (pending_removed \<or> prior_grant), withdraw_unavailable = prior_grant,
          withdraw_subscriber = s, withdraw_contact = c\<rparr>, tx)))))"

definition state_remove_item :: "'w WriteTransaction \<Rightarrow> Roster \<Rightarrow> AccountKey \<Rightarrow> RosterJid \<Rightarrow> RosterJid \<Rightarrow> AccountKey option
    \<Rightarrow> 'w \<Rightarrow> (RosterError, Removal option \<times> 'w) result" where
  "state_remove_item W ro owner owner_jid contact contact_account tx =
     ok_then (tx_remove_subscription W owner contact tx) (\<lambda>(removed, tx).
       (case removed of
          None \<Rightarrow> Inr (None, tx)
        | Some m \<Rightarrow>
            ok_then (tx_remove_pending W owner contact tx) (\<lambda>(pending_request, tx).
            ok_then (case contact_account of
                Some account \<Rightarrow>
                  if account \<noteq> owner then
                    ok_then (tx_remove_pending W account owner_jid tx) (\<lambda>(_, tx).
                    ok_then (tx_subscription W tx account owner_jid) (\<lambda>before.
                    ok_then (update_existing_subscription W ro account owner_jid clear_contact tx) (\<lambda>(c, tx).
                      Inr ((before, c), tx))))
                  else Inr ((None, None), tx)
              | None \<Rightarrow> Inr ((None, None), tx)) (\<lambda>((before, c), tx).
              Inr (Some \<lparr>removal_version = version m, removal_subscription = mutated m, removal_pending = pending_request,
                contact_before = before, removal_contact = c\<rparr>, tx)))))"


section \<open>Rosters in step\<close>

text \<open>
  What the rosters of two local accounts say about each other: \<open>mine\<close> is one account's item for the
  other, \<open>theirs\<close> the other's item for the first, \<open>asked\<close> whether the first's request is pending
  with the other. A subscription on one side is a grant on the other, an outgoing request is a
  pending one, and a pre-approval stands only where there is neither.
\<close>

definition in_step :: "RosterSubscription \<Rightarrow> RosterSubscription \<Rightarrow> bool \<Rightarrow> bool" where
  "in_step mine theirs asked \<longleftrightarrow>
     (subscribed_to (state mine) \<longleftrightarrow> grants (state theirs)) \<and> (pending_out mine \<longleftrightarrow> asked) \<and>
     \<not> (subscribed_to (state mine) \<and> pending_out mine) \<and> (approved theirs \<longrightarrow> \<not> grants (state theirs) \<and> \<not> asked)"

definition mirrored :: "(string \<Rightarrow> bool) \<Rightarrow> (string \<Rightarrow> string \<Rightarrow> RosterSubscription) \<Rightarrow> (string \<Rightarrow> string \<Rightarrow> bool) \<Rightarrow> bool" where
  "mirrored loc S P \<longleftrightarrow> (\<forall>a b. loc a \<longrightarrow> loc b \<longrightarrow> a \<noteq> b \<longrightarrow> in_step (S a b) (S b a) (P b a))"

definition settle :: "(RosterSubscription \<Rightarrow> RosterSubscription option) \<Rightarrow> RosterSubscription \<Rightarrow> RosterSubscription" where
  "settle f s = (case f s of None \<Rightarrow> s | Some n \<Rightarrow> n)"

lemmas state_defs = grants_def subscribed_to_def in_step_def approve_pending_out_def pre_approve_def set_pending_out_def
  withdraw_outbound_def grant_def grant_approved_def subscribe_granted_def cancel_grant_def withdraw_own_def drop_grant_def
  clear_contact_def then_some_def default_subscription_def

lemma withdrawals_default [simp]:
  "cancel_grant both default_subscription = None" "withdraw_outbound default_subscription = None"
  "withdraw_own both default_subscription = None" "drop_grant default_subscription = None"
  "clear_contact default_subscription = None" "approve_pending_out default_subscription = None"
  by (simp_all add: state_defs)

lemma grants_default [simp]: "\<not> grants (state default_subscription)"
  by (simp add: state_defs)

text \<open>Both directions at once: \<open>asked\<close> is the first's request with the second, \<open>asking\<close> the reverse.\<close>

definition paired :: "RosterSubscription \<Rightarrow> RosterSubscription \<Rightarrow> bool \<Rightarrow> bool \<Rightarrow> bool" where
  "paired x y asked asking \<longleftrightarrow> in_step x y asked \<and> in_step y x asking"

lemmas settled = paired_def settle_def state_defs

lemma paired_sym: "paired x y asked asking \<longleftrightarrow> paired y x asking asked"
  by (auto simp: paired_def)

lemma paired_auto_approved:
  "paired x y w v \<Longrightarrow> grants (state y) \<Longrightarrow> paired (settle approve_pending_out x) y w v"
  by (cases x; cases y; cases "state x"; cases "state y") (simp_all add: settled)

lemma paired_pre_approved:
  "paired x y w v \<Longrightarrow> approved y \<Longrightarrow> paired (settle subscribe_granted x) (settle grant_approved y) w v"
  by (cases x; cases y; cases "state x"; cases "state y") (auto simp: settled)

lemma paired_request:
  "paired x y w v \<Longrightarrow> \<not> grants (state y) \<Longrightarrow> \<not> approved y \<Longrightarrow> paired (settle set_pending_out x) y True v"
  by (cases x; cases y; cases "state x"; cases "state y") (auto simp: settled)

lemma paired_approval:
  "paired x y w True \<Longrightarrow> paired (settle grant x) (settle approve_pending_out y) w False"
  "paired x y w False \<Longrightarrow> settle approve_pending_out y = y"
  by (cases x; cases y; cases "state x"; cases "state y"; auto simp: settled)+

lemma paired_pre_approval: "paired x y w False \<Longrightarrow> paired (settle pre_approve x) y w False"
  by (cases x; cases y; cases "state x"; cases "state y") (auto simp: settled)

lemma paired_cancel:
  "paired x y w v \<Longrightarrow> v \<or> grants (state x) \<Longrightarrow> paired (settle (cancel_grant False) x) (settle withdraw_outbound y) w False"
  "paired x y w v \<Longrightarrow> \<not> v \<and> \<not> grants (state x) \<Longrightarrow> paired (settle (cancel_grant False) x) y w False"
  by (cases x; cases y; cases "state x"; cases "state y"; auto simp: settled)+

lemma paired_withdraw:
  "paired x y w v \<Longrightarrow> grants (state y) \<Longrightarrow> paired (settle (withdraw_own False) x) (settle drop_grant y) False v"
  "paired x y w v \<Longrightarrow> \<not> grants (state y) \<Longrightarrow> paired (settle (withdraw_own False) x) y False v"
  by (cases x; cases y; cases "state x"; cases "state y"; auto simp: settled)+

lemma paired_remove:
  "paired x y w v \<Longrightarrow> paired default_subscription (settle clear_contact y) False False"
  "paired x default_subscription False v \<Longrightarrow> paired default_subscription default_subscription False False"
  by (cases x; cases y; cases "state x"; cases "state y"; auto simp: settled)+

end
