(* ===== verification/Roster_Mirror.thy ===== *)
theory Roster_Mirror
  imports Roster_State
begin

text \<open>
  The locale \<open>roster_writes\<close>, the contract the subscription transitions of \<open>state.rs\<close> rely on, and the
  lemma it carries: every transition keeps the rosters of two local accounts in step.
\<close>

section \<open>What the transitions rely on\<close>

text \<open>
  The contract of the transaction. \<open>view\<close> is the subscription an owner's item for a contact holds,
  \<open>waits\<close> whether a request of the contact is pending with the owner, \<open>live\<close> whether an account exists.
\<close>

locale roster_writes =
  fixes W :: "'w WriteTransaction"
    and view :: "'w \<Rightarrow> string \<Rightarrow> RosterJid \<Rightarrow> RosterSubscription option"
    and waits :: "'w \<Rightarrow> string \<Rightarrow> RosterJid \<Rightarrow> bool"
    and live :: "'w \<Rightarrow> string \<Rightarrow> bool"
  assumes account_law: "tx_account W tx owner = Inr a \<Longrightarrow> live tx (key_text owner) \<longleftrightarrow> a \<noteq> None"
    and subscription_law: "owner_ok (key_text owner) \<Longrightarrow> tx_subscription W tx owner jid = Inr s \<Longrightarrow>
      s = view tx (key_text owner) jid"
    and pending_law: "owner_ok (key_text owner) \<Longrightarrow> tx_pending_exists W tx owner jid = Inr p \<Longrightarrow>
      p \<longleftrightarrow> waits tx (key_text owner) jid"
    and item_law: "tx_item W tx owner jid quota = Inr (Some item) \<Longrightarrow> item_jid item = jid"
    and put_law: "owner_ok (key_text owner) \<Longrightarrow> tx_put_item W owner item quota tx = Inr (v, tx') \<Longrightarrow>
      live tx (key_text owner) \<and> live tx' = live tx \<and> waits tx' = waits tx \<and>
      view tx' = (view tx)(key_text owner := (view tx (key_text owner))(item_jid item := Some (subscription item)))"
    and transition_law: "owner_ok (key_text owner) \<Longrightarrow> tx_transition W owner jid expected new tx = Inr (Some v, tx') \<Longrightarrow>
      live tx (key_text owner) \<and> live tx' = live tx \<and> waits tx' = waits tx \<and>
      view tx' = (view tx)(key_text owner := (view tx (key_text owner))(jid := Some new))"
    and remove_law: "owner_ok (key_text owner) \<Longrightarrow> tx_remove_subscription W owner jid tx = Inr (m, tx') \<Longrightarrow>
      map_option mutated m = view tx (key_text owner) jid \<and> live tx' = live tx \<and> waits tx' = waits tx \<and>
      view tx' = (view tx)(key_text owner := (view tx (key_text owner))(jid := None))"
    and put_pending_law: "owner_ok (key_text owner) \<Longrightarrow> tx_put_pending W owner request limit tx = Inr ((), tx') \<Longrightarrow>
      live tx (key_text owner) \<and> live tx' = live tx \<and> view tx' = view tx \<and>
      waits tx' = (waits tx)(key_text owner := (waits tx (key_text owner))(sender request := True))"
    and remove_pending_law: "owner_ok (key_text owner) \<Longrightarrow> tx_remove_pending W owner jid tx = Inr (p, tx') \<Longrightarrow>
      (p \<longleftrightarrow> waits tx (key_text owner) jid) \<and> live tx' = live tx \<and> view tx' = view tx \<and>
      waits tx' = (waits tx)(key_text owner := (waits tx (key_text owner))(jid := False))"
begin

definition sub :: "'w \<Rightarrow> string \<Rightarrow> RosterJid \<Rightarrow> RosterSubscription" where
  "sub tx a b = (case view tx a b of None \<Rightarrow> default_subscription | Some s \<Rightarrow> s)"

text \<open>Accounts that do not exist hold nothing.\<close>

definition housed :: "'w \<Rightarrow> bool" where
  "housed tx \<longleftrightarrow> (\<forall>a b. \<not> live tx a \<longrightarrow> view tx a b = None \<and> \<not> waits tx a b)"

text \<open>Everything outside the rows two parties hold for each other is as before.\<close>

definition only_between :: "string \<Rightarrow> string \<Rightarrow> 'w \<Rightarrow> 'w \<Rightarrow> bool" where
  "only_between p q tx tx' \<longleftrightarrow> live tx' = live tx \<and> (housed tx \<longrightarrow> housed tx') \<and>
     (\<forall>a b. (a, b) \<noteq> (p, q) \<and> (a, b) \<noteq> (q, p) \<longrightarrow> view tx' a b = view tx a b \<and> waits tx' a b = waits tx a b)"

lemma only_between_refl [simp]: "only_between p q tx tx"
  by (simp add: only_between_def)

lemma only_between_trans: "only_between p q tx tx' \<Longrightarrow> only_between p q tx' tx'' \<Longrightarrow> only_between p q tx tx''"
  by (simp add: only_between_def)

lemma only_between_sym: "only_between p q tx tx' \<longleftrightarrow> only_between q p tx tx'"
  by (simp only: only_between_def conj_commute)

lemma sub_upd: "view tx' = (view tx)(a := (view tx a)(b := Some s)) \<Longrightarrow> sub tx' = (sub tx)(a := (sub tx a)(b := s))"
  by (auto simp: fun_eq_iff sub_def)

lemma write_effect:
  assumes "owner_ok (key_text owner)" and "current = view tx (key_text owner) jid"
    and "write_subscription W ro owner jid current f tx = Inr (m, tx')"
  shows "sub tx' = (sub tx)(key_text owner := (sub tx (key_text owner))(jid := settle f (sub tx (key_text owner) jid)))"
    and "waits tx' = waits tx" and "only_between (key_text owner) jid tx tx'"
    and "m = None \<longleftrightarrow> (f (sub tx (key_text owner) jid) = None \<or> f (sub tx (key_text owner) jid) = current)"
proof -
  let ?k = "key_text owner" and ?s = "sub tx (key_text owner) jid"
  have s: "(case current of None \<Rightarrow> default_subscription | Some s \<Rightarrow> s) = ?s" by (simp add: sub_def assms(2))
  have "(f ?s = None \<or> f ?s = current) \<and> m = None \<and> tx' = tx \<or>
    (\<exists>n. f ?s = Some n \<and> current \<noteq> Some n \<and> m \<noteq> None \<and> live tx ?k \<and> live tx' = live tx \<and> waits tx' = waits tx \<and>
      view tx' = (view tx)(?k := (view tx ?k)(jid := Some n)))"
  proof (cases "f ?s = None \<or> f ?s = current")
    case True
    with assms(3) show ?thesis unfolding write_subscription_def s by (auto simp: Let_def split: option.splits if_splits)
  next
    case False
    then obtain n where n: "f ?s = Some n" "current \<noteq> Some n" by (cases "f ?s") auto
    have put: ?thesis if "tx_put_item W owner (item\<lparr>subscription := n\<rparr>) (quota_of ro owner) tx = Inr (v, tx')"
      "item_jid item = jid" "m \<noteq> None" for item v
      using put_law [OF assms(1) that(1)] n that(2,3) by simp
    note w = assms(3) [unfolded write_subscription_def s n(1)]
    show ?thesis
    proof (cases current)
      case None
      with w n obtain v where
        "tx_put_item W owner (bare_item jid\<lparr>subscription := n\<rparr>) (quota_of ro owner) tx = Inr (v, tx')" "m \<noteq> None"
        by (auto simp: Let_def)
      from put [OF this(1) _ this(2)] show ?thesis by (simp add: bare_item_def)
    next
      case (Some old)
      show ?thesis
      proof (cases "tx_item W tx owner jid (quota_of ro owner)")
        case (Inl e)
        with w n Some obtain v where "tx_transition W owner jid old n tx = Inr (Some v, tx')" "m \<noteq> None"
          by (auto simp: Let_def split: RosterError.splits)
        with transition_law [OF assms(1) this(1)] n show ?thesis by simp
      next
        case (Inr i)
        with w n Some obtain item v where "i = Some item" "m \<noteq> None"
          "tx_put_item W owner (item\<lparr>subscription := n\<rparr>) (quota_of ro owner) tx = Inr (v, tx')"
          by (auto simp: Let_def split: option.splits)
        with put [OF this(3)] item_law Inr show ?thesis by blast
      qed
    qed
  qed
  moreover have "f ?s = current \<Longrightarrow> settle f ?s = ?s"
    using s by (cases current) (simp_all add: settle_def)
  ultimately show "sub tx' = (sub tx)(?k := (sub tx ?k)(jid := settle f ?s))" "waits tx' = waits tx"
    "only_between ?k jid tx tx'" "m = None \<longleftrightarrow> (f ?s = None \<or> f ?s = current)"
    by (auto simp: sub_upd settle_def only_between_def housed_def split: option.splits)
qed

end


context roster_writes
begin

lemma update_effect:
  assumes "owner_ok (key_text owner)" and "update_subscription W ro owner jid f tx = Inr (m, tx')"
  shows "sub tx' = (sub tx)(key_text owner := (sub tx (key_text owner))(jid := settle f (sub tx (key_text owner) jid)))"
    and "waits tx' = waits tx" and "only_between (key_text owner) jid tx tx'"
    and "m = None \<longleftrightarrow> (f (sub tx (key_text owner) jid) = None \<or> f (sub tx (key_text owner) jid) = view tx (key_text owner) jid)"
proof -
  from assms(2) have "write_subscription W ro owner jid (view tx (key_text owner) jid) f tx = Inr (m, tx')"
    using subscription_law [OF assms(1)] by (auto simp: update_subscription_def)
  note write_effect [OF assms(1) refl this]
  then show "sub tx' = (sub tx)(key_text owner := (sub tx (key_text owner))(jid := settle f (sub tx (key_text owner) jid)))"
    "waits tx' = waits tx" "only_between (key_text owner) jid tx tx'"
    "m = None \<longleftrightarrow> (f (sub tx (key_text owner) jid) = None \<or> f (sub tx (key_text owner) jid) = view tx (key_text owner) jid)"
    by blast+
qed

lemma existing_effect:
  assumes "owner_ok (key_text owner)" and "update_existing_subscription W ro owner jid f tx = Inr (m, tx')"
    and "view tx (key_text owner) jid = None \<Longrightarrow> f default_subscription = None"
  shows "sub tx' = (sub tx)(key_text owner := (sub tx (key_text owner))(jid := settle f (sub tx (key_text owner) jid)))"
    and "waits tx' = waits tx" and "only_between (key_text owner) jid tx tx'"
proof -
  have "sub tx' = (sub tx)(key_text owner := (sub tx (key_text owner))(jid := settle f (sub tx (key_text owner) jid))) \<and>
    waits tx' = waits tx \<and> only_between (key_text owner) jid tx tx'"
  proof (cases "view tx (key_text owner) jid")
    case None
    then have "tx' = tx" using assms(1,2) subscription_law by (fastforce simp: update_existing_subscription_def)
    with None assms(3) show ?thesis by (auto simp: settle_def sub_def fun_eq_iff)
  next
    case (Some s)
    with assms(1,2) have "write_subscription W ro owner jid (view tx (key_text owner) jid) f tx = Inr (m, tx')"
      using subscription_law [OF assms(1)] by (fastforce simp: update_existing_subscription_def)
    from write_effect [OF assms(1) refl this] show ?thesis by blast
  qed
  then show "sub tx' = (sub tx)(key_text owner := (sub tx (key_text owner))(jid := settle f (sub tx (key_text owner) jid)))"
    "waits tx' = waits tx" "only_between (key_text owner) jid tx tx'" by blast+
qed

lemma remove_pending_effect:
  assumes "owner_ok (key_text owner)" and "tx_remove_pending W owner jid tx = Inr (p, tx')"
  shows "p \<longleftrightarrow> waits tx (key_text owner) jid" and "view tx' = view tx" and "sub tx' = sub tx"
    and "waits tx' = (waits tx)(key_text owner := (waits tx (key_text owner))(jid := False))"
    and "only_between (key_text owner) jid tx tx'"
  using remove_pending_law [OF assms] by (auto simp: only_between_def housed_def sub_def fun_eq_iff)

lemma put_pending_effect:
  assumes "owner_ok (key_text owner)" and "tx_put_pending W owner request limit tx = Inr (x, tx')"
  shows "sub tx' = sub tx"
    and "waits tx' = (waits tx)(key_text owner := (waits tx (key_text owner))(sender request := True))"
    and "only_between (key_text owner) (sender request) tx tx'"
  using put_pending_law [OF assms(1), of request limit tx tx'] assms(2)
  by (auto simp: only_between_def housed_def sub_def fun_eq_iff)

lemma remove_effect:
  assumes "owner_ok (key_text owner)" and "tx_remove_subscription W owner jid tx = Inr (m, tx')"
  shows "sub tx' = (sub tx)(key_text owner := (sub tx (key_text owner))(jid := default_subscription))"
    and "waits tx' = waits tx" and "only_between (key_text owner) jid tx tx'"
    and "m = None \<Longrightarrow> view tx' = view tx"
  using remove_law [OF assms] by (auto simp: only_between_def housed_def sub_def fun_eq_iff split: if_splits)

definition mirror :: "(string \<Rightarrow> bool) \<Rightarrow> 'w \<Rightarrow> bool" where
  "mirror loc tx \<longleftrightarrow> mirrored loc (sub tx) (waits tx) \<and> housed tx"

lemma mirror_between:
  assumes "mirror loc tx" and "only_between p q tx tx'"
    and "p \<noteq> q \<Longrightarrow> loc p \<Longrightarrow> loc q \<Longrightarrow> paired (sub tx p q) (sub tx q p) (waits tx q p) (waits tx p q) \<Longrightarrow>
      paired (sub tx' p q) (sub tx' q p) (waits tx' q p) (waits tx' p q)"
  shows "mirror loc tx'"
proof -
  have "in_step (sub tx' a b) (sub tx' b a) (waits tx' b a)" if "loc a" "loc b" "a \<noteq> b" for a b
  proof (cases "(a, b) = (p, q) \<or> (a, b) = (q, p)")
    case True
    then show ?thesis using assms(1,3) that by (auto simp: mirror_def mirrored_def paired_def)
  next
    case False
    then have "view tx' a b = view tx a b" "view tx' b a = view tx b a" "waits tx' b a = waits tx b a"
      using assms(2) by (auto simp: only_between_def)
    then show ?thesis using assms(1) that by (auto simp: mirror_def mirrored_def sub_def)
  qed
  then show ?thesis using assms(1,2) by (simp add: mirror_def mirrored_def only_between_def)
qed

end

context roster_writes
begin

text \<open>The four ways a request goes.\<close>

lemma request_cases:
  fixes requester contact
  defines "a \<equiv> key_text requester" and "b \<equiv> key_text contact"
  assumes ok: "owner_ok b" and run: "request_subscription W ro requester a contact b body limit tx = Inr (out, tx')"
  obtains (granted) m where "some_and (\<lambda>s. grants (state s)) (view tx b a)" "out = AutoApproved m"
      "update_existing_subscription W ro requester b approve_pending_out tx = Inr (m, tx')"
    | (approved) g r t where "\<not> some_and (\<lambda>s. grants (state s)) (view tx b a)" "some_and approved (view tx b a)" "out = PreApproved g r"
      "update_existing_subscription W ro contact a grant_approved tx = Inr (g, t)"
      "update_subscription W ro requester b subscribe_granted t = Inr (r, tx')"
    | (missing) "out = ContactMissing" "tx' = tx"
    | (asked) t m where "\<not> some_and (\<lambda>s. grants (state s)) (view tx b a)" "\<not> some_and approved (view tx b a)" "out = PendingRequest m"
      "tx_put_pending W contact \<lparr>sender = a, stanza = body\<rparr> limit tx = Inr ((), t)"
      "update_subscription W ro requester b set_pending_out t = Inr (m, tx')"
proof -
  let ?v = "view tx b a"
  obtain s where s: "tx_subscription W tx contact a = Inr s" using run by (auto simp: request_subscription_def)
  then have read: "tx_subscription W tx contact a = Inr ?v"
    using subscription_law [OF ok [unfolded b_def] s] by (simp add: b_def)
  note run = run [unfolded request_subscription_def read ok_then_simps]
  show thesis
  proof (cases "some_and (\<lambda>s. grants (state s)) ?v")
    case True
    with run obtain m where "out = AutoApproved m" "update_existing_subscription W ro requester b approve_pending_out tx = Inr (m, tx')"
      by auto
    with True show thesis by (rule granted)
  next
    case False
    show thesis
    proof (cases "some_and RosterSubscription.approved ?v")
      case True
      with False run obtain g r t where "out = PreApproved g r" "update_existing_subscription W ro contact a grant_approved tx = Inr (g, t)"
        "update_subscription W ro requester b subscribe_granted t = Inr (r, tx')"
        by auto
      with False True show thesis by (rule approved)
    next
      case unapproved: False
      show thesis
      proof (cases "tx_put_pending W contact \<lparr>sender = a, stanza = body\<rparr> limit tx")
        case (Inl e)
        with False unapproved run have "out = ContactMissing" "tx' = tx" by (simp_all split: RosterError.splits)
        then show thesis by (rule missing)
      next
        case (Inr r)
        then obtain t where t: "tx_put_pending W contact \<lparr>sender = a, stanza = body\<rparr> limit tx = Inr ((), t)"
          by (cases r) simp
        have "ok_then (update_subscription W ro requester b set_pending_out t) (\<lambda>(m, tx). Inr (PendingRequest m, tx)) = Inr (out, tx')"
          using run by (simp only: t False unapproved if_False sum.case prod.case unit.case)
        then obtain m where "out = PendingRequest m" "update_subscription W ro requester b set_pending_out t = Inr (m, tx')" by auto
        with False unapproved t show thesis using asked by blast
      qed
    qed
  qed
qed

lemma request_mirror:
  fixes requester contact
  defines "a \<equiv> key_text requester" and "b \<equiv> key_text contact"
  assumes mirror: "mirror loc tx" and ok: "owner_ok a" "owner_ok b"
    and run: "request_subscription W ro requester a contact b body limit tx = Inr (out, tx')"
  shows "mirror loc tx'" and "only_between a b tx tx'"
proof -
  let ?v = "view tx b a"
  have view: "some_and p ?v \<Longrightarrow> p (sub tx b a) \<and> ?v \<noteq> None" "\<not> some_and p ?v \<Longrightarrow> ?v = None \<or> \<not> p (sub tx b a)" for p
    by (auto simp: some_and_def sub_def split: option.splits)
  have "only_between a b tx tx' \<and> mirror loc tx'"
  proof (cases rule: request_cases [OF ok(2) [unfolded b_def] run [unfolded a_def b_def], folded a_def b_def,
      case_names granted approved missing asked])
    case granted
    have none: "approve_pending_out default_subscription = None" by (simp add: state_defs)
    note e = existing_effect [OF ok(1) [unfolded a_def] granted(3) none, folded a_def]
    have "mirror loc tx'"
      by (rule mirror_between [OF mirror e(3)])
        (use view(1) [OF granted(1)] paired_auto_approved in \<open>simp add: e(1,2)\<close>)
    with e(3) show ?thesis by blast
  next
    case approved
    have some: "?v \<noteq> None" "RosterSubscription.approved (sub tx b a)"
      using view(1) [OF approved(2)] by auto
    note e1 = existing_effect [OF ok(2) [unfolded b_def] approved(4), folded b_def, OF notE [OF some(1)]]
    note e2 = update_effect [OF ok(1) [unfolded a_def] approved(5), folded a_def]
    have between: "only_between a b tx tx'"
      by (rule only_between_trans [OF _ e2(3)]) (use e1(3) in \<open>simp add: only_between_sym [of b a]\<close>)
    have "mirror loc tx'"
      by (rule mirror_between [OF mirror between]) (use some(2) paired_pre_approved in \<open>simp add: e1(1,2) e2(1,2)\<close>)
    with between show ?thesis by blast
  next
    case missing
    with mirror show ?thesis by simp
  next
    case asked
    note e1 = put_pending_effect [OF ok(2) [unfolded b_def] asked(4), folded b_def, simplified]
    note e2 = update_effect [OF ok(1) [unfolded a_def] asked(5), folded a_def]
    have some: "\<not> grants (state (sub tx b a))" "\<not> RosterSubscription.approved (sub tx b a)"
      using view(2) [OF asked(2)] view(2) [OF asked(1)] by (auto simp: sub_def state_defs)
    have between: "only_between a b tx tx'"
      by (rule only_between_trans [OF _ e2(3)]) (use e1(3) in \<open>simp add: only_between_sym [of b a]\<close>)
    have "mirror loc tx'"
      by (rule mirror_between [OF mirror between]) (use some paired_request in \<open>simp add: e1(1,2) e2(1,2)\<close>)
    with between show ?thesis by blast
  qed
  then show "mirror loc tx'" "only_between a b tx tx'" by blast+
qed

end

context roster_writes
begin

lemma some_and_sub: "\<not> p default_subscription \<Longrightarrow> some_and p (view tx a b) \<longleftrightarrow> p (sub tx a b)"
  by (simp add: some_and_def sub_def split: option.splits)

lemma absent_sub: "housed tx \<Longrightarrow> \<not> live tx a \<Longrightarrow> sub tx a b = default_subscription \<and> \<not> waits tx a b"
  by (simp add: housed_def sub_def)

lemma resolve_effect:
  assumes "owner_ok (key_text owner)" and "resolve_pending W ro owner jid f tx = Inr (m, tx')"
  shows "sub tx' = (if waits tx (key_text owner) jid
      then (sub tx)(key_text owner := (sub tx (key_text owner))(jid := settle f (sub tx (key_text owner) jid))) else sub tx)"
    and "waits tx' = (waits tx)(key_text owner := (waits tx (key_text owner))(jid := False))"
    and "only_between (key_text owner) jid tx tx'"
    and "m \<noteq> None \<longleftrightarrow> waits tx (key_text owner) jid \<and>
      f (sub tx (key_text owner) jid) \<noteq> None \<and> f (sub tx (key_text owner) jid) \<noteq> view tx (key_text owner) jid"
proof -
  let ?k = "key_text owner"
  obtain p t where t: "tx_remove_pending W owner jid tx = Inr (p, t)"
      "(if \<not> p then Inr (None, t) else update_subscription W ro owner jid f t) = Inr (m, tx')"
    using assms(2) by (auto simp: resolve_pending_def)
  note r = remove_pending_effect [OF assms(1) t(1)]
  have "sub tx' = (if waits tx ?k jid then (sub tx)(?k := (sub tx ?k)(jid := settle f (sub tx ?k jid))) else sub tx) \<and>
    waits tx' = waits t \<and> only_between ?k jid t tx' \<and>
    (m \<noteq> None \<longleftrightarrow> waits tx ?k jid \<and> f (sub tx ?k jid) \<noteq> None \<and> f (sub tx ?k jid) \<noteq> view tx ?k jid)"
  proof (cases p)
    case True
    with t(2) have "update_subscription W ro owner jid f t = Inr (m, tx')" by simp
    from update_effect [OF assms(1) this] r True show ?thesis by simp
  next
    case False
    with t(2) r show ?thesis by auto
  qed
  with r only_between_trans show "sub tx' = (if waits tx ?k jid
      then (sub tx)(?k := (sub tx ?k)(jid := settle f (sub tx ?k jid))) else sub tx)"
    "waits tx' = (waits tx)(?k := (waits tx ?k)(jid := False))" "only_between ?k jid tx tx'"
    "m \<noteq> None \<longleftrightarrow> waits tx ?k jid \<and> f (sub tx ?k jid) \<noteq> None \<and> f (sub tx ?k jid) \<noteq> view tx ?k jid"
    by simp_all
qed

lemma approve_mirror:
  fixes sender target
  defines "a \<equiv> key_text sender" and "b \<equiv> key_text target"
  assumes mirror: "mirror loc tx" and ok: "owner_ok a" "owner_ok b"
    and run: "update_subscription W ro target a approve_pending_out tx = Inr (m1, t1)"
      "resolve_pending W ro sender b grant t1 = Inr (m2, t2)"
      "m2 \<noteq> None \<and> tx' = t2 \<or> m2 = None \<and> update_subscription W ro sender b pre_approve t2 = Inr (m3, tx')"
  shows "mirror loc tx'" and "only_between a b tx tx'"
proof -
  note e1 = update_effect [OF ok(2) [unfolded b_def] run(1), folded b_def]
  note e2 = resolve_effect [OF ok(1) [unfolded a_def] run(2), folded a_def]
  note e3 = update_effect [OF ok(1) [unfolded a_def], folded a_def]
  have b2: "only_between a b tx t2"
    using only_between_trans [OF _ e2(3)] e1(3) by (simp add: only_between_sym [of b a])
  then have b3: "only_between a b tx tx'" using run(3) e3(3) only_between_trans by blast
  have "paired (sub tx' a b) (sub tx' b a) (waits tx' b a) (waits tx' a b)"
    if neq: "a \<noteq> b" and pair: "paired (sub tx a b) (sub tx b a) (waits tx b a) (waits tx a b)"
  proof (cases "waits tx a b")
    case True
    have p: "paired (sub t2 a b) (sub t2 b a) (waits t2 b a) (waits t2 a b)"
      using paired_approval(1) pair neq True by (simp add: e1(1,2) e2(1,2))
    then show ?thesis
      using run(3) e3(1,2) [of ro b pre_approve t2 m3 tx'] paired_pre_approval neq by (auto simp: e2(2))
  next
    case False
    have p: "paired (sub t2 a b) (sub t2 b a) (waits t2 b a) False" "\<not> waits t2 a b"
      using pair paired_approval(2) [of "sub tx a b" "sub tx b a"] neq False by (simp_all add: e1(1,2) e2(1,2))
    from False have "m2 = None" using e2(4) e1(2) by simp
    then have "update_subscription W ro sender b pre_approve t2 = Inr (m3, tx')" using run(3) by blast
    from e3(1,2) [OF this] show ?thesis using p paired_pre_approval neq by simp
  qed
  then have "mirror loc tx'" by (rule mirror_between [OF mirror b3])
  with b3 show "mirror loc tx'" "only_between a b tx tx'" by blast+
qed

end

context roster_writes
begin

lemma read_effect:
  "owner_ok (key_text owner) \<Longrightarrow> tx_subscription W tx owner jid = Inr s \<Longrightarrow>
    some_and (\<lambda>s. grants (state s)) s \<longleftrightarrow> grants (state (sub tx (key_text owner) jid))"
  using subscription_law [of owner tx jid s] some_and_sub [of "\<lambda>s. grants (state s)"] by simp

text \<open>The peer of a transition: present with the key and address given, or not a live local account.\<close>

definition peer_ok :: "(string \<Rightarrow> bool) \<Rightarrow> 'w \<Rightarrow> string \<Rightarrow> string \<Rightarrow> (AccountKey \<times> RosterJid) option \<Rightarrow> bool" where
  "peer_ok loc tx a b peer \<longleftrightarrow>
     (case peer of None \<Rightarrow> loc b \<longrightarrow> \<not> live tx b | Some (account, jid) \<Rightarrow> key_text account = b \<and> jid = a \<and> owner_ok b)"

lemma cancel_mirror:
  fixes grantor
  defines "a \<equiv> key_text grantor"
  assumes mirror: "mirror loc tx" and ok: "owner_ok a" and peer: "peer_ok loc tx a b peer"
    and run: "cancel_subscription W ro grantor b peer tx = Inr (out, tx')"
  shows "mirror loc tx'" and "only_between a b tx tx'"
proof -
  let ?g = "grants (state (sub tx a b))"
  obtain p t1 item where t1: "tx_remove_pending W grantor b tx = Inr (p, t1)" "tx_subscription W t1 grantor b = Inr item"
    using run by (auto simp: cancel_subscription_def)
  note e1 = remove_pending_effect [OF ok [unfolded a_def] t1(1), folded a_def]
  define route where "route \<longleftrightarrow> peer \<noteq> None \<and> (p \<or> ?g)"
  define same where "same \<longleftrightarrow> (case peer of None \<Rightarrow> False | Some (account, _) \<Rightarrow> account = grantor)"
  have g: "some_and (\<lambda>s. grants (state s)) item \<longleftrightarrow> ?g"
    using read_effect [OF ok [unfolded a_def] t1(2)] e1(3) by (simp add: a_def)
  note run = run [unfolded cancel_subscription_def t1(1) ok_then_simps prod.case t1(2) Let_def g, folded route_def same_def]
  from run obtain m t2 where t2: "update_existing_subscription W ro grantor b (cancel_grant (same \<and> route)) t1 = Inr (m, t2)"
    by auto
  note e2 = existing_effect [OF ok [unfolded a_def] t2 withdrawals_default(1), folded a_def]
  have b2: "only_between a b tx t2" by (rule only_between_trans [OF e1(5) e2(3)])
  consider (both) account n where "peer = Some (account, a)" "key_text account = b" "owner_ok b" "route" "\<not> same"
      "update_existing_subscription W ro account a withdraw_outbound t2 = Inr (n, tx')"
    | (one) "tx' = t2" "\<not> route \<or> same"
  proof (cases "route \<and> \<not> same")
    case True
    then obtain account where "peer = Some (account, a)" "key_text account = b" "owner_ok b"
      using peer by (auto simp: route_def peer_ok_def)
    moreover from this True run t2 obtain n where
      "update_existing_subscription W ro account a withdraw_outbound t2 = Inr (n, tx')" by auto
    ultimately show thesis using both True by blast
  next
    case False
    with run t2 have "tx' = t2" by (auto split: option.splits prod.splits)
    with one False show thesis by blast
  qed
  then have "only_between a b tx tx' \<and> mirror loc tx'"
  proof cases
    case both
    note e3 = existing_effect [OF both(3) [folded both(2)] both(6) withdrawals_default(2), unfolded both(2)]
    have b3: "only_between a b tx tx'"
      using only_between_trans [OF b2] e3(3) by (simp add: only_between_sym [of b a])
    have "p \<or> ?g" using both(4) by (simp add: route_def)
    then have "mirror loc tx'" using both(5)
      by (intro mirror_between [OF mirror b3]) (use e1 paired_cancel(1) in \<open>simp add: e1 e2(1,2) e3(1,2)\<close>)
    with b3 show ?thesis by blast
  next
    case one
    have "mirror loc tx'"
    proof (rule mirror_between [OF mirror b2 [folded one(1)]])
      assume neq: "a \<noteq> b" and l: "loc a" "loc b" and pair: "paired (sub tx a b) (sub tx b a) (waits tx b a) (waits tx a b)"
      have "\<not> same" using neq peer by (auto simp: same_def peer_ok_def a_def split: option.splits)
      have "\<not> route" using one(2) \<open>\<not> same\<close> by blast
      have "\<not> waits tx a b \<and> \<not> ?g"
      proof (cases peer)
        case None
        with peer l have "\<not> live tx b" by (simp add: peer_ok_def)
        with mirror have "sub tx b a = default_subscription" by (simp add: absent_sub mirror_def)
        with pair show ?thesis by (simp add: paired_def in_step_def state_defs)
      next
        case (Some x)
        with \<open>\<not> route\<close> e1(1) show ?thesis by (simp add: route_def)
      qed
      from paired_cancel(2) [OF pair this] neq \<open>\<not> same\<close>
      show "paired (sub tx' a b) (sub tx' b a) (waits tx' b a) (waits tx' a b)"
        by (simp add: one(1) e2(1,2) e1(3,4))
    qed
    with b2 one(1) show ?thesis by blast
  qed
  then show "mirror loc tx'" "only_between a b tx tx'" by blast+
qed

end

context roster_writes
begin

lemma unsubscribe_mirror:
  fixes subscriber
  defines "a \<equiv> key_text subscriber"
  assumes mirror: "mirror loc tx" and ok: "owner_ok a" and peer: "peer_ok loc tx a b peer"
    and run: "unsubscribe W ro subscriber b peer tx = Inr (out, tx')"
  shows "mirror loc tx' \<and> only_between a b tx tx'"
proof (cases peer)
  case None
  obtain m where t: "update_existing_subscription W ro subscriber b (withdraw_own False) tx = Inr (m, tx')"
    using run by (auto simp: unsubscribe_def None)
  note e = existing_effect [OF ok [unfolded a_def] t withdrawals_default(3), folded a_def]
  have "mirror loc tx'"
  proof (rule mirror_between [OF mirror e(3)])
    assume neq: "a \<noteq> b" and l: "loc b" and pair: "paired (sub tx a b) (sub tx b a) (waits tx b a) (waits tx a b)"
    have "\<not> live tx b" using peer l None by (simp add: peer_ok_def)
    with mirror have y: "sub tx b a = default_subscription" "\<not> waits tx b a" by (simp_all add: absent_sub mirror_def)
    from paired_withdraw(2) [OF pair] y neq
    show "paired (sub tx' a b) (sub tx' b a) (waits tx' b a) (waits tx' a b)" by (simp add: e(1,2))
  qed
  with e(3) show ?thesis by blast
next
  case (Some x)
  then obtain account where account: "peer = Some (account, a)" "key_text account = b" "owner_ok b"
    using peer by (auto simp: peer_ok_def)
  let ?g = "grants (state (sub tx b a))"
  obtain p t1 item where t1: "tx_remove_pending W account a tx = Inr (p, t1)" "tx_subscription W t1 account a = Inr item"
    using run by (auto simp: unsubscribe_def account(1) Let_def)
  note e1 = remove_pending_effect [OF account(3) [folded account(2)] t1(1), unfolded account(2)]
  have g: "some_and (\<lambda>s. grants (state s)) item \<longleftrightarrow> ?g"
    using read_effect [OF account(3) [folded account(2)] t1(2)] e1(3) by (simp add: account(2))
  note run = run [unfolded unsubscribe_def account(1) option.case t1(1) ok_then_simps prod.case t1(2) Let_def g]
  from run obtain m t2 n where
    t2: "update_existing_subscription W ro subscriber b (withdraw_own (account = subscriber \<and> ?g)) t1 = Inr (m, t2)" and
    t3: "(if ?g \<and> account \<noteq> subscriber then update_existing_subscription W ro account a drop_grant t2
       else Inr (None, t2)) = Inr (n, tx')"
    by auto
  note e2 = existing_effect [OF ok [unfolded a_def] t2 withdrawals_default(3), folded a_def]
  have b2: "only_between a b tx t2"
    using only_between_trans [OF _ e2(3)] e1(5) by (simp add: only_between_sym [of b a])
  have "only_between a b tx tx' \<and> mirror loc tx'"
  proof (cases "?g \<and> account \<noteq> subscriber")
    case True
    with t3 have "update_existing_subscription W ro account a drop_grant t2 = Inr (n, tx')" by simp
    note e3 = existing_effect [OF account(3) [folded account(2)] this withdrawals_default(4), unfolded account(2)]
    have b3: "only_between a b tx tx'"
      using only_between_trans [OF b2] e3(3) by (simp add: only_between_sym [of b a])
    have "mirror loc tx'"
      by (rule mirror_between [OF mirror b3]) (use True paired_withdraw(1) in \<open>simp add: e1(3,4) e2(1,2) e3(1,2)\<close>)
    with b3 show ?thesis by blast
  next
    case False
    with t3 have "tx' = t2" by (auto split: if_splits)
    moreover have "mirror loc t2"
    proof (rule mirror_between [OF mirror b2])
      assume neq: "a \<noteq> b" and pair: "paired (sub tx a b) (sub tx b a) (waits tx b a) (waits tx a b)"
      have "account \<noteq> subscriber" using neq account(2) by (auto simp: a_def)
      with False paired_withdraw(2) [OF pair] neq
      show "paired (sub t2 a b) (sub t2 b a) (waits t2 b a) (waits t2 a b)" by (simp add: e1(3,4) e2(1,2))
    qed
    ultimately show ?thesis using b2 by blast
  qed
  then show ?thesis by blast
qed

lemma remove_mirror:
  fixes owner
  defines "a \<equiv> key_text owner"
  assumes mirror: "mirror loc tx" and ok: "owner_ok a" and peer: "peer_ok loc tx a b (map_option (\<lambda>k. (k, a)) contact)"
    and run: "state_remove_item W ro owner a b contact tx = Inr (out, tx')"
  shows "mirror loc tx'" and "only_between a b tx tx'"
proof -
  obtain r t1 where t1: "tx_remove_subscription W owner b tx = Inr (r, t1)"
    using run by (auto simp: state_remove_item_def)
  note e1 = remove_effect [OF ok [unfolded a_def] t1, folded a_def]
  note run = run [unfolded state_remove_item_def t1 ok_then_simps prod.case]
  have "only_between a b tx tx' \<and> mirror loc tx'"
  proof (cases r)
    case None
    with run have "tx' = t1" by simp
    moreover have "sub t1 = sub tx" using e1(4) [OF None] by (simp add: fun_eq_iff sub_def)
    ultimately show ?thesis using mirror e1(2,3) by (simp add: mirror_def only_between_def)
  next
    case (Some m)
    from run Some obtain p t2 where t2: "tx_remove_pending W owner b t1 = Inr (p, t2)" by auto
    note e2 = remove_pending_effect [OF ok [unfolded a_def] t2, folded a_def]
    have b2: "only_between a b tx t2" by (rule only_between_trans [OF e1(3) e2(5)])
    note run = run [unfolded Some option.case t2 ok_then_simps prod.case]
    show ?thesis
    proof (cases "\<exists>k. contact = Some k \<and> k \<noteq> owner")
      case True
      then obtain k where k: "contact = Some k" "k \<noteq> owner" by blast
      then have b: "key_text k = b" "owner_ok b" using peer by (auto simp: peer_ok_def)
      from run k obtain q t3 n where t3: "tx_remove_pending W k a t2 = Inr (q, t3)"
        and t4: "update_existing_subscription W ro k a clear_contact t3 = Inr (n, tx')" by auto
      note e3 = remove_pending_effect [OF b(2) [folded b(1)] t3, unfolded b(1)]
      note e4 = existing_effect [OF b(2) [folded b(1)] t4 withdrawals_default(5), unfolded b(1)]
      have b3: "only_between a b tx tx'"
        using only_between_trans [OF b2] only_between_trans [OF e3(5) e4(3)] by (simp add: only_between_sym [of b a])
      have "mirror loc tx'"
        by (rule mirror_between [OF mirror b3])
          (use paired_remove(1) in \<open>simp add: e1(1,2) e2(3,4) e3(3,4) e4(1,2)\<close>)
      with b3 show ?thesis by blast
    next
      case False
      with run have tx': "tx' = t2" by (auto split: option.splits if_splits)
      have "mirror loc t2"
      proof (rule mirror_between [OF mirror b2])
        assume neq: "a \<noteq> b" and l: "loc b" and pair: "paired (sub tx a b) (sub tx b a) (waits tx b a) (waits tx a b)"
        have "contact = None"
          using False peer neq by (cases contact) (auto simp: peer_ok_def a_def)
        with peer l have "\<not> live tx b" by (simp add: peer_ok_def)
        with mirror have "sub tx b a = default_subscription" "\<not> waits tx b a" by (simp_all add: absent_sub mirror_def)
        with pair neq paired_remove(2) show "paired (sub t2 a b) (sub t2 b a) (waits t2 b a) (waits t2 a b)"
          by (simp add: e1(1,2) e2(3,4))
      qed
      with b2 tx' show ?thesis by blast
    qed
  qed
  then show "mirror loc tx'" "only_between a b tx tx'" by blast+
qed

end

section \<open>The contract on redb\<close>

definition redb_view :: "RedbWrite \<Rightarrow> string \<Rightarrow> RosterJid \<Rightarrow> RosterSubscription option" where
  "redb_view tx owner jid =
     (if owner_ok owner then
        (case fmlookup (ITEMS (work tx)) (item_key_text owner jid) of
           None \<Rightarrow> None
         | Some record \<Rightarrow> (case decode_subscription record of Inl _ \<Rightarrow> None | Inr s \<Rightarrow> Some s))
      else None)"

definition redb_waits :: "RedbWrite \<Rightarrow> string \<Rightarrow> RosterJid \<Rightarrow> bool" where
  "redb_waits tx owner jid \<longleftrightarrow> owner_ok owner \<and> fmlookup (PENDING (work tx)) (item_key_text owner jid) \<noteq> None"

lemma item_key_iff:
  "owner_ok a \<Longrightarrow> owner_ok b \<Longrightarrow> item_key_text a s = item_key_text b t \<longleftrightarrow> a = b \<and> s = t"
  by (metis item_key_inject item_key_owner item_key_in_range owner_ok_def)

lemma redb_view_upd:
  assumes "owner_ok owner" and "ITEMS (work tx') = fmupd (item_key_text owner jid) record (ITEMS (work tx))"
    and "decode_subscription record = Inr s"
  shows "redb_view tx' = (redb_view tx)(owner := (redb_view tx owner)(jid := Some s))"
  using assms by (auto simp: fun_eq_iff redb_view_def item_key_iff)

lemma redb_view_drop:
  assumes "owner_ok owner" and "ITEMS (work tx') = fmdrop (item_key_text owner jid) (ITEMS (work tx))"
  shows "redb_view tx' = (redb_view tx)(owner := (redb_view tx owner)(jid := None))"
  using assms by (auto simp: fun_eq_iff redb_view_def item_key_iff)

lemma redb_view_same: "ITEMS (work tx') = ITEMS (work tx) \<Longrightarrow> redb_view tx' = redb_view tx"
  by (simp add: fun_eq_iff redb_view_def)

lemma redb_waits_upd:
  assumes "owner_ok owner" and "PENDING (work tx') = fmupd (item_key_text owner jid) record (PENDING (work tx))"
  shows "redb_waits tx' = (redb_waits tx)(owner := (redb_waits tx owner)(jid := True))"
  using assms by (auto simp: fun_eq_iff redb_waits_def item_key_iff)

lemma redb_waits_drop:
  assumes "owner_ok owner" and "PENDING (work tx') = fmdrop (item_key_text owner jid) (PENDING (work tx))"
  shows "redb_waits tx' = (redb_waits tx)(owner := (redb_waits tx owner)(jid := False))"
  using assms by (auto simp: fun_eq_iff redb_waits_def item_key_iff)

lemma redb_waits_same: "PENDING (work tx') = PENDING (work tx) \<Longrightarrow> redb_waits tx' = redb_waits tx"
  by (simp add: fun_eq_iff redb_waits_def)

definition redb_live :: "RedbWrite \<Rightarrow> string \<Rightarrow> bool" where
  "redb_live tx owner \<longleftrightarrow> account_exists tx owner"

lemma redb_live_same: "ACCOUNTS (work tx') = ACCOUNTS (work tx) \<Longrightarrow> redb_live tx' = redb_live tx"
  by (simp add: fun_eq_iff redb_live_def account_exists_def)

lemma put_roster_item_effect:
  assumes "put_roster_item owner item quota tx = Inr (v, tx')"
  shows "account_exists tx (key_text owner)" "ACCOUNTS (work tx') = ACCOUNTS (work tx)" "PENDING (work tx') = PENDING (work tx)"
    "ITEMS (work tx') = fmupd (item_key owner (item_jid item)) (item_bytes item) (ITEMS (work tx))"
  using assms by (auto simp: put_roster_item_def encode_item_value advance_version_Inr Let_def split: if_splits)

lemma transition_effect:
  assumes "transition_roster_subscription owner jid expected new tx = Inr (Some v, tx')"
  obtains current where "account_exists tx (key_text owner)" "ACCOUNTS (work tx') = ACCOUNTS (work tx)"
    "PENDING (work tx') = PENDING (work tx)"
    "ITEMS (work tx') = fmupd (item_key owner jid) (encode_subscription new @ drop 2 current) (ITEMS (work tx))"
  using assms by (auto simp: transition_roster_subscription_def run_with_snapshot_def copy_subscription_def advance_version_Inr
      split: if_splits option.splits)

lemma put_pending_effects:
  assumes "put_pending_request owner request limit tx = Inr (u, tx')"
  shows "account_exists tx (key_text owner)"
    "tx' = tx\<lparr>work := (work tx)\<lparr>PENDING := fmupd (item_key owner (sender request)) (stanza request) (PENDING (work tx))\<rparr>\<rparr>"
  using assms by (auto simp: put_pending_request_def Let_def split: if_splits)

lemma remove_subscription_effect:
  assumes "owner_ok (key_text owner)" and "remove_roster_subscription owner jid tx = Inr (m, tx')"
  shows "map_option mutated m = redb_view tx (key_text owner) jid" "ACCOUNTS (work tx') = ACCOUNTS (work tx)"
    "PENDING (work tx') = PENDING (work tx)" "ITEMS (work tx') = fmdrop (item_key owner jid) (ITEMS (work tx))"
  using assms by (auto simp: remove_roster_subscription_def advance_version_Inr redb_view_def item_key_def
      split: option.splits sum.splits intro!: fmap_ext)

interpretation redb: roster_writes redb_writes redb_view redb_waits redb_live
proof
  fix tx tx' owner jid s p a v m request limit item quota expected new
  note same = redb_live_same [of tx' tx] redb_waits_same [of tx' tx] redb_view_same [of tx' tx]
  show "tx_account redb_writes tx owner = Inr a \<Longrightarrow> redb_live tx (key_text owner) \<longleftrightarrow> a \<noteq> None"
    by (auto simp: redb_writes_def read_account_def redb_live_def account_exists_def split: option.splits)
  show "owner_ok (key_text owner) \<Longrightarrow> tx_subscription redb_writes tx owner jid = Inr s \<Longrightarrow> s = redb_view tx (key_text owner) jid"
    by (auto simp: redb_writes_def roster_subscription_def redb_view_def item_key_def split: option.splits)
  show "owner_ok (key_text owner) \<Longrightarrow> tx_pending_exists redb_writes tx owner jid = Inr p \<Longrightarrow> p \<longleftrightarrow> redb_waits tx (key_text owner) jid"
    by (auto simp: redb_writes_def pending_request_exists_def redb_waits_def item_key_def)
  show "tx_item redb_writes tx owner jid quota = Inr (Some item) \<Longrightarrow> item_jid item = jid"
    by (auto simp: redb_writes_def roster_item_def decode_item_def Let_def split: option.splits if_splits)
  show "owner_ok (key_text owner) \<Longrightarrow> tx_put_item redb_writes owner item quota tx = Inr (v, tx') \<Longrightarrow>
      redb_live tx (key_text owner) \<and> redb_live tx' = redb_live tx \<and> redb_waits tx' = redb_waits tx \<and>
      redb_view tx' = (redb_view tx)(key_text owner := (redb_view tx (key_text owner))(item_jid item := Some (subscription item)))"
    using put_roster_item_effect [of owner item quota tx v tx'] same
    by (simp add: redb_writes_def redb_live_def item_key_def redb_view_upd)
  show "owner_ok (key_text owner) \<Longrightarrow> tx_remove_subscription redb_writes owner jid tx = Inr (m, tx') \<Longrightarrow>
      map_option mutated m = redb_view tx (key_text owner) jid \<and> redb_live tx' = redb_live tx \<and> redb_waits tx' = redb_waits tx \<and>
      redb_view tx' = (redb_view tx)(key_text owner := (redb_view tx (key_text owner))(jid := None))"
    using remove_subscription_effect [of owner jid tx m tx'] same
    by (simp add: redb_writes_def item_key_def redb_view_drop)
  show "owner_ok (key_text owner) \<Longrightarrow> tx_put_pending redb_writes owner request limit tx = Inr ((), tx') \<Longrightarrow>
      redb_live tx (key_text owner) \<and> redb_live tx' = redb_live tx \<and> redb_view tx' = redb_view tx \<and>
      redb_waits tx' = (redb_waits tx)(key_text owner := (redb_waits tx (key_text owner))(sender request := True))"
    using put_pending_effects [of owner request limit tx "()" tx'] same
    by (simp add: redb_writes_def redb_live_def item_key_def redb_waits_upd)
  show "owner_ok (key_text owner) \<Longrightarrow> tx_remove_pending redb_writes owner jid tx = Inr (p, tx') \<Longrightarrow>
      (p \<longleftrightarrow> redb_waits tx (key_text owner) jid) \<and> redb_live tx' = redb_live tx \<and> redb_view tx' = redb_view tx \<and>
      redb_waits tx' = (redb_waits tx)(key_text owner := (redb_waits tx (key_text owner))(jid := False))"
    using same redb_waits_drop [of "key_text owner" tx' jid tx]
    by (auto simp: redb_writes_def remove_pending_request_def Let_def item_key_def redb_waits_def [of tx])
  show "owner_ok (key_text owner) \<Longrightarrow> tx_transition redb_writes owner jid expected new tx = Inr (Some v, tx') \<Longrightarrow>
      redb_live tx (key_text owner) \<and> redb_live tx' = redb_live tx \<and> redb_waits tx' = redb_waits tx \<and>
      redb_view tx' = (redb_view tx)(key_text owner := (redb_view tx (key_text owner))(jid := Some new))"
    using same by (simp add: redb_writes_def, elim transition_effect)
      (simp add: redb_live_def item_key_def redb_view_upd)
qed

end
