(* ===== verification/Xml_Tree.thy ===== *)
theory Xml_Tree
  imports Account_Store
begin

text \<open>
  XML elements of the stanza model (\<open>lonewolf-xmpp/src/stanza/\<close> \<open>xml.rs\<close>, \<open>namespace.rs\<close> and
  \<open>element.rs\<close>): validation and escaping of text, the namespace context of an element, the builder with
  its tree limits, copying, and the two writers.

  The arena is abstracted away: a handle is the value it resolves to, so allocation failures and handles
  of a foreign arena do not arise. A \<open>NamespaceContext\<close> is the list of its bindings, the innermost first.
  Texts are UTF-8 strings; escaping only touches ASCII characters, so it is written on the bytes.
\<close>

section \<open>Definitions\<close>

subsection \<open>Validation and escaping\<close>

datatype BuildError =
    Allocation | Access | JidFailed JidError | InvalidName | InvalidNamespace | InvalidText
  | DuplicateAttribute | ReservedAttribute | MissingIqId | InvalidIqPayload | InvalidErrorPayload
  | MissingServerAddresses | NotIqRequest | InvalidErrorSource | TreeLimitExceeded

definition XML_NAMESPACE :: string where
  "XML_NAMESPACE = ''http://www.w3.org/XML/1998/namespace''"

definition XMLNS_NAMESPACE :: string where
  "XMLNS_NAMESPACE = ''http://www.w3.org/2000/xmlns/''"

definition STREAM_NAMESPACE :: string where
  "STREAM_NAMESPACE = ''http://etherx.jabber.org/streams''"

definition MAX_ELEMENT_DEPTH :: nat where
  "MAX_ELEMENT_DEPTH = 128"

definition MAX_ELEMENT_NODES :: nat where
  "MAX_ELEMENT_NODES = 65536"

definition name_start :: "nat \<Rightarrow> bool" where
  "name_start c \<longleftrightarrow>
     in_range 0x41 0x5A c \<or> c = 0x5F \<or> in_range 0x61 0x7A c \<or> in_range 0xC0 0xD6 c \<or> in_range 0xD8 0xF6 c \<or>
     in_range 0xF8 0x2FF c \<or> in_range 0x370 0x37D c \<or> in_range 0x37F 0x1FFF c \<or>
     in_range 0x200C 0x200D c \<or> in_range 0x2070 0x218F c \<or> in_range 0x2C00 0x2FEF c \<or>
     in_range 0x3001 0xD7FF c \<or> in_range 0xF900 0xFDCF c \<or> in_range 0xFDF0 0xFFFD c \<or> in_range 0x10000 0xEFFFF c"

definition name_char :: "nat \<Rightarrow> bool" where
  "name_char c \<longleftrightarrow>
     name_start c \<or> c = 0x2D \<or> c = 0x2E \<or> in_range 0x30 0x39 c \<or> c = 0xB7 \<or> in_range 0x300 0x36F c \<or> in_range 0x203F 0x2040 c"

definition text_char :: "nat \<Rightarrow> bool" where
  "text_char c \<longleftrightarrow>
     c = 0x09 \<or> c = 0x0A \<or> c = 0x0D \<or> in_range 0x20 0xD7FF c \<or> in_range 0xE000 0xFFFD c \<or> in_range 0x10000 0x10FFFF c"

definition validate_text :: "string \<Rightarrow> (BuildError, unit) result" where
  "validate_text content = (if list_all text_char (str_chars content) then Inr () else Inl InvalidText)"

definition validate_name :: "string \<Rightarrow> string \<Rightarrow> bool \<Rightarrow> (BuildError, unit) result" where
  "validate_name name namespace attribute =
     (case str_chars name of
        [] \<Rightarrow> Inl InvalidName
      | c # cs \<Rightarrow>
          if \<not> name_start c \<or> \<not> list_all name_char cs then Inl InvalidName
          else if namespace = XMLNS_NAMESPACE \<or> (attribute \<and> namespace = [] \<and> name = ''xmlns'') then Inl InvalidNamespace
          else validate_text namespace)"

definition escape_replacement :: "char \<Rightarrow> bool \<Rightarrow> string option" where
  "escape_replacement c attribute =
     (if c = CHR ''&'' then Some ''&amp;''
      else if c = CHR ''<'' then Some ''&lt;''
      else if c = CHR ''>'' then Some ''&gt;''
      else if c = CHR 0x22 \<and> attribute then Some ''&quot;''
      else if c = CHR 0x09 \<and> attribute then Some ''&#x9;''
      else if c = CHR 0x0A \<and> attribute then Some ''&#xA;''
      else if c = CHR 0x0D then Some ''&#xD;''
      else None)"

definition escape :: "string \<Rightarrow> bool \<Rightarrow> string" where
  "escape content attribute =
     concat (map (\<lambda>c. case escape_replacement c attribute of None \<Rightarrow> [c] | Some r \<Rightarrow> r) content)"

definition quoted :: "string \<Rightarrow> string" where
  "quoted value = CHR 0x22 # escape value True @ [CHR 0x22]"

definition xml_attribute :: "string \<Rightarrow> string \<Rightarrow> string" where
  "xml_attribute name value = CHR '' '' # name @ ''='' @ quoted value"

subsection \<open>Numbers\<close>

definition digit :: "nat \<Rightarrow> char" where
  "digit n = char_of (48 + n)"

text \<open>The decimal \<open>Display\<close> of an unsigned integer, and the loop of the asynchronous writer.\<close>

fun decimal :: "nat \<Rightarrow> string" where
  "decimal n = (if n < 10 then [digit n] else decimal (n div 10) @ [digit (n mod 10)])"

declare decimal.simps [simp del]

function number_loop :: "nat \<Rightarrow> string \<Rightarrow> string" where
  "number_loop n acc =
     (let acc = digit (n mod 10) # acc; n = n div 10 in if n = 0 then acc else number_loop n acc)"
  by auto
termination number_loop by (relation "measure fst") auto

declare number_loop.simps [simp del]

definition number_async :: "nat \<Rightarrow> string" where
  "number_async n = number_loop n []"

text \<open>\<open>str::parse::<usize>\<close>: an optional plus sign and at least one digit, without overflow.\<close>

fun parse_digits :: "nat \<Rightarrow> string \<Rightarrow> nat option" where
  "parse_digits acc [] = Some acc"
| "parse_digits acc (c # cs) =
     (let d = of_char c :: nat in
      if d < 48 \<or> 57 < d then None
      else if 10 * acc + (d - 48) \<le> max_of 64 then parse_digits (10 * acc + (d - 48)) cs else None)"

definition parse_usize :: "string \<Rightarrow> nat option" where
  "parse_usize s =
     (case s of
        [] \<Rightarrow> None
      | c # cs \<Rightarrow> if c = CHR ''+'' then (if cs = [] then None else parse_digits 0 cs) else parse_digits 0 s)"

subsection \<open>Namespace contexts\<close>

type_synonym NamespaceContext = "(string \<times> string) list"

datatype Prefix = DefaultPrefix | NamedPrefix string | GeneratedPrefix nat

definition prefix_write :: "Prefix \<Rightarrow> string" where
  "prefix_write p =
     (case p of
        DefaultPrefix \<Rightarrow> []
      | NamedPrefix prefix \<Rightarrow> prefix @ '':''
      | GeneratedPrefix index \<Rightarrow> ''ns'' @ decimal index @ '':'')"

definition bind :: "string \<Rightarrow> string \<Rightarrow> NamespaceContext \<Rightarrow> NamespaceContext" where
  "bind prefix namespace ctx = (prefix, namespace) # ctx"

definition ns_resolve :: "NamespaceContext \<Rightarrow> string \<Rightarrow> string option" where
  "ns_resolve ctx prefix = map_of ctx prefix"

text \<open>The bindings that no inner binding of the same prefix hides.\<close>

fun bindings :: "NamespaceContext \<Rightarrow> NamespaceContext" where
  "bindings [] = []"
| "bindings ((prefix, namespace) # ctx) =
     (prefix, namespace) # filter (\<lambda>(p, _). p \<noteq> prefix) (bindings ctx)"

definition changed_bindings :: "NamespaceContext \<Rightarrow> NamespaceContext option \<Rightarrow> NamespaceContext" where
  "changed_bindings ctx parent =
     filter (\<lambda>(prefix, namespace). \<not> (case parent of None \<Rightarrow> False | Some p \<Rightarrow> ns_resolve p prefix = Some namespace))
       (bindings ctx)"

definition named_prefix :: "NamespaceContext \<Rightarrow> string \<Rightarrow> string option" where
  "named_prefix ctx namespace =
     map_option fst (List.find (\<lambda>(prefix, value). prefix \<noteq> [] \<and> value = namespace) (bindings ctx))"

fun ilog10 :: "nat \<Rightarrow> nat" where
  "ilog10 n = (if n < 10 then 0 else ilog10 (n div 10) + 1)"

declare ilog10.simps [simp del]

definition checked_ilog10 :: "nat \<Rightarrow> nat option" where
  "checked_ilog10 n = (if n = 0 then None else Some (ilog10 n))"

definition takes_index :: "nat \<Rightarrow> string \<Rightarrow> bool" where
  "takes_index index prefix \<longleftrightarrow>
     (case strip_prefix ''ns'' prefix of
        None \<Rightarrow> False
      | Some suffix \<Rightarrow> parse_usize suffix = Some index \<and>
          length suffix = (case checked_ilog10 index of None \<Rightarrow> 0 | Some n \<Rightarrow> n) + 1)"

definition occupied :: "NamespaceContext \<Rightarrow> nat \<Rightarrow> bool" where
  "occupied ctx index \<longleftrightarrow> list_ex (\<lambda>(prefix, _). takes_index index prefix) (bindings ctx)"

text \<open>An index is taken only by a prefix with that number, so the search ends.\<close>

lemma takes_index_value:
  "takes_index index prefix \<Longrightarrow> Option.bind (strip_prefix ''ns'' prefix) parse_usize = Some index"
  by (simp add: takes_index_def split: option.splits)

lemma occupied_finite: "finite {index. occupied ctx index}"
proof (rule finite_subset)
  show "{index. occupied ctx index} \<subseteq>
    (\<lambda>(prefix, _). the (Option.bind (strip_prefix ''ns'' prefix) parse_usize)) ` set (bindings ctx)"
    by (force simp: occupied_def list_ex_iff image_iff dest: takes_index_value)
qed simp

function generated :: "NamespaceContext \<Rightarrow> nat \<Rightarrow> nat" where
  "generated ctx index = (if occupied ctx index then generated ctx (index + 1) else index)"
  by auto
termination generated
proof (relation "measure (\<lambda>(ctx, index). card {j. index \<le> j \<and> occupied ctx j})")
  fix ctx index
  assume "occupied ctx index"
  then have "{j. index + 1 \<le> j \<and> occupied ctx j} \<subset> {j. index \<le> j \<and> occupied ctx j}"
    by (auto simp: psubset_eq set_eq_iff intro: exI [of _ index])
  moreover have "finite {j. index \<le> j \<and> occupied ctx j}"
    by (rule finite_subset [OF _ occupied_finite [of ctx]]) auto
  ultimately show "((ctx, index + 1), (ctx, index)) \<in>
      measure (\<lambda>(ctx, index). card {j. index \<le> j \<and> occupied ctx j})"
    by (simp add: psubset_card_mono)
qed simp

declare generated.simps [simp del]

definition element_prefix :: "NamespaceContext \<Rightarrow> string \<Rightarrow> Prefix" where
  "element_prefix ctx namespace =
     (if namespace = XML_NAMESPACE then NamedPrefix ''xml''
      else if ctx = [] then (if namespace = STREAM_NAMESPACE then NamedPrefix ''stream'' else DefaultPrefix)
      else if (case ns_resolve ctx [] of None \<Rightarrow> [] | Some n \<Rightarrow> n) = namespace then DefaultPrefix
      else (case named_prefix ctx namespace of
          Some prefix \<Rightarrow> NamedPrefix prefix
        | None \<Rightarrow> GeneratedPrefix (generated ctx 0)))"

definition attribute_prefix :: "NamespaceContext \<Rightarrow> string \<Rightarrow> nat \<Rightarrow> Prefix \<times> nat" where
  "attribute_prefix ctx namespace index =
     (if namespace = [] then (DefaultPrefix, index)
      else if namespace = XML_NAMESPACE then (NamedPrefix ''xml'', index)
      else (case named_prefix ctx namespace of
          Some prefix \<Rightarrow> (NamedPrefix prefix, index)
        | None \<Rightarrow> (let index = generated ctx index in (GeneratedPrefix index, index + 1))))"

definition write_binding :: "string \<Rightarrow> string \<Rightarrow> string" where
  "write_binding prefix namespace =
     '' xmlns'' @ (if prefix = [] then [] else '':'' @ prefix) @ ''='' @ quoted namespace"

definition namespaces_write :: "NamespaceContext \<Rightarrow> Prefix \<Rightarrow> string \<Rightarrow> string option \<Rightarrow> NamespaceContext option \<Rightarrow> string" where
  "namespaces_write ctx prefix namespace parent_namespace parent_context =
     concat (map (\<lambda>(p, n). write_binding p n) (changed_bindings ctx parent_context)) @
     (case prefix of
        GeneratedPrefix index \<Rightarrow> '' xmlns:ns'' @ decimal index @ ''='' @ quoted namespace
      | DefaultPrefix \<Rightarrow>
          if ctx = [] \<and> Some namespace \<noteq> parent_namespace then xml_attribute ''xmlns'' namespace else []
      | NamedPrefix p \<Rightarrow>
          if p = ''stream'' \<and> ctx = [] then xml_attribute ''xmlns:stream'' STREAM_NAMESPACE else [])"

definition child_default :: "NamespaceContext \<Rightarrow> Prefix \<Rightarrow> string \<Rightarrow> string option \<Rightarrow> string option" where
  "child_default ctx prefix namespace parent_namespace =
     (case ns_resolve ctx [] of
        Some n \<Rightarrow> Some n
      | None \<Rightarrow> if prefix = DefaultPrefix then Some namespace else parent_namespace)"

definition rescope_context :: "string \<Rightarrow> string \<Rightarrow> NamespaceContext \<Rightarrow> NamespaceContext" where
  "rescope_context from to ctx =
     map (\<lambda>(prefix, namespace). (prefix, if prefix = [] \<and> namespace = from then to else namespace)) ctx"

subsection \<open>Elements\<close>

record Attribute =
  at_name :: string
  at_namespace :: string
  at_value :: string

datatype Element =
    MkElement (el_name: string) (el_namespace: string) (el_namespaces: NamespaceContext)
      (el_attributes: "Attribute list") (el_children: "Node list") (el_depth: nat) (el_nodes: nat)
  and Node = ElementNode Element | TextNode string

record ElementBuilder =
  b_name :: string
  b_namespace :: string
  b_namespaces :: NamespaceContext
  b_attributes :: "Attribute list"
  b_children :: "Node list"

definition element_builder_in :: "string \<Rightarrow> string \<Rightarrow> (BuildError, ElementBuilder) result" where
  "element_builder_in name namespace =
     ok_then (validate_name name namespace False) (\<lambda>_.
       Inr \<lparr>b_name = name, b_namespace = namespace, b_namespaces = [], b_attributes = [], b_children = []\<rparr>)"

definition element_derive_in :: "Element \<Rightarrow> ElementBuilder" where
  "element_derive_in e =
     \<lparr>b_name = el_name e, b_namespace = el_namespace e, b_namespaces = el_namespaces e,
       b_attributes = el_attributes e, b_children = el_children e\<rparr>"

definition attribute_matches :: "string \<Rightarrow> string \<Rightarrow> Attribute \<Rightarrow> bool" where
  "attribute_matches name namespace a \<longleftrightarrow> at_name a = name \<and> at_namespace a = namespace"

fun attributes_find :: "string \<Rightarrow> string \<Rightarrow> Attribute list \<Rightarrow> nat option" where
  "attributes_find name namespace [] = None"
| "attributes_find name namespace (a # as) =
     (if attribute_matches name namespace a then Some 0 else map_option Suc (attributes_find name namespace as))"

definition attributes_set :: "string \<Rightarrow> string \<Rightarrow> string \<Rightarrow> Attribute list \<Rightarrow> (BuildError, Attribute list) result" where
  "attributes_set name namespace value as =
     ok_then (validate_name name namespace True) (\<lambda>_.
     ok_then (validate_text value) (\<lambda>_.
       (let a = \<lparr>at_name = name, at_namespace = namespace, at_value = value\<rparr> in
        case attributes_find name namespace as of
          Some index \<Rightarrow> Inr (as[index := a])
        | None \<Rightarrow> Inr (as @ [a]))))"

definition attributes_remove :: "string \<Rightarrow> string \<Rightarrow> Attribute list \<Rightarrow> Attribute list" where
  "attributes_remove name namespace as =
     (case attributes_find name namespace as of
        None \<Rightarrow> as
      | Some index \<Rightarrow> take index as @ drop (index + 1) as)"

fun attributes_append_from :: "Attribute list \<Rightarrow> Attribute list \<Rightarrow> (BuildError, Attribute list) result" where
  "attributes_append_from [] as = Inr as"
| "attributes_append_from (a # rest) as =
     ok_then (validate_name (at_name a) (at_namespace a) True) (\<lambda>_. attributes_append_from rest (as @ [a]))"

definition element_attribute :: "string \<Rightarrow> string \<Rightarrow> string \<Rightarrow> ElementBuilder \<Rightarrow> (BuildError, ElementBuilder) result" where
  "element_attribute name namespace value b =
     ok_then (attributes_set name namespace value (b_attributes b)) (\<lambda>as. Inr (b\<lparr>b_attributes := as\<rparr>))"

definition element_remove_attribute :: "string \<Rightarrow> string \<Rightarrow> ElementBuilder \<Rightarrow> ElementBuilder" where
  "element_remove_attribute name namespace b = b\<lparr>b_attributes := attributes_remove name namespace (b_attributes b)\<rparr>"

definition element_text :: "string \<Rightarrow> ElementBuilder \<Rightarrow> (BuildError, ElementBuilder) result" where
  "element_text content b =
     ok_then (validate_text content) (\<lambda>_.
       Inr (if content = [] then b else b\<lparr>b_children := b_children b @ [TextNode content]\<rparr>))"

definition element_child :: "Element \<Rightarrow> ElementBuilder \<Rightarrow> ElementBuilder" where
  "element_child e b = b\<lparr>b_children := b_children b @ [ElementNode e]\<rparr>"

definition element_remove_children :: "string \<Rightarrow> string \<Rightarrow> ElementBuilder \<Rightarrow> ElementBuilder" where
  "element_remove_children name namespace b =
     b\<lparr>b_children := filter (\<lambda>n. case n of ElementNode e \<Rightarrow> \<not> (el_name e = name \<and> el_namespace e = namespace)
         | TextNode _ \<Rightarrow> True) (b_children b)\<rparr>"

definition element_clear_children :: "ElementBuilder \<Rightarrow> ElementBuilder" where
  "element_clear_children b = b\<lparr>b_children := []\<rparr>"

definition node_size :: "Node \<Rightarrow> nat \<times> nat" where
  "node_size n = (case n of ElementNode e \<Rightarrow> (el_depth e, el_nodes e) | TextNode _ \<Rightarrow> (0, 1))"

fun measure_children :: "Node list \<Rightarrow> nat \<Rightarrow> nat \<Rightarrow> (BuildError, nat \<times> nat) result" where
  "measure_children [] depth nodes = Inr (depth, nodes)"
| "measure_children (n # rest) depth nodes =
     (let (child_depth, child_nodes) = node_size n; depth = max depth (child_depth + 1); nodes = nodes + child_nodes
      in if MAX_ELEMENT_DEPTH < depth \<or> MAX_ELEMENT_NODES < nodes then Inl TreeLimitExceeded
         else measure_children rest depth nodes)"

definition element_build :: "ElementBuilder \<Rightarrow> (BuildError, Element) result" where
  "element_build b =
     ok_then (measure_children (b_children b) 1 1) (\<lambda>(depth, nodes).
       Inr (MkElement (b_name b) (b_namespace b) (b_namespaces b) (b_attributes b) (b_children b) depth nodes))"

subsection \<open>Frames of the parser\<close>

definition frame_attribute :: "string \<Rightarrow> string \<Rightarrow> string \<Rightarrow> ElementBuilder \<Rightarrow> (BuildError, ElementBuilder) result" where
  "frame_attribute name namespace value b =
     (if attributes_find name namespace (b_attributes b) \<noteq> None then Inl DuplicateAttribute
      else element_attribute name namespace value b)"

definition frame_text :: "string \<Rightarrow> ElementBuilder \<Rightarrow> (BuildError, ElementBuilder) result" where
  "frame_text content b =
     ok_then (validate_text content) (\<lambda>_. Inr (b\<lparr>b_children := b_children b @ [TextNode content]\<rparr>))"

subsection \<open>Reading and copying\<close>

definition ref_attribute :: "Element \<Rightarrow> string \<Rightarrow> string \<Rightarrow> string option" where
  "ref_attribute e name namespace =
     map_option at_value (List.find (attribute_matches name namespace) (el_attributes e))"

fun child_elements :: "Node list \<Rightarrow> Element list" where
  "child_elements [] = []"
| "child_elements (ElementNode e # rest) = e # child_elements rest"
| "child_elements (TextNode _ # rest) = child_elements rest"

definition ref_child :: "Element \<Rightarrow> string \<Rightarrow> string \<Rightarrow> Element option" where
  "ref_child e name namespace =
     List.find (\<lambda>c. el_name c = name \<and> el_namespace c = namespace) (child_elements (el_children e))"

definition ref_text_of :: "Element \<Rightarrow> string option" where
  "ref_text_of e = (case el_children e of [TextNode content] \<Rightarrow> Some content | _ \<Rightarrow> None)"

fun clone_element :: "Element \<Rightarrow> (BuildError, Element) result"
  and clone_nodes :: "Node list \<Rightarrow> (BuildError, Node list) result" where
  "clone_element (MkElement name namespace ctx as nodes d n) =
     ok_then (validate_name name namespace False) (\<lambda>_.
     ok_then (attributes_append_from as []) (\<lambda>as.
     ok_then (clone_nodes nodes) (\<lambda>nodes.
       element_build \<lparr>b_name = name, b_namespace = namespace, b_namespaces = ctx, b_attributes = as, b_children = nodes\<rparr>)))"
| "clone_nodes [] = Inr []"
| "clone_nodes (ElementNode e # rest) =
     ok_then (clone_element e) (\<lambda>e. ok_then (clone_nodes rest) (\<lambda>rest. Inr (ElementNode e # rest)))"
| "clone_nodes (TextNode t # rest) = ok_then (clone_nodes rest) (\<lambda>rest. Inr (TextNode t # rest))"

fun rescope_element :: "string \<Rightarrow> string \<Rightarrow> Element \<Rightarrow> (BuildError, Element) result"
  and rescope_nodes :: "string \<Rightarrow> string \<Rightarrow> Node list \<Rightarrow> ElementBuilder \<Rightarrow> (BuildError, ElementBuilder) result" where
  "rescope_element from to (MkElement name namespace ctx as nodes d n) =
     (if namespace \<noteq> from \<or> from = to then clone_element (MkElement name namespace ctx as nodes d n)
      else
        ok_then (element_builder_in name to) (\<lambda>frame.
        ok_then (attributes_append_from as []) (\<lambda>as.
        ok_then (rescope_nodes from to nodes
            (frame\<lparr>b_namespaces := rescope_context from to ctx, b_attributes := as\<rparr>)) element_build)))"
| "rescope_nodes from to [] frame = Inr frame"
| "rescope_nodes from to (ElementNode e # rest) frame =
     ok_then (rescope_element from to e) (\<lambda>child. rescope_nodes from to rest (element_child child frame))"
| "rescope_nodes from to (TextNode t # rest) frame =
     ok_then (frame_text t frame) (\<lambda>frame. rescope_nodes from to rest frame)"

subsection \<open>Writing\<close>

fun write_attributes_from :: "NamespaceContext \<Rightarrow> nat \<Rightarrow> nat \<Rightarrow> Attribute list \<Rightarrow> string" where
  "write_attributes_from ctx index gen [] = []"
| "write_attributes_from ctx index gen (a # as) =
     (let (prefix, gen) = attribute_prefix ctx (at_namespace a) (max gen index) in
      (case prefix of GeneratedPrefix i \<Rightarrow> '' xmlns:ns'' @ decimal i @ ''='' @ quoted (at_namespace a) | _ \<Rightarrow> []) @
      CHR '' '' # prefix_write prefix @ at_name a @ ''='' @ quoted (at_value a) @
      write_attributes_from ctx (index + 1) gen as)"

definition write_attributes :: "Attribute list \<Rightarrow> NamespaceContext \<Rightarrow> Prefix \<Rightarrow> string" where
  "write_attributes as ctx prefix =
     write_attributes_from ctx 0 (case prefix of GeneratedPrefix index \<Rightarrow> index + 1 | _ \<Rightarrow> 0) as"

fun write_in :: "Element \<Rightarrow> string option \<Rightarrow> NamespaceContext option \<Rightarrow> string"
  and write_nodes :: "Node list \<Rightarrow> string option \<Rightarrow> NamespaceContext option \<Rightarrow> string" where
  "write_in (MkElement name namespace ctx as nodes d n) parent_namespace parent_context =
     (let prefix = element_prefix ctx namespace in
      ''<'' @ prefix_write prefix @ name @
      namespaces_write ctx prefix namespace parent_namespace parent_context @
      write_attributes as ctx prefix @
      (if nodes = [] then ''/>''
       else ''>'' @ write_nodes nodes (child_default ctx prefix namespace parent_namespace) (Some ctx) @
         ''</'' @ prefix_write prefix @ name @ ''>''))"
| "write_nodes [] namespace ctx = []"
| "write_nodes (ElementNode e # rest) namespace ctx = write_in e namespace ctx @ write_nodes rest namespace ctx"
| "write_nodes (TextNode t # rest) namespace ctx = escape t False @ write_nodes rest namespace ctx"

definition write_xml :: "Element \<Rightarrow> string" where
  "write_xml e = write_in e None None"

subsection \<open>Writing without recursion\<close>

record WriteFrame =
  wf_element :: Element
  wf_namespace :: "string option"
  wf_namespaces :: NamespaceContext
  next_child :: nat

definition prefix_write_async :: "Prefix \<Rightarrow> string" where
  "prefix_write_async p =
     (case p of
        DefaultPrefix \<Rightarrow> []
      | NamedPrefix prefix \<Rightarrow> prefix @ '':''
      | GeneratedPrefix index \<Rightarrow> ''ns'' @ number_async index @ '':'')"

definition namespaces_write_async :: "NamespaceContext \<Rightarrow> Prefix \<Rightarrow> string \<Rightarrow> string option \<Rightarrow> NamespaceContext option \<Rightarrow> string" where
  "namespaces_write_async ctx prefix namespace parent_namespace parent_context =
     concat (map (\<lambda>(p, n). '' xmlns'' @ (if p \<noteq> [] then '':'' @ p else []) @ ''='' @ quoted n)
       (changed_bindings ctx parent_context)) @
     (case prefix of
        GeneratedPrefix index \<Rightarrow> '' xmlns:ns'' @ number_async index @ ''='' @ quoted namespace
      | DefaultPrefix \<Rightarrow>
          if ctx = [] \<and> Some namespace \<noteq> parent_namespace then xml_attribute ''xmlns'' namespace else []
      | NamedPrefix p \<Rightarrow>
          if p = ''stream'' \<and> ctx = [] then xml_attribute ''xmlns:stream'' STREAM_NAMESPACE else [])"

fun write_attributes_async_from :: "NamespaceContext \<Rightarrow> nat \<Rightarrow> nat \<Rightarrow> Attribute list \<Rightarrow> string" where
  "write_attributes_async_from ctx index gen [] = []"
| "write_attributes_async_from ctx index gen (a # as) =
     (let (prefix, gen) = attribute_prefix ctx (at_namespace a) (max gen index) in
      (case prefix of GeneratedPrefix i \<Rightarrow> '' xmlns:ns'' @ number_async i @ ''='' @ quoted (at_namespace a) | _ \<Rightarrow> []) @
      CHR '' '' # prefix_write_async prefix @ at_name a @ ''='' @ quoted (at_value a) @
      write_attributes_async_from ctx (index + 1) gen as)"

definition write_attributes_async :: "Attribute list \<Rightarrow> NamespaceContext \<Rightarrow> Prefix \<Rightarrow> string" where
  "write_attributes_async as ctx prefix =
     write_attributes_async_from ctx 0 (case prefix of GeneratedPrefix index \<Rightarrow> index + 1 | _ \<Rightarrow> 0) as"

definition write_start_async :: "Element \<Rightarrow> string option \<Rightarrow> NamespaceContext option \<Rightarrow> string \<times> bool \<times> string option" where
  "write_start_async e parent_namespace parent_context =
     (let prefix = element_prefix (el_namespaces e) (el_namespace e);
          start = ''<'' @ prefix_write_async prefix @ el_name e @
            namespaces_write_async (el_namespaces e) prefix (el_namespace e) parent_namespace parent_context @
            write_attributes_async (el_attributes e) (el_namespaces e) prefix
      in if el_children e = [] then (start @ ''/>'', False, None)
         else (start @ ''>'', True, child_default (el_namespaces e) prefix (el_namespace e) parent_namespace))"

definition write_end_async :: "Element \<Rightarrow> string" where
  "write_end_async e = ''</'' @ prefix_write_async (element_prefix (el_namespaces e) (el_namespace e)) @ el_name e @ ''>''"

text \<open>The work left for an element: each child is started, its own children written, and it is closed.\<close>

fun element_work :: "Element \<Rightarrow> nat" and nodes_work :: "Node list \<Rightarrow> nat" where
  "element_work (MkElement name namespace ctx as nodes d n) = nodes_work nodes"
| "nodes_work [] = 0"
| "nodes_work (ElementNode e # rest) = 2 + element_work e + nodes_work rest"
| "nodes_work (TextNode t # rest) = 1 + nodes_work rest"

definition frame_work :: "WriteFrame \<Rightarrow> nat" where
  "frame_work f = 1 + nodes_work (drop (next_child f) (el_children (wf_element f)))"

function write_frames :: "WriteFrame list \<Rightarrow> string \<Rightarrow> string" where
  "write_frames [] out = out"
| "write_frames (f # frames) out =
     (if next_child f < length (el_children (wf_element f)) then
        (let f' = f\<lparr>next_child := next_child f + 1\<rparr> in
         case el_children (wf_element f) ! next_child f of
           ElementNode c \<Rightarrow>
             (let (content, has_children, namespace) = write_start_async c (wf_namespace f) (Some (wf_namespaces f)) in
              if has_children
              then write_frames (\<lparr>wf_element = c, wf_namespace = namespace, wf_namespaces = el_namespaces c, next_child = 0\<rparr>
                     # f' # frames) (out @ content)
              else write_frames (f' # frames) (out @ content))
         | TextNode t \<Rightarrow> write_frames (f' # frames) (out @ escape t False))
      else write_frames frames (out @ write_end_async (wf_element f)))"
  by pat_completeness auto

lemma element_work_children [simp]: "nodes_work (el_children e) = element_work e"
  by (cases e) simp

lemma nodes_work_drop:
  "i < length nodes \<Longrightarrow> nodes_work (drop i nodes) =
     (case nodes ! i of ElementNode e \<Rightarrow> 2 + element_work e | TextNode t \<Rightarrow> 1) + nodes_work (drop (i + 1) nodes)"
  by (subst Cons_nth_drop_Suc [symmetric]) (auto split: Node.splits)

termination write_frames
  by (relation "measure (\<lambda>(frames, _). sum_list (map frame_work frames))")
    (auto simp: frame_work_def nodes_work_drop)

definition write_in_async :: "Element \<Rightarrow> string option \<Rightarrow> NamespaceContext option \<Rightarrow> string" where
  "write_in_async e parent_namespace parent_context =
     (let (content, has_children, namespace) = write_start_async e parent_namespace parent_context in
      write_frames (if has_children
        then [\<lparr>wf_element = e, wf_namespace = namespace, wf_namespaces = el_namespaces e, next_child = 0\<rparr>] else []) content)"

section \<open>The two writers agree\<close>

lemma number_loop_decimal: "number_loop n acc = decimal n @ acc"
proof (induction n arbitrary: acc rule: less_induct)
  case (less n)
  show ?case
  proof (cases "n < 10")
    case True
    then show ?thesis by (simp add: number_loop.simps [of n] decimal.simps [of n])
  next
    case False
    then have "n div 10 \<noteq> 0" "n div 10 < n" by simp_all
    with False less show ?thesis
      by (simp add: number_loop.simps [of n] decimal.simps [of n] Let_def)
  qed
qed

lemma number_async_decimal [simp]: "number_async n = decimal n"
  by (simp add: number_async_def number_loop_decimal)

lemma prefix_write_async_eq [simp]: "prefix_write_async p = prefix_write p"
  by (simp add: prefix_write_async_def prefix_write_def split: Prefix.split)

lemma namespaces_write_async_eq [simp]: "namespaces_write_async = namespaces_write"
proof -
  have "(\<lambda>(p, n). '' xmlns'' @ (if p \<noteq> [] then '':'' @ p else []) @ ''='' @ quoted n) = (\<lambda>(p, n). write_binding p n)"
    by (simp add: fun_eq_iff write_binding_def)
  then show ?thesis
    by (simp only: fun_eq_iff namespaces_write_async_def namespaces_write_def)
      (simp split: Prefix.split)
qed

lemma write_attributes_async_from_eq: "write_attributes_async_from ctx index gen as = write_attributes_from ctx index gen as"
  by (induction as arbitrary: index gen) (simp_all split: prod.split Prefix.split)

lemma write_attributes_async_eq [simp]: "write_attributes_async = write_attributes"
  by (simp add: fun_eq_iff write_attributes_async_def write_attributes_def write_attributes_async_from_eq)

lemma write_in_start_end:
  "write_in e namespace ctx =
     (let (content, has_children, inner) = write_start_async e namespace ctx in
      content @ (if has_children then write_nodes (el_children e) inner (Some (el_namespaces e)) @ write_end_async e else []))"
  by (cases e) (simp add: write_start_async_def write_end_async_def Let_def)

lemma write_start_childless: "write_start_async e namespace ctx = (content, False, inner) \<Longrightarrow> el_children e = []"
  by (auto simp: write_start_async_def Let_def split: if_splits)

lemma write_frames_top:
  "write_frames (f # frames) out =
     write_frames frames (out @ write_nodes (drop (next_child f) (el_children (wf_element f))) (wf_namespace f) (Some (wf_namespaces f))
       @ write_end_async (wf_element f))"
proof (induction "frame_work f" arbitrary: f frames out rule: less_induct)
  case less
  let ?nodes = "el_children (wf_element f)" and ?i = "next_child f"
  let ?f = "f\<lparr>next_child := ?i + 1\<rparr>"
  show ?case
  proof (cases "?i < length ?nodes")
    case False
    then show ?thesis by simp
  next
    case True
    note drop = Cons_nth_drop_Suc [OF True, symmetric]
    have step: "write_frames (?f # frames) out' =
        write_frames frames (out' @ write_nodes (drop (?i + 1) ?nodes) (wf_namespace f) (Some (wf_namespaces f))
          @ write_end_async (wf_element f))" for frames out'
      using less [of ?f] True by (simp add: frame_work_def nodes_work_drop split: Node.splits)
    show ?thesis
    proof (cases "?nodes ! ?i")
      case (TextNode t)
      with True step show ?thesis by (simp add: drop)
    next
      case (ElementNode c)
      obtain content has inner where start: "write_start_async c (wf_namespace f) (Some (wf_namespaces f)) = (content, has, inner)"
        by (metis prod_cases3)
      let ?c = "\<lparr>wf_element = c, wf_namespace = inner, wf_namespaces = el_namespaces c, next_child = 0\<rparr>"
      have "frame_work ?c < frame_work f"
        using True ElementNode by (simp add: frame_work_def nodes_work_drop)
      from less [OF this] have child: "write_frames (?c # ?f # frames) (out @ content) =
          write_frames (?f # frames) (out @ content @ write_nodes (el_children c) inner (Some (el_namespaces c)) @ write_end_async c)"
        by simp
      show ?thesis
        using True ElementNode start child step
        by (simp add: drop write_in_start_end [of c])
    qed
  qed
qed

section \<open>Escaping\<close>

text \<open>
  A conforming reader: it normalises raw white space (XML 1.0, sections 2.11 and 3.3.3) and then
  replaces the references.
\<close>

definition entities :: "(string \<times> char) list" where
  "entities = [(''amp;'', CHR ''&''), (''lt;'', CHR ''<''), (''gt;'', CHR ''>''), (''quot;'', CHR 0x22),
     (''#x9;'', CHR 0x09), (''#xA;'', CHR 0x0A), (''#xD;'', CHR 0x0D)]"

definition entity :: "string \<Rightarrow> (char \<times> nat) option" where
  "entity s = map_option (\<lambda>(name, c). (c, length name))
     (List.find (\<lambda>(name, _). take (length name) s = name) entities)"

fun decode_entities :: "string \<Rightarrow> string" where
  "decode_entities [] = []"
| "decode_entities (c # cs) =
     (case (if c = CHR ''&'' then entity cs else None) of
        Some (x, n) \<Rightarrow> x # decode_entities (drop n cs)
      | None \<Rightarrow> c # decode_entities cs)"

definition normalize_attribute :: "string \<Rightarrow> string" where
  "normalize_attribute s = map (\<lambda>c. if c \<in> {CHR 0x09, CHR 0x0A, CHR 0x0D} then CHR '' '' else c) s"

fun normalize_lines :: "string \<Rightarrow> string" where
  "normalize_lines [] = []"
| "normalize_lines (c # cs) =
     (if c = CHR 0x0D then CHR 0x0A # normalize_lines (drop (if take 1 cs = [CHR 0x0A] then 1 else 0) cs)
      else c # normalize_lines cs)"

definition read_text :: "bool \<Rightarrow> string \<Rightarrow> string" where
  "read_text attribute s = decode_entities (if attribute then normalize_attribute s else normalize_lines s)"

lemma escape_Cons: "escape (c # cs) a = (case escape_replacement c a of None \<Rightarrow> [c] | Some r \<Rightarrow> r) @ escape cs a"
  by (simp add: escape_def)

lemma escape_Nil [simp]: "escape [] a = []"
  by (simp add: escape_def)

lemma escape_chars:
  "c \<in> set (escape s a) \<Longrightarrow> c \<noteq> CHR ''<'' \<and> c \<noteq> CHR ''>'' \<and> c \<noteq> CHR 0x0D \<and>
     (a \<longrightarrow> c \<noteq> CHR 0x22 \<and> c \<noteq> CHR 0x09 \<and> c \<noteq> CHR 0x0A)"
  by (induction s) (auto simp: escape_Cons escape_replacement_def split: if_splits)

lemma entity_values:
  "entity (''amp;'' @ rest) = Some (CHR ''&'', 4)" "entity (''lt;'' @ rest) = Some (CHR ''<'', 3)"
  "entity (''gt;'' @ rest) = Some (CHR ''>'', 3)" "entity (''quot;'' @ rest) = Some (CHR 0x22, 5)"
  "entity (''#x9;'' @ rest) = Some (CHR 0x09, 4)" "entity (''#xA;'' @ rest) = Some (CHR 0x0A, 4)"
  "entity (''#xD;'' @ rest) = Some (CHR 0x0D, 4)"
  by (simp_all add: entity_def entities_def)

lemma decode_reference:
  assumes "(name, c) \<in> set entities"
  shows "decode_entities (CHR ''&'' # name @ rest) = c # decode_entities rest"
proof -
  from assms have "entity (name @ rest) = Some (c, length name)"
    unfolding entities_def set_simps insert_iff prod.inject empty_iff
    by (elim disjE conjE FalseE) (simp_all only: entity_values list.size, simp_all)
  then show ?thesis by simp
qed

lemma escape_replacement_entity: "escape_replacement c a = Some r \<Longrightarrow> \<exists>name. r = CHR ''&'' # name \<and> (name, c) \<in> set entities"
  by (auto simp: escape_replacement_def entities_def split: if_splits)

lemma decode_escape: "decode_entities (escape s a) = s"
proof (induction s)
  case Nil
  then show ?case by simp
next
  case (Cons c cs)
  show ?case
  proof (cases "escape_replacement c a")
    case None
    then have "c \<noteq> CHR ''&''" by (auto simp: escape_replacement_def)
    with None Cons show ?thesis by (simp add: escape_Cons)
  next
    case (Some r)
    with escape_replacement_entity obtain name where "r = CHR ''&'' # name" "(name, c) \<in> set entities" by blast
    with decode_reference Some Cons show ?thesis by (simp add: escape_Cons)
  qed
qed

lemma normalize_lines_id: "CHR 0x0D \<notin> set s \<Longrightarrow> normalize_lines s = s"
  by (induction s) auto

lemma normalize_attribute_id: "set s \<inter> {CHR 0x09, CHR 0x0A, CHR 0x0D} = {} \<Longrightarrow> normalize_attribute s = s"
  by (auto simp: normalize_attribute_def intro!: map_idI)

lemma read_escape: "read_text attribute (escape s attribute) = s"
proof (cases attribute)
  case True
  have "normalize_attribute (escape s True) = escape s True"
    by (rule normalize_attribute_id) (use escape_chars [of _ s True] in blast)
  with True show ?thesis by (simp add: read_text_def decode_escape)
next
  case False
  have "normalize_lines (escape s False) = escape s False"
    by (rule normalize_lines_id) (use escape_chars [of _ s False] in blast)
  with False show ?thesis by (simp add: read_text_def decode_escape)
qed

section \<open>Elements built are well formed\<close>

fun element_height :: "Element \<Rightarrow> nat" and nodes_height :: "Node list \<Rightarrow> nat" where
  "element_height (MkElement name namespace ctx as nodes d n) = 1 + nodes_height nodes"
| "nodes_height [] = 0"
| "nodes_height (ElementNode e # rest) = max (element_height e) (nodes_height rest)"
| "nodes_height (TextNode t # rest) = nodes_height rest"

fun element_count :: "Element \<Rightarrow> nat" and nodes_count :: "Node list \<Rightarrow> nat" where
  "element_count (MkElement name namespace ctx as nodes d n) = 1 + nodes_count nodes"
| "nodes_count [] = 0"
| "nodes_count (ElementNode e # rest) = element_count e + nodes_count rest"
| "nodes_count (TextNode t # rest) = 1 + nodes_count rest"

definition attribute_ok :: "Attribute \<Rightarrow> bool" where
  "attribute_ok a \<longleftrightarrow> validate_name (at_name a) (at_namespace a) True = Inr () \<and> validate_text (at_value a) = Inr ()"

definition attribute_key :: "Attribute \<Rightarrow> string \<times> string" where
  "attribute_key a = (at_name a, at_namespace a)"

definition attributes_ok :: "Attribute list \<Rightarrow> bool" where
  "attributes_ok as \<longleftrightarrow> list_all attribute_ok as \<and> distinct (map attribute_key as)"

text \<open>Names, values and texts are valid XML, and the recorded depth and node count are the true ones.\<close>

fun element_ok :: "Element \<Rightarrow> bool" and nodes_ok :: "Node list \<Rightarrow> bool" where
  "element_ok (MkElement name namespace ctx as nodes d n) \<longleftrightarrow>
     validate_name name namespace False = Inr () \<and> attributes_ok as \<and> nodes_ok nodes \<and>
     d = 1 + nodes_height nodes \<and> d \<le> MAX_ELEMENT_DEPTH \<and> n = 1 + nodes_count nodes \<and> n \<le> MAX_ELEMENT_NODES"
| "nodes_ok [] \<longleftrightarrow> True"
| "nodes_ok (ElementNode e # rest) \<longleftrightarrow> element_ok e \<and> nodes_ok rest"
| "nodes_ok (TextNode t # rest) \<longleftrightarrow> validate_text t = Inr () \<and> nodes_ok rest"

definition builder_ok :: "ElementBuilder \<Rightarrow> bool" where
  "builder_ok b \<longleftrightarrow> validate_name (b_name b) (b_namespace b) False = Inr () \<and> attributes_ok (b_attributes b) \<and>
     nodes_ok (b_children b)"

lemma element_ok_size: "element_ok e \<Longrightarrow> el_depth e = element_height e \<and> el_nodes e = element_count e"
  by (cases e) simp

lemma node_list_induct [case_names Nil Element Text]:
  assumes "P []" and "\<And>e rest. P rest \<Longrightarrow> P (ElementNode e # rest)" and "\<And>t rest. P rest \<Longrightarrow> P (TextNode t # rest)"
  shows "P nodes"
  by (induction nodes) (use assms Node.exhaust in metis)+

lemma nodes_ok_append [simp]: "nodes_ok (xs @ ys) \<longleftrightarrow> nodes_ok xs \<and> nodes_ok ys"
  by (induction xs rule: node_list_induct) auto

lemma nodes_ok_filter: "nodes_ok xs \<Longrightarrow> nodes_ok (filter p xs)"
  by (induction xs rule: node_list_induct) auto

lemma measure_children_ok:
  assumes "nodes_ok nodes" and "d \<le> MAX_ELEMENT_DEPTH" and "n \<le> MAX_ELEMENT_NODES" and "1 \<le> d"
  shows "measure_children nodes d n =
    (if MAX_ELEMENT_DEPTH < max d (1 + nodes_height nodes) \<or> MAX_ELEMENT_NODES < n + nodes_count nodes
     then Inl TreeLimitExceeded else Inr (max d (1 + nodes_height nodes), n + nodes_count nodes))"
  using assms
proof (induction nodes arbitrary: d n rule: node_list_induct)
  case (Element e rest)
  then show ?case by (simp add: node_size_def element_ok_size Let_def max_def)
qed (simp_all add: node_size_def Let_def max_def)

lemma build_ok:
  assumes "builder_ok b"
  shows "element_build b = Inr e \<Longrightarrow> element_ok e"
    and "element_build b = Inl x \<longleftrightarrow> x = TreeLimitExceeded \<and>
      (MAX_ELEMENT_DEPTH < 1 + nodes_height (b_children b) \<or> MAX_ELEMENT_NODES < 1 + nodes_count (b_children b))"
  using assms by (auto simp: element_build_def builder_ok_def measure_children_ok ok_then_Inl_iff
      MAX_ELEMENT_DEPTH_def MAX_ELEMENT_NODES_def max_def split: if_splits)

lemma attributes_find_Some:
  "attributes_find name namespace as = Some i \<Longrightarrow> i < length as \<and> attribute_key (as ! i) = (name, namespace)"
  by (induction as arbitrary: i) (auto simp: attribute_matches_def attribute_key_def split: if_splits)

lemma attributes_find_None: "attributes_find name namespace as = None \<longleftrightarrow> (name, namespace) \<notin> attribute_key ` set as"
  by (induction as) (auto simp: attribute_matches_def attribute_key_def)

lemma attributes_set_ok:
  assumes "attributes_ok as" and "attributes_set name namespace value as = Inr as'"
  shows "attributes_ok as'"
proof (cases "attributes_find name namespace as")
  case None
  with assms show ?thesis
    by (auto simp: attributes_set_def attributes_ok_def attribute_ok_def attributes_find_None Let_def attribute_key_def)
next
  case (Some i)
  let ?a = "\<lparr>at_name = name, at_namespace = namespace, at_value = value\<rparr>"
  from Some assms(2) have as': "as' = as[i := ?a]" and ok: "attribute_ok ?a"
    by (auto simp: attributes_set_def attribute_ok_def Let_def)
  from attributes_find_Some [OF Some] have i: "i < length as" "attribute_key (as ! i) = attribute_key ?a"
    by (simp_all add: attribute_key_def)
  have "map attribute_key as' = map attribute_key as"
    unfolding as' map_update using i by (metis list_update_id nth_map)
  then show ?thesis using assms(1) ok
    by (auto simp: attributes_ok_def as' list_all_iff dest: set_update_subset_insert [THEN subsetD])
qed

lemma attributes_remove_ok: "attributes_ok as \<Longrightarrow> attributes_ok (attributes_remove name namespace as)"
  by (auto simp: attributes_remove_def attributes_ok_def list_all_iff take_map [symmetric] drop_map [symmetric]
      set_take_disj_set_drop_if_distinct distinct_take distinct_drop dest: in_set_takeD in_set_dropD split: option.splits)

lemma attributes_append_ok: "attributes_ok (xs @ as) \<Longrightarrow> attributes_append_from as xs = Inr (xs @ as)"
  by (induction as arbitrary: xs) (simp_all add: attributes_ok_def attribute_ok_def)

lemma clone_ok: "element_ok e \<Longrightarrow> clone_element e = Inr e" "nodes_ok nodes \<Longrightarrow> clone_nodes nodes = Inr nodes"
proof (induction e and nodes rule: clone_element_clone_nodes.induct)
  case (1 name namespace ctx as nodes d n)
  let ?b = "\<lparr>b_name = name, b_namespace = namespace, b_namespaces = ctx, b_attributes = as, b_children = nodes\<rparr>"
  have "measure_children nodes 1 1 = Inr (d, n)"
    using 1(2) by (subst measure_children_ok) (simp_all add: MAX_ELEMENT_DEPTH_def MAX_ELEMENT_NODES_def)
  with 1 attributes_append_ok [of "[]" as] show ?case by (simp add: element_build_def)
qed simp_all

lemma rescope_ok:
  "element_ok e \<Longrightarrow> rescope_element old new e = Inr e' \<Longrightarrow> element_ok e'"
  "nodes_ok nodes \<Longrightarrow> builder_ok frame \<Longrightarrow> rescope_nodes old new nodes frame = Inr frame' \<Longrightarrow> builder_ok frame'"
proof (induction old new e and old new nodes frame arbitrary: e' and frame' rule: rescope_element_rescope_nodes.induct)
  case (1 old new name namespace ctx as nodes d n)
  show ?case
  proof (cases "namespace \<noteq> old \<or> old = new")
    case True
    with 1(3) have "clone_element (MkElement name namespace ctx as nodes d n) = Inr e'" by (simp only: rescope_element.simps if_True)
    then have "e' = MkElement name namespace ctx as nodes d n" using clone_ok(1) [OF 1(2)] by (metis sum.inject(2))
    with 1(2) show ?thesis by blast
  next
    case False
    have as: "attributes_append_from as [] = Inr as" using attributes_append_ok [of "[]" as] 1(2) by simp
    from 1(3) False as obtain frame b where frame: "element_builder_in name new = Inr frame"
        "rescope_nodes old new nodes (frame\<lparr>b_namespaces := rescope_context old new ctx, b_attributes := as\<rparr>) = Inr b"
        "element_build b = Inr e'"
      by auto
    have "nodes_ok nodes" "attributes_ok as" using 1(2) by simp_all
    moreover from this have "builder_ok (frame\<lparr>b_namespaces := rescope_context old new ctx, b_attributes := as\<rparr>)"
      using frame(1) by (auto simp: element_builder_in_def builder_ok_def)
    ultimately have "builder_ok b" using 1(1) [OF False _ _ frame(2)] by blast
    then show ?thesis using frame(3) by (rule build_ok(1))
  qed
next
  case (3 old new e rest frame)
  from 3(5) obtain c where c: "rescope_element old new e = Inr c" "rescope_nodes old new rest (element_child c frame) = Inr frame'"
    by auto
  have "element_ok c" using 3(1) [OF _ c(1)] 3(3) by simp
  then have "builder_ok (element_child c frame)" using 3(4) by (simp add: element_child_def builder_ok_def)
  from 3(2) [OF _ this c(2)] 3(3) show ?case by simp
next
  case (4 old new t rest frame)
  from 4(4) obtain f where f: "frame_text t frame = Inr f" "rescope_nodes old new rest f = Inr frame'" by auto
  have "builder_ok f" using f(1) 4(2,3) by (auto simp: frame_text_def builder_ok_def)
  from 4(1) [OF _ this f(2)] 4(2) show ?case by simp
qed simp

text \<open>Every way the program makes an element.\<close>

inductive built :: "Element \<Rightarrow> bool" and building :: "ElementBuilder \<Rightarrow> bool" where
  start: "element_builder_in name namespace = Inr b \<Longrightarrow> building b"
| derive: "built e \<Longrightarrow> building (element_derive_in e)"
| scope: "building b \<Longrightarrow> building (b\<lparr>b_namespaces := ctx\<rparr>)"
| attribute: "building b \<Longrightarrow> element_attribute name namespace value b = Inr b' \<Longrightarrow> building b'"
| frame_attribute: "building b \<Longrightarrow> frame_attribute name namespace value b = Inr b' \<Longrightarrow> building b'"
| remove_attribute: "building b \<Longrightarrow> building (element_remove_attribute name namespace b)"
| append_text: "building b \<Longrightarrow> element_text content b = Inr b' \<Longrightarrow> building b'"
| frame_text: "building b \<Longrightarrow> frame_text content b = Inr b' \<Longrightarrow> building b'"
| child_node: "building b \<Longrightarrow> built e \<Longrightarrow> building (element_child e b)"
| remove_children: "building b \<Longrightarrow> building (element_remove_children name namespace b)"
| clear_children: "building b \<Longrightarrow> building (element_clear_children b)"
| build: "building b \<Longrightarrow> element_build b = Inr e \<Longrightarrow> built e"
| clone: "built e \<Longrightarrow> clone_element e = Inr e' \<Longrightarrow> built e'"
| rescope: "built e \<Longrightarrow> rescope_element old new e = Inr e' \<Longrightarrow> built e'"

lemma built_ok: "built e \<Longrightarrow> element_ok e" "building b \<Longrightarrow> builder_ok b"
proof (induction rule: built_building.inducts)
  case (derive e)
  then show ?case by (cases e rule: Element.exhaust) (simp add: element_derive_in_def builder_ok_def)
next
  case (build b e)
  then show ?case using build_ok(1) by blast
next
  case (clone e e')
  then show ?case by (simp add: clone_ok)
next
  case (rescope e old new e')
  then show ?case using rescope_ok(1) by blast
qed (auto simp: builder_ok_def element_builder_in_def element_attribute_def frame_attribute_def element_text_def frame_text_def
    element_remove_attribute_def element_child_def element_remove_children_def element_clear_children_def attributes_ok_def [of "[]"]
    attributes_remove_ok nodes_ok_filter dest: attributes_set_ok split: if_splits)

definition sample_child :: Element where
  "sample_child = MkElement ''item'' ''urn:x'' [] [\<lparr>at_name = ''jid'', at_namespace = [], at_value = ''a@x''\<rparr>] [] 1 1"

definition sample_element :: Element where
  "sample_element = MkElement ''query'' ''urn:x'' [] [\<lparr>at_name = ''lang'', at_namespace = ''urn:y'', at_value = ''<''\<rparr>]
     [ElementNode sample_child, TextNode ''t''] 2 3"

lemma ascii_names:
  "str_chars ''query'' = [113, 117, 101, 114, 121]" "str_chars ''item'' = [105, 116, 101, 109]" "str_chars ''jid'' = [106, 105, 100]"
  "str_chars ''lang'' = [108, 97, 110, 103]" "str_chars ''urn:x'' = [117, 114, 110, 58, 120]" "str_chars ''urn:y'' = [117, 114, 110, 58, 121]"
  "str_chars ''a@x'' = [97, 64, 120]" "str_chars ''<'' = [60]" "str_chars ''t'' = [116]" "str_chars [] = []"
  by (simp_all add: str_chars_def)

lemma sample_element_built: "built sample_element"
proof -
  note eval = validate_name_def validate_text_def ascii_names name_start_def name_char_def text_char_def in_range_def
    XMLNS_NAMESPACE_def
  have "building \<lparr>b_name = ''item'', b_namespace = ''urn:x'', b_namespaces = [], b_attributes = [], b_children = []\<rparr>"
    by (rule start [of "''item''" "''urn:x''"]) (simp add: element_builder_in_def eval)
  from attribute [OF this, of "''jid''" "[]" "''a@x''"]
  have "building \<lparr>b_name = ''item'', b_namespace = ''urn:x'', b_namespaces = [],
      b_attributes = [\<lparr>at_name = ''jid'', at_namespace = [], at_value = ''a@x''\<rparr>], b_children = []\<rparr>"
    by (simp add: element_attribute_def attributes_set_def eval)
  from build [OF this] have child: "built sample_child"
    by (simp add: element_build_def sample_child_def)
  have "building \<lparr>b_name = ''query'', b_namespace = ''urn:x'', b_namespaces = [], b_attributes = [], b_children = []\<rparr>"
    by (rule start [of "''query''" "''urn:x''"]) (simp add: element_builder_in_def eval)
  from attribute [OF this, of "''lang''" "''urn:y''" "''<''"]
  have "building \<lparr>b_name = ''query'', b_namespace = ''urn:x'', b_namespaces = [],
      b_attributes = [\<lparr>at_name = ''lang'', at_namespace = ''urn:y'', at_value = ''<''\<rparr>], b_children = []\<rparr>"
    by (simp add: element_attribute_def attributes_set_def eval)
  from append_text [OF child_node [OF this child], of "''t''"]
  have "building \<lparr>b_name = ''query'', b_namespace = ''urn:x'', b_namespaces = [],
      b_attributes = [\<lparr>at_name = ''lang'', at_namespace = ''urn:y'', at_value = ''<''\<rparr>], b_children = [ElementNode sample_child, TextNode ''t'']\<rparr>"
    by (simp add: element_child_def element_text_def eval)
  from build [OF this] show ?thesis
    by (simp add: element_build_def node_size_def sample_child_def sample_element_def MAX_ELEMENT_DEPTH_def MAX_ELEMENT_NODES_def
        numeral_2_eq_2 numeral_3_eq_3)
qed

section \<open>Properties\<close>

text \<open>
  C34. Every element the program can make, by the builder, the parser's frames, copies and namespace rescoping in any order, is
  valid: names, attribute values and texts are legal XML, no attribute is repeated, the depth and node count recorded in it
  are the true ones, and they are within \<open>MAX_ELEMENT_DEPTH\<close> and \<open>MAX_ELEMENT_NODES\<close>.
\<close>

theorem built_elements_valid:
  assumes "built e"
  shows "element_ok e \<and> el_depth e = element_height e \<and> el_nodes e = element_count e \<and>
    element_height e \<le> MAX_ELEMENT_DEPTH \<and> element_count e \<le> MAX_ELEMENT_NODES"
  using built_ok(1) [OF assms] by (cases e) simp

theorem built_elements_valid_witness:
  "element_ok sample_element \<and> el_depth sample_element = element_height sample_element \<and>
    el_nodes sample_element = element_count sample_element \<and>
    element_height sample_element \<le> MAX_ELEMENT_DEPTH \<and> element_count sample_element \<le> MAX_ELEMENT_NODES"
  by (rule built_elements_valid [OF sample_element_built])


end
