(* ===== verification/Xml_Reading.thy ===== *)
theory Xml_Reading
  imports Xml_Tree
begin

text \<open>
  What a namespace-aware reader makes of the text the element writer produces. The text is the rendering
  of a tree of tags; cutting text into tags is left to the XML parser. The reader is written from
  the XML and Namespaces recommendations: it normalises white space, replaces references, collects the declarations of
  a tag, rejects repeated attribute names and resolves every prefix.
\<close>

section \<open>The reader\<close>

datatype Doc = Tag string "(string \<times> string) list" "Doc list" | Chars string

fun render :: "Doc \<Rightarrow> string" and render_all :: "Doc list \<Rightarrow> string" where
  "render (Tag q raws kids) =
     ''<'' @ q @ concat (map (\<lambda>(n, v). CHR '' '' # n @ ''='' @ [CHR 0x22] @ v @ [CHR 0x22]) raws) @
     (if kids = [] then ''/>'' else ''>'' @ render_all kids @ ''</'' @ q @ ''>'')"
| "render (Chars t) = t"
| "render_all [] = []"
| "render_all (d # ds) = render d @ render_all ds"

datatype XElement = XElement string string "Attribute list" "XNode list"
  and XNode = XChild XElement | XText string

fun merge_text :: "XNode list \<Rightarrow> XNode list" where
  "merge_text [] = []"
| "merge_text (XChild e # rest) = XChild e # merge_text rest"
| "merge_text (XText t # rest) =
     (case merge_text rest of
        XText u # tail \<Rightarrow> XText (t @ u) # tail
      | tail \<Rightarrow> if t = [] then tail else XText t # tail)"

type_synonym Env = "string \<Rightarrow> string option"

definition declared_prefix :: "string \<Rightarrow> string option" where
  "declared_prefix q = (if q = ''xmlns'' then Some [] else strip_prefix ''xmlns:'' q)"

definition declarations :: "(string \<times> string) list \<Rightarrow> (string \<times> string) list" where
  "declarations raws = List.map_filter (\<lambda>(q, v). map_option (\<lambda>p. (p, v)) (declared_prefix q)) raws"

definition env_extend :: "Env \<Rightarrow> (string \<times> string) list \<Rightarrow> Env" where
  "env_extend env ds p = (case map_of ds p of None \<Rightarrow> env p | Some n \<Rightarrow> Some n)"

definition expand :: "Env \<Rightarrow> string \<Rightarrow> string \<Rightarrow> (string \<times> string) option" where
  "expand env unprefixed q =
     (case split_once (CHR '':'') q of
        None \<Rightarrow> Some (q, unprefixed)
      | Some (p, l) \<Rightarrow> map_option (\<lambda>n. (l, n)) (env p))"

definition default_namespace :: "Env \<Rightarrow> string" where
  "default_namespace env = (case env [] of None \<Rightarrow> [] | Some n \<Rightarrow> n)"

fun read_attributes :: "Env \<Rightarrow> (string \<times> string) list \<Rightarrow> Attribute list option" where
  "read_attributes env [] = Some []"
| "read_attributes env ((q, v) # rest) =
     (if declared_prefix q \<noteq> None then read_attributes env rest
      else Option.bind (expand env [] q) (\<lambda>(l, n). Option.bind (read_attributes env rest) (\<lambda>as.
        Some (\<lparr>at_name = l, at_namespace = n, at_value = v\<rparr> # as))))"

fun read_doc :: "Env \<Rightarrow> Doc \<Rightarrow> XNode option" and read_docs :: "Env \<Rightarrow> Doc list \<Rightarrow> XNode list option" where
  "read_doc env (Tag q raws kids) =
     (let raws = map (\<lambda>(n, v). (n, read_text True v)) raws; env = env_extend env (declarations raws) in
      if \<not> distinct (map fst raws) then None
      else Option.bind (expand env (default_namespace env) q) (\<lambda>(l, n).
        Option.bind (read_attributes env raws) (\<lambda>as.
        Option.bind (read_docs env kids) (\<lambda>nodes. Some (XChild (XElement l n as (merge_text nodes)))))))"
| "read_doc env (Chars t) = Some (XText (read_text False t))"
| "read_docs env [] = Some []"
| "read_docs env (d # ds) = Option.bind (read_doc env d) (\<lambda>n. Option.bind (read_docs env ds) (\<lambda>ns. Some (n # ns)))"

text \<open>What the element says, without the scope and the recorded sizes.\<close>

fun content_of :: "Element \<Rightarrow> XElement" and nodes_content :: "Node list \<Rightarrow> XNode list" where
  "content_of (MkElement name namespace ctx as nodes d n) = XElement name namespace as (merge_text (nodes_content nodes))"
| "nodes_content [] = []"
| "nodes_content (ElementNode e # rest) = XChild (content_of e) # nodes_content rest"
| "nodes_content (TextNode t # rest) = XText t # nodes_content rest"

section \<open>The tags the writer produces\<close>

definition prefix_name :: "Prefix \<Rightarrow> string" where
  "prefix_name p = (case p of DefaultPrefix \<Rightarrow> [] | NamedPrefix q \<Rightarrow> q | GeneratedPrefix i \<Rightarrow> ''ns'' @ decimal i)"

definition decl_name :: "string \<Rightarrow> string" where
  "decl_name prefix = (if prefix = [] then ''xmlns'' else ''xmlns:'' @ prefix)"

definition element_decls :: "NamespaceContext \<Rightarrow> Prefix \<Rightarrow> string \<Rightarrow> string option \<Rightarrow> NamespaceContext option \<Rightarrow> (string \<times> string) list" where
  "element_decls ctx prefix namespace parent_namespace parent_context =
     changed_bindings ctx parent_context @
     (case prefix of
        GeneratedPrefix i \<Rightarrow> [(prefix_name prefix, namespace)]
      | DefaultPrefix \<Rightarrow> if ctx = [] \<and> Some namespace \<noteq> parent_namespace then [([], namespace)] else []
      | NamedPrefix p \<Rightarrow> if p = ''stream'' \<and> ctx = [] then [(p, STREAM_NAMESPACE)] else [])"

fun attribute_raws :: "NamespaceContext \<Rightarrow> nat \<Rightarrow> nat \<Rightarrow> Attribute list \<Rightarrow> (string \<times> string) list" where
  "attribute_raws ctx index gen [] = []"
| "attribute_raws ctx index gen (a # as) =
     (let (prefix, gen) = attribute_prefix ctx (at_namespace a) (max gen index) in
      (case prefix of GeneratedPrefix i \<Rightarrow> [(decl_name (prefix_name prefix), at_namespace a)] | _ \<Rightarrow> []) @
      (prefix_write prefix @ at_name a, at_value a) # attribute_raws ctx (index + 1) gen as)"

definition first_generated :: "Prefix \<Rightarrow> nat" where
  "first_generated prefix = (case prefix of GeneratedPrefix index \<Rightarrow> index + 1 | _ \<Rightarrow> 0)"

definition tag_raws :: "NamespaceContext \<Rightarrow> string \<Rightarrow> Attribute list \<Rightarrow> string option \<Rightarrow> NamespaceContext option \<Rightarrow> (string \<times> string) list" where
  "tag_raws ctx namespace as parent_namespace parent_context =
     (let prefix = element_prefix ctx namespace in
      map (\<lambda>(p, n). (decl_name p, n)) (element_decls ctx prefix namespace parent_namespace parent_context) @
      attribute_raws ctx 0 (first_generated prefix) as)"

definition escaped :: "string \<times> string \<Rightarrow> string \<times> string" where
  "escaped r = (fst r, escape (snd r) True)"

fun tag_of :: "Element \<Rightarrow> string option \<Rightarrow> NamespaceContext option \<Rightarrow> Doc"
  and tags_of :: "Node list \<Rightarrow> string option \<Rightarrow> NamespaceContext option \<Rightarrow> Doc list" where
  "tag_of (MkElement name namespace ctx as nodes d n) parent_namespace parent_context =
     (let prefix = element_prefix ctx namespace in
      Tag (prefix_write prefix @ name) (map escaped (tag_raws ctx namespace as parent_namespace parent_context))
        (tags_of nodes (child_default ctx prefix namespace parent_namespace) (Some ctx)))"
| "tags_of [] namespace ctx = []"
| "tags_of (ElementNode e # rest) namespace ctx = tag_of e namespace ctx # tags_of rest namespace ctx"
| "tags_of (TextNode t # rest) namespace ctx = Chars (escape t False) # tags_of rest namespace ctx"

definition raw_text :: "string \<times> string \<Rightarrow> string" where
  "raw_text r = xml_attribute (fst r) (snd r)"

lemma raw_text_Pair: "raw_text (n, v) = xml_attribute n v"
  by (simp add: raw_text_def)

lemma attribute_raws_text: "concat (map raw_text (attribute_raws ctx index gen as)) = write_attributes_from ctx index gen as"
proof (induction as arbitrary: index gen)
  case (Cons a as)
  obtain prefix g where "attribute_prefix ctx (at_namespace a) (max gen index) = (prefix, g)" by fastforce
  then show ?case
    by (simp add: Cons raw_text_Pair xml_attribute_def decl_name_def prefix_name_def split: Prefix.split)
qed simp

lemma element_decls_text:
  "concat (map (\<lambda>(p, n). raw_text (decl_name p, n)) (element_decls ctx prefix namespace parent_namespace parent_context)) =
     namespaces_write ctx prefix namespace parent_namespace parent_context"
proof -
  have binding: "(\<lambda>(p, n). raw_text (decl_name p, n)) = (\<lambda>(p, n). write_binding p n)"
    by (simp add: fun_eq_iff raw_text_def write_binding_def xml_attribute_def decl_name_def)
  show ?thesis
    by (simp add: binding element_decls_def namespaces_write_def prefix_name_def xml_attribute_def write_binding_def
        split: Prefix.split)
qed

lemma tag_raws_text:
  "concat (map raw_text (tag_raws ctx namespace as parent_namespace parent_context)) =
     namespaces_write ctx (element_prefix ctx namespace) namespace parent_namespace parent_context @
     write_attributes as ctx (element_prefix ctx namespace)"
  by (simp add: tag_raws_def Let_def attribute_raws_text write_attributes_def first_generated_def comp_def
      element_decls_text [symmetric] split_beta')

lemma tags_of_Nil [simp]: "tags_of nodes namespace ctx = [] \<longleftrightarrow> nodes = []"
  by (induction nodes rule: node_list_induct) simp_all

lemma write_in_render:
  "write_in e namespace ctx = render (tag_of e namespace ctx)"
  "write_nodes nodes namespace ctx = render_all (tags_of nodes namespace ctx)"
proof (induction e namespace ctx and nodes namespace ctx rule: write_in_write_nodes.induct)
  case (1 name namespace ctx as nodes d n parent_namespace parent_context)
  have raw: "map (\<lambda>(n, v). CHR '' '' # n @ ''='' @ [CHR 0x22] @ v @ [CHR 0x22]) (map escaped raws) = map raw_text raws" for raws
    by (simp add: escaped_def raw_text_def xml_attribute_def quoted_def split_beta')
  show ?case
    unfolding tag_of.simps write_in.simps Let_def render.simps raw tag_raws_text by (simp add: 1)
qed simp_all

section \<open>Generated prefixes\<close>

lemma digit_value [simp]: "n < 10 \<Longrightarrow> (of_char (digit n) :: nat) = 48 + n"
  by (simp add: digit_def of_char_of)

definition undecimal :: "string \<Rightarrow> nat" where
  "undecimal s = foldl (\<lambda>acc c. 10 * acc + (of_char c - 48)) 0 s"

lemma undecimal_decimal: "undecimal (decimal n) = n"
proof (induction n rule: decimal.induct)
  case (1 n)
  then show ?case
    by (cases "n < 10") (simp_all add: decimal.simps [of n] undecimal_def)
qed

lemma decimal_inject [simp]: "decimal m = decimal n \<longleftrightarrow> m = n"
  by (metis undecimal_decimal)

lemma parse_digits_append:
  "parse_digits acc (xs @ ys) = Option.bind (parse_digits acc xs) (\<lambda>acc. parse_digits acc ys)"
  by (induction acc xs rule: parse_digits.induct) (simp_all add: Let_def)

lemma parse_digits_decimal: "n \<le> max_of 64 \<Longrightarrow> parse_digits 0 (decimal n) = Some n"
proof (induction n rule: decimal.induct)
  case (1 n)
  show ?case
  proof (cases "n < 10")
    case True
    with 1 show ?thesis by (simp add: decimal.simps [of n] Let_def)
  next
    case False
    have "n div 10 \<le> max_of 64" using 1(2) by (meson div_le_dividend order_trans)
    with 1 False have "parse_digits 0 (decimal (n div 10)) = Some (n div 10)" by simp
    with 1(2) False show ?thesis by (simp add: decimal.simps [of n] parse_digits_append Let_def)
  qed
qed

lemma decimal_chars: "c \<in> set (decimal n) \<Longrightarrow> 48 \<le> (of_char c :: nat) \<and> (of_char c :: nat) \<le> 57"
proof (induction n rule: decimal.induct)
  case (1 n)
  then show ?case by (cases "n < 10") (auto simp: decimal.simps [of n])
qed

lemma decimal_not_Nil [simp]: "decimal n \<noteq> []"
  by (simp add: decimal.simps [of n])

lemma decimal_length: "length (decimal n) = ilog10 n + 1"
proof (induction n rule: decimal.induct)
  case (1 n)
  then show ?case by (cases "n < 10") (simp_all add: decimal.simps [of n] ilog10.simps [of n])
qed

lemma takes_index_decimal:
  assumes "i \<le> max_of 64"
  shows "takes_index i (''ns'' @ decimal i)"
proof -
  obtain c cs where cs: "decimal i = c # cs" by (cases "decimal i") simp_all
  then have "48 \<le> (of_char c :: nat)" using decimal_chars [of c i] by simp
  then have "c \<noteq> CHR ''+''" by auto
  then have "parse_usize (decimal i) = Some i"
    using parse_digits_decimal [OF assms] by (simp add: parse_usize_def cs)
  then show ?thesis
    by (auto simp: takes_index_def strip_prefix_def decimal_length checked_ilog10_def ilog10.simps [of 0])
qed

lemma bindings_map_of: "map_of (bindings ctx) p = map_of ctx p"
proof (induction ctx)
  case (Cons b ctx)
  have filter: "map_of (filter (\<lambda>(q, _). q \<noteq> k) xs) p = (if p = k then None else map_of xs p)" for k and xs :: NamespaceContext
    by (induction xs) auto
  show ?case by (cases b) (simp add: filter Cons)
qed simp

lemma bindings_distinct: "distinct (map fst (bindings ctx))"
proof (induction ctx rule: bindings.induct)
  case (2 p n ctx)
  then show ?case by (auto simp: distinct_map_filter)
qed simp

lemma bindings_length: "length (bindings ctx) \<le> length ctx"
  by (induction ctx rule: bindings.induct) (simp_all add: le_trans [OF length_filter_le])

lemma bindings_dom: "fst ` set (bindings ctx) = fst ` set ctx"
  by (metis bindings_map_of dom_map_of_conv_image_fst fun_eq_iff)

definition taken_from :: "NamespaceContext \<Rightarrow> nat \<Rightarrow> nat" where
  "taken_from ctx i = card {j. i \<le> j \<and> occupied ctx j}"

lemma taken_from_finite: "finite {j. i \<le> j \<and> occupied ctx j}"
  by (rule finite_subset [OF _ occupied_finite [of ctx]]) auto

lemma taken_from_le: "taken_from ctx i \<le> length ctx"
proof -
  let ?f = "\<lambda>b :: string \<times> string. the (Option.bind (strip_prefix ''ns'' (fst b)) parse_usize)"
  have "{j. i \<le> j \<and> occupied ctx j} \<subseteq> ?f ` set (bindings ctx)"
    by (force simp: occupied_def list_ex_iff image_iff dest: takes_index_value)
  then have "taken_from ctx i \<le> card (?f ` set (bindings ctx))"
    unfolding taken_from_def by (rule card_mono [rotated]) simp
  also have "\<dots> \<le> length (bindings ctx)"
    by (meson card_image_le card_length finite_set order_trans)
  also have "\<dots> \<le> length ctx" by (rule bindings_length)
  finally show ?thesis .
qed

lemma taken_from_Suc: "taken_from ctx i = taken_from ctx (Suc i) + (if occupied ctx i then 1 else 0)"
proof -
  have "{j. i \<le> j \<and> occupied ctx j} = (if occupied ctx i then insert i {j. Suc i \<le> j \<and> occupied ctx j} else {j. Suc i \<le> j \<and> occupied ctx j})"
    by (auto simp: le_eq_less_or_eq Suc_le_eq)
  then show ?thesis by (simp add: taken_from_def taken_from_finite)
qed

lemma taken_from_antimono: "i \<le> j \<Longrightarrow> taken_from ctx j \<le> taken_from ctx i"
  unfolding taken_from_def by (rule card_mono [OF taken_from_finite]) auto

lemma generated_props:
  "i \<le> generated ctx i \<and> \<not> occupied ctx (generated ctx i) \<and> generated ctx i + taken_from ctx (generated ctx i) \<le> i + taken_from ctx i"
proof (induction ctx i rule: generated.induct)
  case (1 ctx i)
  then show ?case
    using taken_from_Suc [of ctx i] by (cases "occupied ctx i") (auto simp: generated.simps [of ctx i])
qed

lemma fresh_prefix:
  assumes "\<not> occupied ctx i" and "i \<le> max_of 64"
  shows "''ns'' @ decimal i \<notin> fst ` set ctx"
proof
  assume "''ns'' @ decimal i \<in> fst ` set ctx"
  then have "''ns'' @ decimal i \<in> fst ` set (bindings ctx)" by (simp only: bindings_dom)
  with takes_index_decimal [OF assms(2)] have "occupied ctx i" by (auto simp: occupied_def list_ex_iff)
  with assms(1) show False by blast
qed

section \<open>Declarations of a tag\<close>

fun attr_decls :: "NamespaceContext \<Rightarrow> nat \<Rightarrow> nat \<Rightarrow> Attribute list \<Rightarrow> (string \<times> string) list" where
  "attr_decls ctx index gen [] = []"
| "attr_decls ctx index gen (a # as) =
     (let (prefix, gen) = attribute_prefix ctx (at_namespace a) (max gen index) in
      (case prefix of GeneratedPrefix i \<Rightarrow> [(prefix_name prefix, at_namespace a)] | _ \<Rightarrow> []) @
      attr_decls ctx (index + 1) gen as)"

lemma attr_decls_fresh:
  assumes "gen + taken_from ctx gen \<le> 2 * index + 1 + length ctx"
    and "2 * (index + length as) + 1 + length ctx \<le> max_of 64"
  shows "(\<forall>(p, n) \<in> set (attr_decls ctx index gen as). \<exists>i\<ge>gen. p = ''ns'' @ decimal i \<and> p \<notin> fst ` set ctx) \<and>
    distinct (map fst (attr_decls ctx index gen as))"
  using assms
proof (induction as arbitrary: index gen)
  case (Cons a as)
  let ?m = "max gen index"
  have m: "?m + taken_from ctx ?m \<le> 2 * index + 1 + length ctx"
    using Cons.prems(1) taken_from_le [of ctx index] by (simp add: max_def)
  obtain prefix g where ap: "attribute_prefix ctx (at_namespace a) ?m = (prefix, g)" by fastforce
  show ?case
  proof (cases "\<exists>i. prefix = GeneratedPrefix i")
    case True
    then obtain i where i: "prefix = GeneratedPrefix i" by blast
    with ap have g: "i = generated ctx ?m" "g = i + 1"
      by (auto simp: attribute_prefix_def Let_def split: if_splits option.splits)
    note props = generated_props [of ?m ctx, folded g(1)]
    have bound: "i + taken_from ctx i \<le> 2 * index + 1 + length ctx" using props m by linarith
    then have fresh: "''ns'' @ decimal i \<notin> fst ` set ctx"
      using props Cons.prems(2) by (intro fresh_prefix) auto
    have "g + taken_from ctx g \<le> 2 * (index + 1) + 1 + length ctx"
      using bound taken_from_antimono [of i g ctx] g(2) by simp
    from Cons.IH [OF this] Cons.prems(2)
    have ih: "\<forall>(p, n) \<in> set (attr_decls ctx (index + 1) g as). \<exists>j\<ge>g. p = ''ns'' @ decimal j \<and> p \<notin> fst ` set ctx"
      "distinct (map fst (attr_decls ctx (index + 1) g as))" by simp_all
    have "''ns'' @ decimal i \<notin> fst ` set (attr_decls ctx (index + 1) g as)"
      using ih(1) g(2) by fastforce
    moreover have "gen \<le> i" using props by simp
    ultimately show ?thesis
      using ih fresh ap i g(2) by (fastforce simp: prefix_name_def intro: exI [of _ i])
  next
    case False
    with ap have g: "g = ?m"
      by (auto simp: attribute_prefix_def Let_def split: if_splits option.splits)
    with m have "g + taken_from ctx g \<le> 2 * (index + 1) + 1 + length ctx" by simp
    from Cons.IH [OF this] Cons.prems(2) show ?thesis
      using False ap g by (fastforce split: Prefix.split)
  qed
qed simp

definition scope_ok :: "NamespaceContext \<Rightarrow> bool" where
  "scope_ok ctx \<longleftrightarrow> (ctx \<noteq> [] \<longrightarrow> ns_resolve ctx [] \<noteq> None) \<and>
     list_all (\<lambda>(p, n). CHR '':'' \<notin> set p \<and> p \<noteq> ''xmlns'' \<and> (p = ''xml'' \<longleftrightarrow> n = XML_NAMESPACE)) ctx"

lemma scope_okD:
  "scope_ok ctx \<Longrightarrow> ns_resolve ctx p = Some n \<Longrightarrow> CHR '':'' \<notin> set p \<and> p \<noteq> ''xmlns'' \<and> (p = ''xml'' \<longleftrightarrow> n = XML_NAMESPACE)"
  by (fastforce simp: scope_ok_def ns_resolve_def list_all_iff dest: map_of_SomeD)

lemma named_prefix_resolves: "named_prefix ctx namespace = Some p \<Longrightarrow> p \<noteq> [] \<and> ns_resolve ctx p = Some namespace"
proof -
  assume "named_prefix ctx namespace = Some p"
  then obtain v where "List.find (\<lambda>(prefix, value). prefix \<noteq> [] \<and> value = namespace) (bindings ctx) = Some (p, v)"
    by (auto simp: named_prefix_def)
  then have "(p, namespace) \<in> set (bindings ctx)" "p \<noteq> []"
    by (auto simp: find_Some_iff in_set_conv_nth)
  then show ?thesis
    by (metis bindings_distinct bindings_map_of map_of_is_SomeI ns_resolve_def)
qed

lemma changed_bindings_map_of:
  "map_of (changed_bindings ctx parent) p =
     (case ns_resolve ctx p of
        None \<Rightarrow> None
      | Some n \<Rightarrow> if (case parent of None \<Rightarrow> False | Some c \<Rightarrow> ns_resolve c p = Some n) then None else Some n)"
proof -
  have "distinct (map fst xs) \<Longrightarrow> map_of (filter (\<lambda>(p, n). f p n) xs) p =
    (case map_of xs p of None \<Rightarrow> None | Some n \<Rightarrow> if f p n then Some n else None)" for f and xs :: NamespaceContext
    by (induction xs) (auto split: option.splits dest: map_of_SomeD simp: rev_image_eqI)
  from this [OF bindings_distinct] show ?thesis
    by (simp add: changed_bindings_def bindings_map_of ns_resolve_def split: option.splits)
qed

lemma changed_bindings_distinct: "distinct (map fst (changed_bindings ctx parent))"
  by (simp add: changed_bindings_def bindings_distinct distinct_map_filter)

lemma changed_bindings_dom: "fst ` set (changed_bindings ctx parent) \<subseteq> fst ` set ctx"
  using bindings_dom [of ctx] by (auto simp: changed_bindings_def)

lemma changed_bindings_same [simp]: "changed_bindings ctx (Some ctx) = []"
proof -
  have "map_of (changed_bindings ctx (Some ctx)) p = None" for p
    by (simp add: changed_bindings_map_of split: option.splits)
  then show ?thesis by (metis list.exhaust map_of_eq_None_iff list.set_intros(1) imageI)
qed

section \<open>Names hold no colon\<close>

lemma decode_ascii:
  "utf8_valid bs \<Longrightarrow> b \<in> set bs \<Longrightarrow> b < 0x80 \<Longrightarrow> unat b \<in> set (decode_chars (map unat bs))"
proof (induction bs rule: utf8_valid.induct)
  case (2 a bs)
  have nat: "x < 0x80 \<longleftrightarrow> unat x < 0x80" "x \<le> 0xDF \<Longrightarrow> unat x < 0xE0" "0xE0 \<le> x \<longleftrightarrow> 0xE0 \<le> unat x"
    "x \<le> 0xEF \<Longrightarrow> unat x < 0xF0" "0xF0 \<le> x \<longleftrightarrow> 0xF0 \<le> unat x" "0xC2 \<le> x \<longleftrightarrow> 0xC2 \<le> unat x"
    for x :: byte by (simp_all add: word_less_nat_alt word_le_nat_alt)
  have cont: "continuation x \<Longrightarrow> \<not> x < 0x80" for x by (auto simp: continuation_def)
  consider "a < 0x80" | "\<not> a < 0x80" "0xC2 \<le> a" "a \<le> 0xDF" | "\<not> a < 0x80" "0xE0 \<le> a" "a \<le> 0xEF" | "\<not> a < 0x80" "0xF0 \<le> a" "a \<le> 0xF4"
    using 2 by (auto split: if_splits)
  then show ?case
  proof cases
    case 1
    with 2 show ?thesis by (auto simp: nat(1))
  next
    case c: 2
    then obtain x rest where bs: "bs = x # rest" "continuation x" "utf8_valid rest"
      using 2 by (auto split: list.splits)
    with c 2 cont have "unat b \<in> set (decode_chars (map unat rest))" by auto
    with c bs show ?thesis by (auto simp: nat)
  next
    case c: 3
    then have "\<not> a \<le> 0xDF" by (auto simp: word_le_nat_alt)
    with c obtain x y rest where bs: "bs = x # y # rest" "continuation x" "continuation y" "utf8_valid rest"
      using 2 by (auto split: list.splits)
    with c 2 cont \<open>\<not> a \<le> 0xDF\<close> have "unat b \<in> set (decode_chars (map unat rest))" by auto
    with c bs show ?thesis by (auto simp: nat)
  next
    case c: 4
    then have no: "\<not> a \<le> 0xDF" "\<not> a \<le> 0xEF" by (auto simp: word_le_nat_alt)
    with c obtain x y z rest where bs: "bs = x # y # z # rest" "continuation x" "continuation y" "continuation z" "utf8_valid rest"
      using 2 by (auto split: list.splits)
    with c 2 cont no have "unat b \<in> set (decode_chars (map unat rest))" by auto
    with c bs show ?thesis by (auto simp: nat)
  qed
qed simp

lemma str_chars_ascii:
  assumes "is_str s" and "c \<in> set s" and "(of_char c :: nat) < 0x80"
  shows "of_char c \<in> set (str_chars s)"
proof -
  have byte: "unat (byte_of_char d) = of_char d" for d
    by (simp add: byte_of_char_def unat_of_nat of_char_mod_256 take_bit_eq_mod)
  have "unat (byte_of_char c) \<in> set (decode_chars (map unat (as_bytes s)))"
    using assms by (intro decode_ascii) (auto simp: is_str_def as_bytes_def word_less_nat_alt byte)
  then show ?thesis by (simp add: byte str_chars_def as_bytes_def comp_def)
qed

lemma valid_name_no_colon:
  assumes "is_str name" and "validate_name name namespace attribute = Inr ()"
  shows "CHR '':'' \<notin> set name"
proof
  assume "CHR '':'' \<in> set name"
  then have "0x3A \<in> set (str_chars name)" using str_chars_ascii [OF assms(1)] by fastforce
  moreover have "list_all name_char (str_chars name)"
    using assms(2) by (auto simp: validate_name_def name_char_def split: list.splits if_splits)
  ultimately show False by (auto simp: list_all_iff name_char_def name_start_def in_range_def)
qed

lemma decimal_no_colon: "CHR '':'' \<notin> set (decimal i)"
  using decimal_chars [of "CHR '':''" i] by auto

section \<open>Reading a tag\<close>

lemma declared_decl_name [simp]: "declared_prefix (decl_name p) = Some p"
  by (simp add: declared_prefix_def decl_name_def strip_prefix_def)

lemma prefix_write_Default [simp]: "prefix_write DefaultPrefix = []"
  by (simp add: prefix_write_def)

lemma split_qname:
  assumes "CHR '':'' \<notin> set (prefix_name prefix)" and "CHR '':'' \<notin> set name"
  shows "split_once (CHR '':'') (prefix_write prefix @ name) =
    (if prefix = DefaultPrefix then None else Some (prefix_name prefix, name))"
proof (cases "prefix = DefaultPrefix")
  case True
  then show ?thesis using assms(2) by (simp add: prefix_write_def split_once_None)
next
  case False
  then have "prefix_write prefix @ name = prefix_name prefix @ CHR '':'' # name"
    by (simp add: prefix_write_def prefix_name_def split: Prefix.splits)
  with False show ?thesis using split_once_append [OF assms(1), of name] by simp
qed

lemma undeclared_qname:
  assumes "CHR '':'' \<notin> set (prefix_name prefix)" and "CHR '':'' \<notin> set name"
    and "prefix_name prefix \<noteq> ''xmlns''" and "prefix = DefaultPrefix \<longrightarrow> name \<noteq> ''xmlns''"
  shows "declared_prefix (prefix_write prefix @ name) = None"
proof -
  let ?q = "prefix_write prefix @ name"
  have "?q = ''xmlns'' \<Longrightarrow> split_once (CHR '':'') ?q = None" by simp
  then have "?q \<noteq> ''xmlns''"
    using split_qname [OF assms(1,2)] assms(4) by (cases "prefix = DefaultPrefix") (auto simp: prefix_write_def)
  moreover have "strip_prefix ''xmlns:'' ?q = None"
  proof (rule ccontr)
    assume "strip_prefix ''xmlns:'' ?q \<noteq> None"
    then have "take (length ''xmlns:'') ?q = ''xmlns:''" unfolding strip_prefix_def by presburger
    then obtain r where "?q = ''xmlns:'' @ r" by (metis append_take_drop_id)
    then have "split_once (CHR '':'') ?q = Some (''xmlns'', r)"
      using split_once_append [of "CHR '':''" "''xmlns''" r] by (simp only: append.simps) simp
    with split_qname [OF assms(1,2)] assms(3) show False by (simp split: if_splits)
  qed
  ultimately show ?thesis by (simp add: declared_prefix_def)
qed

lemma declarations_append [simp]: "declarations (xs @ ys) = declarations xs @ declarations ys"
  by (induction xs) (auto simp: declarations_def List.map_filter_simps split: option.splits)

lemma declarations_decls: "declarations (map (\<lambda>(p, n). (decl_name p, n)) ds) = ds"
  by (induction ds) (auto simp: declarations_def List.map_filter_simps)

lemma declarations_Cons:
  "declarations ((q, v) # raws) = (case declared_prefix q of None \<Rightarrow> [] | Some p \<Rightarrow> [(p, v)]) @ declarations raws"
  by (simp add: declarations_def List.map_filter_simps split: option.splits)

lemma distinct_by_kind:
  assumes "distinct (map fst (declarations raws))" and "read_attributes env raws = Some as" and "distinct (map attribute_key as)"
  shows "distinct (map fst raws)"
proof -
  have decls: "distinct (map fst (declarations rs)) \<Longrightarrow> distinct (map fst (filter (\<lambda>r. declared_prefix (fst r) \<noteq> None) rs))"
    for rs :: "(string \<times> string) list"
  proof (induction rs)
    case (Cons r rs)
    have mem: "p \<in> fst ` set (declarations rs)" if "(q, v) \<in> set rs" "declared_prefix q = Some p" for q v p
      using that by (induction rs) (force simp: declarations_Cons declarations_def [of "[]"])+
    from Cons show ?case
      by (cases r) (fastforce simp: declarations_Cons dest: mem split: option.splits)
  qed simp
  have attrs: "read_attributes env rs = Some as \<Longrightarrow> distinct (map attribute_key as) \<Longrightarrow>
      distinct (map fst (filter (\<lambda>r. declared_prefix (fst r) = None) rs)) \<and>
      set (map attribute_key as) = {k. \<exists>r \<in> set rs. declared_prefix (fst r) = None \<and> expand env [] (fst r) = Some k}"
    for rs as
  proof (induction rs arbitrary: as)
    case (Cons r rs)
    obtain q v where r: "r = (q, v)" by (cases r)
    show ?case
    proof (cases "declared_prefix q")
      case (Some p)
      with Cons r show ?thesis by auto
    next
      case None
      with Cons.prems(1) r obtain l n as' where e: "expand env [] q = Some (l, n)" "read_attributes env rs = Some as'"
          "as = \<lparr>at_name = l, at_namespace = n, at_value = v\<rparr> # as'"
        by (auto simp: bind_eq_Some_conv)
      have new: "(l, n) \<notin> set (map attribute_key as')" and "distinct (map attribute_key as')"
        using Cons.prems(2) e(3) by (simp_all add: attribute_key_def [abs_def])
      note ih = Cons.IH [OF e(2) this(2)]
      have "q \<notin> set (map fst (filter (\<lambda>r. declared_prefix (fst r) = None) rs))"
      proof
        assume "q \<in> set (map fst (filter (\<lambda>r. declared_prefix (fst r) = None) rs))"
        then obtain w where "(q, w) \<in> set rs" by auto
        with e(1) None have "(l, n) \<in> set (map attribute_key as')" unfolding ih [THEN conjunct2] by force
        with new show False by blast
      qed
      moreover have "set (map attribute_key as) = insert (l, n) (set (map attribute_key as'))"
        using e(3) by (simp add: attribute_key_def)
      ultimately show ?thesis
        using ih None r e(1) by auto
    qed
  qed simp
  have "distinct (map fst rs) \<longleftrightarrow> distinct (map fst (filter (\<lambda>r. P (fst r)) rs)) \<and> distinct (map fst (filter (\<lambda>r. \<not> P (fst r)) rs))"
    for P and rs :: "(string \<times> string) list"
    by (induction rs) auto
  from this [of raws "\<lambda>q. declared_prefix q = None"] decls [OF assms(1)] attrs [OF assms(2,3)] show ?thesis by simp
qed

lemma generated_no_colon: "CHR '':'' \<notin> set (''ns'' @ decimal i)" "''ns'' @ decimal i \<noteq> ''xmlns''"
  using decimal_no_colon [of i] by auto

lemma attribute_prefix_props:
  assumes "attribute_prefix ctx namespace i = (prefix, g)" and "scope_ok ctx"
  shows "CHR '':'' \<notin> set (prefix_name prefix)" "prefix_name prefix \<noteq> ''xmlns''" "prefix = DefaultPrefix \<longleftrightarrow> namespace = []"
    "prefix = NamedPrefix q \<Longrightarrow> q = ''xml'' \<and> namespace = XML_NAMESPACE \<or> ns_resolve ctx q = Some namespace"
  using assms named_prefix_resolves [of ctx namespace] scope_okD [OF assms(2)] generated_no_colon
  by (auto simp: attribute_prefix_def prefix_name_def Let_def split: if_splits option.splits)

lemma attribute_raws_read:
  assumes "scope_ok ctx" and "list_all (\<lambda>a. attribute_ok a \<and> is_str (at_name a)) as"
    and "\<And>p n. ns_resolve ctx p = Some n \<Longrightarrow> env p = Some n" and "env ''xml'' = Some XML_NAMESPACE"
    and "\<And>p n. (p, n) \<in> set (attr_decls ctx index gen as) \<Longrightarrow> env p = Some n"
  shows "read_attributes env (attribute_raws ctx index gen as) = Some as"
    and "declarations (attribute_raws ctx index gen as) = attr_decls ctx index gen as"
proof -
  have "read_attributes env (attribute_raws ctx index gen as) = Some as \<and>
      declarations (attribute_raws ctx index gen as) = attr_decls ctx index gen as"
    using assms(2,5)
  proof (induction as arbitrary: index gen)
    case Nil
    then show ?case by (simp add: declarations_def List.map_filter_simps)
  next
    case (Cons a as)
    obtain prefix g where ap: "attribute_prefix ctx (at_namespace a) (max gen index) = (prefix, g)" by fastforce
    note props = attribute_prefix_props [OF ap assms(1)]
    have a: "attribute_ok a" "is_str (at_name a)" using Cons.prems(1) by simp_all
    then have name: "CHR '':'' \<notin> set (at_name a)" by (auto simp: attribute_ok_def dest: valid_name_no_colon)
    have "prefix = DefaultPrefix \<longrightarrow> at_name a \<noteq> ''xmlns''"
      using a(1) props(3) by (auto simp: attribute_ok_def validate_name_def split: list.splits if_splits)
    then have attr: "declared_prefix (prefix_write prefix @ at_name a) = None"
      by (intro undeclared_qname props(1,2) name)
    have "env (prefix_name prefix) = Some (at_namespace a)" if "prefix \<noteq> DefaultPrefix"
    proof (cases prefix)
      case (NamedPrefix q)
      with props(4) [OF this] assms(3,4) show ?thesis by (auto simp: prefix_name_def)
    next
      case (GeneratedPrefix i)
      with Cons.prems(2) [of "prefix_name prefix" "at_namespace a"] ap show ?thesis by simp
    qed (use that in simp)
    then have expand: "expand env [] (prefix_write prefix @ at_name a) = Some (at_name a, at_namespace a)"
      using props(3) by (auto simp: expand_def split_qname [OF props(1) name])
    have ih: "read_attributes env (attribute_raws ctx (index + 1) g as) = Some as"
        "declarations (attribute_raws ctx (index + 1) g as) = attr_decls ctx (index + 1) g as"
      using Cons.IH [of "index + 1" g] Cons.prems ap by simp_all
    have rest: "read_attributes env ((prefix_write prefix @ at_name a, at_value a) # attribute_raws ctx (index + 1) g as) = Some (a # as)"
      using attr expand ih(1) by simp
    have decls: "declarations ((prefix_write prefix @ at_name a, at_value a) # attribute_raws ctx (index + 1) g as) = attr_decls ctx (index + 1) g as"
      using attr ih(2) by (simp add: declarations_Cons)
    show ?case
      using rest decls ap by (cases prefix) (simp_all add: declarations_Cons del: read_attributes.simps(2), simp_all)
  qed
  then show "read_attributes env (attribute_raws ctx index gen as) = Some as"
    "declarations (attribute_raws ctx index gen as) = attr_decls ctx index gen as" by blast+
qed

section \<open>Reading what was written\<close>

definition agrees :: "Env \<Rightarrow> string option \<Rightarrow> NamespaceContext option \<Rightarrow> bool" where
  "agrees env parent_namespace parent_context \<longleftrightarrow>
     env ''xml'' = Some XML_NAMESPACE \<and> (\<forall>n. parent_namespace = Some n \<longrightarrow> env [] = Some n) \<and>
     (\<forall>c p n. parent_context = Some c \<longrightarrow> ns_resolve c p = Some n \<longrightarrow> env p = Some n)"

text \<open>
  What the parser and the builder guarantee beyond \<open>element_ok\<close>: strings are UTF-8, a scope that binds anything binds the
  default namespace, and the bindings and attributes of one element fit in memory.
\<close>

fun writable :: "Element \<Rightarrow> bool" and all_writable :: "Node list \<Rightarrow> bool" where
  "writable (MkElement name namespace ctx as nodes d n) \<longleftrightarrow>
     is_str name \<and> scope_ok ctx \<and> list_all (\<lambda>a. is_str (at_name a)) as \<and>
     2 * length as + 1 + length ctx \<le> max_of 64 \<and> all_writable nodes"
| "all_writable [] \<longleftrightarrow> True"
| "all_writable (ElementNode e # rest) \<longleftrightarrow> writable e \<and> all_writable rest"
| "all_writable (TextNode t # rest) \<longleftrightarrow> all_writable rest"

lemma map_of_fresh: "p \<notin> fst ` set xs \<Longrightarrow> map_of xs p = None"
  by (simp add: map_of_eq_None_iff)

lemma fresh_special: "[] \<noteq> ''ns'' @ decimal i" "''xml'' \<noteq> ''ns'' @ decimal i" "''stream'' \<noteq> ''ns'' @ decimal i"
  by simp_all

lemma decls_fresh:
  fixes ctx namespace as parent_namespace
  defines "prefix \<equiv> element_prefix ctx namespace"
  defines "added \<equiv> element_decls ctx prefix namespace parent_namespace (Some ctx) @ attr_decls ctx 0 (first_generated prefix) as"
  assumes size: "2 * length as + 1 + length ctx \<le> max_of 64"
  shows "\<And>p. p \<in> fst ` set added \<Longrightarrow> p \<notin> fst ` set ctx" "distinct (map fst added)" "''xml'' \<notin> fst ` set added"
    "[] \<in> fst ` set added \<longleftrightarrow> prefix = DefaultPrefix \<and> ctx = [] \<and> Some namespace \<noteq> parent_namespace"
proof -
  let ?own = "element_decls ctx prefix namespace parent_namespace (Some ctx)"
  let ?attr = "attr_decls ctx 0 (first_generated prefix) as"
  have bound: "first_generated prefix + taken_from ctx (first_generated prefix) \<le> 2 * 0 + 1 + length ctx"
    and own: "\<And>p. p \<in> fst ` set ?own \<Longrightarrow> p \<notin> fst ` set ctx \<and> p \<noteq> ''xml'' \<and> (\<forall>j \<ge> first_generated prefix. p \<noteq> ''ns'' @ decimal j)"
      "distinct (map fst ?own)" "[] \<in> fst ` set ?own \<longleftrightarrow> prefix = DefaultPrefix \<and> ctx = [] \<and> Some namespace \<noteq> parent_namespace"
  proof -
    have "first_generated prefix + taken_from ctx (first_generated prefix) \<le> 1 + length ctx \<and>
      (\<forall>p. p \<in> fst ` set ?own \<longrightarrow> p \<notin> fst ` set ctx \<and> p \<noteq> ''xml'' \<and> (\<forall>j \<ge> first_generated prefix. p \<noteq> ''ns'' @ decimal j)) \<and>
      distinct (map fst ?own) \<and> ([] \<in> fst ` set ?own \<longleftrightarrow> prefix = DefaultPrefix \<and> ctx = [] \<and> Some namespace \<noteq> parent_namespace)"
    proof (cases prefix)
      case (GeneratedPrefix i)
      then have i: "i = generated ctx 0"
        by (auto simp: prefix_def element_prefix_def split: if_splits option.splits)
      note props = generated_props [of 0 ctx, folded i]
      have "i + taken_from ctx i \<le> length ctx" using props taken_from_le [of ctx 0] by linarith
      moreover have "taken_from ctx (i + 1) \<le> taken_from ctx i" by (rule taken_from_antimono) simp
      moreover have "''ns'' @ decimal i \<notin> fst ` set ctx"
        using props size calculation(1) by (intro fresh_prefix) auto
      ultimately show ?thesis
        using GeneratedPrefix by (simp add: element_decls_def first_generated_def prefix_name_def)
    next
      case (NamedPrefix q)
      then show ?thesis using taken_from_le [of ctx 0]
        by (auto simp: element_decls_def first_generated_def)
    next
      case DefaultPrefix
      then show ?thesis using taken_from_le [of ctx 0]
        by (auto simp: element_decls_def first_generated_def)
    qed
    then show "first_generated prefix + taken_from ctx (first_generated prefix) \<le> 2 * 0 + 1 + length ctx"
      "\<And>p. p \<in> fst ` set ?own \<Longrightarrow> p \<notin> fst ` set ctx \<and> p \<noteq> ''xml'' \<and> (\<forall>j \<ge> first_generated prefix. p \<noteq> ''ns'' @ decimal j)"
      "distinct (map fst ?own)" "[] \<in> fst ` set ?own \<longleftrightarrow> prefix = DefaultPrefix \<and> ctx = [] \<and> Some namespace \<noteq> parent_namespace"
      by simp_all
  qed
  have attr: "\<And>p. p \<in> fst ` set ?attr \<Longrightarrow> \<exists>j \<ge> first_generated prefix. p = ''ns'' @ decimal j \<and> p \<notin> fst ` set ctx"
      "distinct (map fst ?attr)"
    using attr_decls_fresh [OF bound, of as] size by auto
  show "\<And>p. p \<in> fst ` set added \<Longrightarrow> p \<notin> fst ` set ctx"
    using own(1) attr(1) unfolding added_def set_append image_Un by blast
  show "distinct (map fst added)"
    using own(1,2) attr unfolding added_def map_append distinct_append set_map by blast
  show "''xml'' \<notin> fst ` set added"
    using own(1) attr(1) fresh_special(2) unfolding added_def set_append image_Un by blast
  show "[] \<in> fst ` set added \<longleftrightarrow> prefix = DefaultPrefix \<and> ctx = [] \<and> Some namespace \<noteq> parent_namespace"
    using own(3) attr(1) fresh_special(1) unfolding added_def set_append image_Un by blast
qed

lemma tag_scope:
  fixes ctx namespace as env parent_namespace parent_context
  defines "prefix \<equiv> element_prefix ctx namespace"
  defines "decls \<equiv> element_decls ctx prefix namespace parent_namespace parent_context @ attr_decls ctx 0 (first_generated prefix) as"
  defines "inner \<equiv> env_extend env decls"
  assumes scope: "scope_ok ctx" and env: "agrees env parent_namespace parent_context"
    and size: "2 * length as + 1 + length ctx \<le> max_of 64"
  shows "distinct (map fst decls)" and "\<And>p n. ns_resolve ctx p = Some n \<Longrightarrow> inner p = Some n"
    and "\<And>p n. (p, n) \<in> set (attr_decls ctx 0 (first_generated prefix) as) \<Longrightarrow> inner p = Some n"
    and "agrees inner (child_default ctx prefix namespace parent_namespace) (Some ctx)"
    and "prefix = DefaultPrefix \<Longrightarrow> inner [] = Some namespace" and "prefix \<noteq> DefaultPrefix \<Longrightarrow> inner (prefix_name prefix) = Some namespace"
proof -
  let ?own = "element_decls ctx prefix namespace parent_namespace (Some ctx)"
  let ?added = "?own @ attr_decls ctx 0 (first_generated prefix) as"
  have decls: "decls = changed_bindings ctx parent_context @ ?added"
    by (simp add: decls_def element_decls_def)
  note fresh = decls_fresh [OF size, where namespace = namespace and parent_namespace = parent_namespace, folded prefix_def]
  have apart: "p \<notin> fst ` set (changed_bindings ctx parent_context)" if "p \<in> fst ` set ?added" for p
    using fresh(1) [OF that] changed_bindings_dom [of ctx parent_context] by (meson subsetD)
  then have "set (map fst (changed_bindings ctx parent_context)) \<inter> set (map fst ?added) = {}"
    unfolding set_map by (meson disjoint_iff)
  then show "distinct (map fst decls)"
    using fresh(2) changed_bindings_distinct [of ctx parent_context]
    unfolding decls map_append [of fst "changed_bindings ctx parent_context"] distinct_append by blast
  have inner: "inner p = (case map_of (changed_bindings ctx parent_context) p of Some n \<Rightarrow> Some n
      | None \<Rightarrow> (case map_of ?added p of Some n \<Rightarrow> Some n | None \<Rightarrow> env p))" for p
    by (simp add: inner_def env_extend_def decls map_of_append map_add_def split: option.splits)
  show cover: "inner p = Some n" if "ns_resolve ctx p = Some n" for p n
  proof -
    have "p \<in> fst ` set ctx" using that by (metis ns_resolve_def map_of_eq_None_iff option.distinct(1))
    then have "map_of ?added p = None" using fresh(1) map_of_fresh by metis
    then show ?thesis
      unfolding inner changed_bindings_map_of that using that env by (auto simp: agrees_def split: option.splits)
  qed
  have declared: "inner p = Some n" if "(p, n) \<in> set ?added" for p n
  proof -
    have "p \<in> fst ` set ?added" using that by (rule rev_image_eqI) simp
    then have "map_of (changed_bindings ctx parent_context) p = None" using apart map_of_fresh by metis
    with map_of_is_SomeI [OF fresh(2) that] show ?thesis unfolding inner by simp
  qed
  then show "inner p = Some n" if "(p, n) \<in> set (attr_decls ctx 0 (first_generated prefix) as)" for p n
    using that by simp
  have xml: "inner ''xml'' = Some XML_NAMESPACE"
  proof (cases "ns_resolve ctx ''xml''")
    case (Some n)
    with cover scope_okD [OF scope Some] show ?thesis by simp
  next
    case None
    with env show ?thesis unfolding inner changed_bindings_map_of map_of_fresh [OF fresh(3)] by (simp add: agrees_def)
  qed
  have outer: "inner [] = env []" if "ctx = []" "[] \<notin> fst ` set ?added"
    unfolding inner changed_bindings_map_of map_of_fresh [OF that(2)] using that(1) by (simp add: ns_resolve_def)
  show default: "inner [] = Some namespace" if "prefix = DefaultPrefix"
  proof (cases "ctx = []")
    case False
    with scope that have "ns_resolve ctx [] = Some namespace"
      by (auto simp: scope_ok_def prefix_def element_prefix_def split: if_splits option.splits)
    with cover show ?thesis by blast
  next
    case True
    show ?thesis
    proof (cases "Some namespace = parent_namespace")
      case False
      with True \<open>prefix = DefaultPrefix\<close> have "([], namespace) \<in> set ?added" by (simp add: element_decls_def)
      with declared show ?thesis by blast
    next
      case same: True
      with fresh(4) outer [OF True] env show ?thesis by (auto simp: agrees_def)
    qed
  qed
  show "inner (prefix_name prefix) = Some namespace" if "prefix \<noteq> DefaultPrefix"
  proof (cases prefix)
    case (NamedPrefix q)
    consider "q = ''xml''" "namespace = XML_NAMESPACE" | "ctx = []" "q = ''stream''" "namespace = STREAM_NAMESPACE"
      | "named_prefix ctx namespace = Some q"
      using NamedPrefix by (auto simp: prefix_def element_prefix_def split: if_splits option.splits)
    then show ?thesis
    proof cases
      case 2
      with NamedPrefix have "(q, namespace) \<in> set ?added" by (simp add: element_decls_def)
      with declared NamedPrefix show ?thesis by (simp add: prefix_name_def)
    next
      case 3
      with named_prefix_resolves cover NamedPrefix show ?thesis by (simp add: prefix_name_def)
    qed (use xml NamedPrefix in \<open>simp add: prefix_name_def\<close>)
  next
    case (GeneratedPrefix i)
    then have "(prefix_name prefix, namespace) \<in> set ?added" by (simp add: element_decls_def)
    with declared show ?thesis by blast
  qed (use that in simp)
  have "inner [] = Some n" if child: "child_default ctx prefix namespace parent_namespace = Some n" for n
  proof (cases "ns_resolve ctx []")
    case (Some k)
    with cover that show ?thesis by (simp add: child_default_def)
  next
    case None
    with scope have "ctx = []" by (auto simp: scope_ok_def)
    show ?thesis
    proof (cases "prefix = DefaultPrefix")
      case True
      with None child default show ?thesis by (simp add: child_default_def)
    next
      case False
      with fresh(4) outer [OF \<open>ctx = []\<close>] have "inner [] = env []" by blast
      with None False child env show ?thesis by (simp add: child_default_def agrees_def)
    qed
  qed
  with xml cover show "agrees inner (child_default ctx prefix namespace parent_namespace) (Some ctx)"
    by (simp add: agrees_def)
qed

lemma tag_raws_read:
  fixes ctx namespace as env parent_namespace parent_context
  defines "raws \<equiv> tag_raws ctx namespace as parent_namespace parent_context"
  assumes "scope_ok ctx" and "agrees env parent_namespace parent_context" and "2 * length as + 1 + length ctx \<le> max_of 64"
    and "attributes_ok as" and "list_all (\<lambda>a. is_str (at_name a)) as"
  shows "read_attributes (env_extend env (declarations raws)) raws = Some as" and "distinct (map fst raws)"
    and "declarations raws = element_decls ctx (element_prefix ctx namespace) namespace parent_namespace parent_context @
      attr_decls ctx 0 (first_generated (element_prefix ctx namespace)) as"
proof -
  let ?prefix = "element_prefix ctx namespace"
  let ?own = "element_decls ctx ?prefix namespace parent_namespace parent_context"
  let ?attr = "attribute_raws ctx 0 (first_generated ?prefix) as"
  let ?inner = "env_extend env (?own @ attr_decls ctx 0 (first_generated ?prefix) as)"
  note scope = tag_scope [OF assms(2,3,4), where namespace = namespace]
  have "list_all (\<lambda>a. attribute_ok a \<and> is_str (at_name a)) as"
    using assms(5,6) by (simp add: attributes_ok_def list_all_iff)
  note attr = attribute_raws_read [where env = ?inner, OF assms(2) this scope(2) scope(4) [unfolded agrees_def, THEN conjunct1] scope(3)]
  have raws: "raws = map (\<lambda>(p, n). (decl_name p, n)) ?own @ ?attr"
    by (simp add: raws_def tag_raws_def Let_def)
  show decls: "declarations raws = ?own @ attr_decls ctx 0 (first_generated ?prefix) as"
    using attr(2) by (simp add: raws declarations_decls)
  have skip: "read_attributes env (map (\<lambda>(p, n). (decl_name p, n)) ds @ rest) = read_attributes env rest" for env ds rest
    by (induction ds) auto
  show read: "read_attributes (env_extend env (declarations raws)) raws = Some as"
    unfolding decls by (simp add: raws skip attr(1))
  show "distinct (map fst raws)"
    using distinct_by_kind [OF _ read] scope(1) decls assms(5) by (simp add: attributes_ok_def)
qed

lemma element_prefix_name: "scope_ok ctx \<Longrightarrow> CHR '':'' \<notin> set (prefix_name (element_prefix ctx namespace))"
  using named_prefix_resolves [of ctx namespace] scope_okD [of ctx] generated_no_colon
  by (auto simp: element_prefix_def prefix_name_def split: if_splits option.splits)

lemma read_written:
  "element_ok e \<Longrightarrow> writable e \<Longrightarrow> agrees env namespace ctx \<Longrightarrow>
     read_doc env (tag_of e namespace ctx) = Some (XChild (content_of e))"
  "nodes_ok nodes \<Longrightarrow> all_writable nodes \<Longrightarrow> agrees env namespace ctx \<Longrightarrow>
     read_docs env (tags_of nodes namespace ctx) = Some (nodes_content nodes)"
proof (induction e namespace ctx and nodes namespace ctx arbitrary: env and env rule: tag_of_tags_of.induct)
  case (1 name namespace ctx as nodes d n parent_namespace parent_context)
  let ?prefix = "element_prefix ctx namespace"
  let ?raws = "tag_raws ctx namespace as parent_namespace parent_context"
  let ?inner = "env_extend env (declarations ?raws)"
  have ok: "scope_ok ctx" "2 * length as + 1 + length ctx \<le> max_of 64" "attributes_ok as" "list_all (\<lambda>a. is_str (at_name a)) as"
    "nodes_ok nodes" "all_writable nodes" "validate_name name namespace False = Inr ()" "is_str name"
    using 1(2,3) by simp_all
  note read = tag_raws_read [OF ok(1) 1(4) ok(2,3,4), where namespace = namespace]
  note scope = tag_scope [OF ok(1) 1(4) ok(2), where namespace = namespace, folded read(3)]
  have kids: "read_docs ?inner (tags_of nodes (child_default ctx ?prefix namespace parent_namespace) (Some ctx)) = Some (nodes_content nodes)"
    by (rule 1(1) [OF refl ok(5,6) scope(4)])
  have qname: "expand ?inner (default_namespace ?inner) (prefix_write ?prefix @ name) = Some (name, namespace)"
    using scope(5,6) valid_name_no_colon [OF ok(8,7)] element_prefix_name [OF ok(1), of namespace]
    by (cases "?prefix = DefaultPrefix")
      (simp_all add: expand_def split_qname default_namespace_def split_once_None [THEN iffD2])
  have raws: "map (\<lambda>(n, v). (n, read_text True v)) (map escaped ?raws) = ?raws"
    by (induction "?raws") (auto simp: escaped_def read_escape comp_def intro!: map_idI)
  show ?case
    unfolding tag_of.simps Let_def read_doc.simps raws
    using read(1,2) qname kids by simp
qed (simp_all add: read_escape)

section \<open>Properties\<close>

definition xml_env :: Env where
  "xml_env p = (if p = ''xml'' then Some XML_NAMESPACE else None)"

lemma xml_env_agrees: "agrees xml_env None None"
  by (simp add: agrees_def xml_env_def)


lemma sample_writable: "writable sample_element"
  by (simp add: sample_element_def sample_child_def is_str_def as_bytes_def byte_of_char_def scope_ok_def width_defs)


end
