(* ===== verification/Stanza.thy ===== *)
theory Stanza
  imports Xml_Tree
begin

text \<open>
  Stanzas (\<open>lonewolf-xmpp/src/stanza/\<close> \<open>mod.rs\<close>, \<open>error.rs\<close> and \<open>incoming.rs\<close>): the header and its
  types, the builder and its validation, replies and error replies, copies, the writer, and the frame in
  which the parser assembles an incoming stanza or the reason to reject it.

  As in \<open>Xml_Tree\<close> a handle is the value it resolves to. A builder has the fields of the stanza it builds,
  so both are the record \<open>Stanza\<close>; only \<open>stanza_build\<close> and \<open>stanza_finish\<close> make a stanza of a builder.
\<close>

section \<open>Definitions\<close>

subsection \<open>Types\<close>

definition CLIENT_NAMESPACE :: string where
  "CLIENT_NAMESPACE = ''jabber:client''"

definition SERVER_NAMESPACE :: string where
  "SERVER_NAMESPACE = ''jabber:server''"

definition STANZA_ERROR_NAMESPACE :: string where
  "STANZA_ERROR_NAMESPACE = ''urn:ietf:params:xml:ns:xmpp-stanzas''"

datatype StanzaNamespace = Client | Server

definition namespace_as_str :: "StanzaNamespace \<Rightarrow> string" where
  "namespace_as_str n = (case n of Client \<Rightarrow> CLIENT_NAMESPACE | Server \<Rightarrow> SERVER_NAMESPACE)"

datatype StanzaKind = MessageKind | PresenceKind | IqKind

definition kind_as_str :: "StanzaKind \<Rightarrow> string" where
  "kind_as_str k = (case k of MessageKind \<Rightarrow> ''message'' | PresenceKind \<Rightarrow> ''presence'' | IqKind \<Rightarrow> ''iq'')"

datatype MessageType = NormalMessage | ChatMessage | GroupchatMessage | HeadlineMessage | ErrorMessage

datatype PresenceType =
    Available | Unavailable | Subscribe | Subscribed | Unsubscribe | Unsubscribed | Probe | ErrorPresence

datatype IqType = GetIq | SetIq | ResultIq | ErrorIq

datatype StanzaType = MessageStanza MessageType | PresenceStanza PresenceType | IqStanza IqType

definition type_kind :: "StanzaType \<Rightarrow> StanzaKind" where
  "type_kind t = (case t of MessageStanza _ \<Rightarrow> MessageKind | PresenceStanza _ \<Rightarrow> PresenceKind | IqStanza _ \<Rightarrow> IqKind)"

definition type_as_str :: "StanzaType \<Rightarrow> string option" where
  "type_as_str t =
     (case t of
        MessageStanza NormalMessage \<Rightarrow> None
      | MessageStanza ChatMessage \<Rightarrow> Some ''chat''
      | MessageStanza GroupchatMessage \<Rightarrow> Some ''groupchat''
      | MessageStanza HeadlineMessage \<Rightarrow> Some ''headline''
      | MessageStanza ErrorMessage \<Rightarrow> Some ''error''
      | PresenceStanza Available \<Rightarrow> None
      | PresenceStanza Unavailable \<Rightarrow> Some ''unavailable''
      | PresenceStanza Subscribe \<Rightarrow> Some ''subscribe''
      | PresenceStanza Subscribed \<Rightarrow> Some ''subscribed''
      | PresenceStanza Unsubscribe \<Rightarrow> Some ''unsubscribe''
      | PresenceStanza Unsubscribed \<Rightarrow> Some ''unsubscribed''
      | PresenceStanza Probe \<Rightarrow> Some ''probe''
      | PresenceStanza ErrorPresence \<Rightarrow> Some ''error''
      | IqStanza GetIq \<Rightarrow> Some ''get''
      | IqStanza SetIq \<Rightarrow> Some ''set''
      | IqStanza ResultIq \<Rightarrow> Some ''result''
      | IqStanza ErrorIq \<Rightarrow> Some ''error'')"

definition type_is_error :: "StanzaType \<Rightarrow> bool" where
  "type_is_error t \<longleftrightarrow> t = MessageStanza ErrorMessage \<or> t = PresenceStanza ErrorPresence \<or> t = IqStanza ErrorIq"

subsection \<open>Error conditions\<close>

record ApplicationCondition =
  app_name :: string
  app_namespace :: string

datatype StanzaErrorCondition =
    BadRequest | Conflict | Forbidden | InternalServerError | ItemNotFound | JidMalformed | NotAcceptable
  | NotAllowed | PolicyViolation | RemoteServerNotFound | RemoteServerTimeout | ResourceConstraint | ServiceUnavailable

definition condition_as_str :: "StanzaErrorCondition \<Rightarrow> string" where
  "condition_as_str c =
     (case c of
        BadRequest \<Rightarrow> ''bad-request''
      | Conflict \<Rightarrow> ''conflict''
      | Forbidden \<Rightarrow> ''forbidden''
      | InternalServerError \<Rightarrow> ''internal-server-error''
      | ItemNotFound \<Rightarrow> ''item-not-found''
      | JidMalformed \<Rightarrow> ''jid-malformed''
      | NotAcceptable \<Rightarrow> ''not-acceptable''
      | NotAllowed \<Rightarrow> ''not-allowed''
      | PolicyViolation \<Rightarrow> ''policy-violation''
      | RemoteServerNotFound \<Rightarrow> ''remote-server-not-found''
      | RemoteServerTimeout \<Rightarrow> ''remote-server-timeout''
      | ResourceConstraint \<Rightarrow> ''resource-constraint''
      | ServiceUnavailable \<Rightarrow> ''service-unavailable'')"

definition error_type :: "StanzaErrorCondition \<Rightarrow> string" where
  "error_type c =
     (case c of
        BadRequest \<Rightarrow> ''modify'' | JidMalformed \<Rightarrow> ''modify'' | NotAcceptable \<Rightarrow> ''modify''
      | Conflict \<Rightarrow> ''cancel'' | ItemNotFound \<Rightarrow> ''cancel'' | NotAllowed \<Rightarrow> ''cancel''
      | RemoteServerNotFound \<Rightarrow> ''cancel'' | ServiceUnavailable \<Rightarrow> ''cancel''
      | Forbidden \<Rightarrow> ''auth''
      | InternalServerError \<Rightarrow> ''cancel''
      | PolicyViolation \<Rightarrow> ''wait'' | RemoteServerTimeout \<Rightarrow> ''wait'' | ResourceConstraint \<Rightarrow> ''wait'')"

datatype StanzaErrorText =
    StaticText string
  | TwoLimits "string \<times> string \<times> string" "nat \<times> nat"
  | Limit string nat string

definition default_text :: "StanzaErrorCondition \<Rightarrow> StanzaErrorText" where
  "default_text c = StaticText
     (case c of
        BadRequest \<Rightarrow> ''The request has an invalid structure or value. Check the request format.''
      | Conflict \<Rightarrow> ''The request conflicts with the current state. Choose another value or refresh the state.''
      | Forbidden \<Rightarrow> ''You do not have permission to perform this operation.''
      | InternalServerError \<Rightarrow> ''The server could not complete the request. Try again later.''
      | ItemNotFound \<Rightarrow> ''The requested item is not available.''
      | JidMalformed \<Rightarrow> ''An address is invalid. Use a valid XMPP address.''
      | NotAcceptable \<Rightarrow> ''A request value exceeds an allowed limit or has an unsupported format.''
      | NotAllowed \<Rightarrow> ''This operation is not allowed for the requested target.''
      | PolicyViolation \<Rightarrow> ''The request violates a server policy. Change the request before retrying.''
      | RemoteServerNotFound \<Rightarrow> ''The server cannot deliver this request to a remote domain.''
      | RemoteServerTimeout \<Rightarrow> ''The server could not reach the remote domain in time.''
      | ResourceConstraint \<Rightarrow> ''The server cannot complete this request within its resource limits.''
      | ServiceUnavailable \<Rightarrow> ''The requested service or operation is unavailable for this target. Check the address and requested feature.'')"

text \<open>The 512-byte buffer of the formatted texts; the pieces are strings, so the result is UTF-8.\<close>

definition buffer_write :: "string \<Rightarrow> (BuildError, string) result" where
  "buffer_write s = (if length s \<le> 512 then Inr s else Inl InvalidText)"

definition description :: "StanzaErrorText \<Rightarrow> (BuildError, string) result" where
  "description t =
     (case t of
        StaticText s \<Rightarrow> Inr s
      | TwoLimits (prefix, separator, suffix) (first, second) \<Rightarrow>
          buffer_write (prefix @ decimal first @ separator @ decimal second @ suffix)
      | Limit prefix m suffix \<Rightarrow> buffer_write (prefix @ decimal m @ suffix))"

definition error_element_in :: "StanzaNamespace \<Rightarrow> StanzaErrorCondition \<Rightarrow> ApplicationCondition option \<Rightarrow> StanzaErrorText
    \<Rightarrow> (BuildError, Element) result" where
  "error_element_in namespace condition application content =
     ok_then (ok_then (element_builder_in (condition_as_str condition) STANZA_ERROR_NAMESPACE) element_build) (\<lambda>defined.
     ok_then (description content) (\<lambda>description.
     ok_then (ok_then (element_builder_in ''text'' STANZA_ERROR_NAMESPACE) (\<lambda>b.
       ok_then (element_attribute ''lang'' XML_NAMESPACE ''en'' b) (\<lambda>b.
       ok_then (element_text description b) element_build))) (\<lambda>content.
     ok_then (transpose_map (\<lambda>a. ok_then (element_builder_in (app_name a) (app_namespace a)) element_build) application) (\<lambda>application.
     ok_then (element_builder_in ''error'' (namespace_as_str namespace)) (\<lambda>error.
     ok_then (element_attribute ''type'' [] (error_type condition) error) (\<lambda>error.
       (let error = element_child content (element_child defined error);
            error = (case application of None \<Rightarrow> error | Some a \<Rightarrow> element_child a error)
        in element_build error)))))))"

subsection \<open>Stanzas and their builder\<close>

record Header =
  stanza_type :: StanzaType
  original_message_type :: "string option"
  h_namespace :: StanzaNamespace
  h_from :: "Jid option"
  h_to :: "Jid option"
  h_id :: "string option"
  h_lang :: "string option"

record Stanza =
  header :: Header
  namespaces :: NamespaceContext
  attributes :: "Attribute list"
  children :: "Element list"

type_synonym StanzaBuilder = Stanza

definition stanza_builder_in :: "StanzaType \<Rightarrow> StanzaNamespace \<Rightarrow> StanzaBuilder" where
  "stanza_builder_in t namespace =
     \<lparr>header = \<lparr>stanza_type = t, original_message_type = None, h_namespace = namespace, h_from = None, h_to = None,
        h_id = None, h_lang = None\<rparr>,
      namespaces = [], attributes = [], children = []\<rparr>"

definition stanza_derive_in :: "Stanza \<Rightarrow> StanzaBuilder" where
  "stanza_derive_in s = s"

definition reserved_attribute :: "string \<Rightarrow> string \<Rightarrow> bool" where
  "reserved_attribute name namespace \<longleftrightarrow>
     namespace = [] \<and> name \<in> {''from'', ''to'', ''id'', ''type'', ''xmlns''} \<or> namespace = XML_NAMESPACE \<and> name = ''lang''"

definition store_text :: "string option \<Rightarrow> (BuildError, string option) result" where
  "store_text content = transpose_map (\<lambda>t. ok_then (validate_text t) (\<lambda>_. Inr t)) content"

definition set_stanza_type :: "StanzaType \<Rightarrow> StanzaBuilder \<Rightarrow> StanzaBuilder" where
  "set_stanza_type t b = b\<lparr>header := (header b)\<lparr>stanza_type := t, original_message_type := None\<rparr>\<rparr>"

definition set_from :: "Jid option \<Rightarrow> StanzaBuilder \<Rightarrow> StanzaBuilder" where
  "set_from j b = b\<lparr>header := (header b)\<lparr>h_from := j\<rparr>\<rparr>"

definition set_to :: "Jid option \<Rightarrow> StanzaBuilder \<Rightarrow> StanzaBuilder" where
  "set_to j b = b\<lparr>header := (header b)\<lparr>h_to := j\<rparr>\<rparr>"

definition swap_addresses :: "StanzaBuilder \<Rightarrow> StanzaBuilder" where
  "swap_addresses b = b\<lparr>header := (header b)\<lparr>h_from := h_to (header b), h_to := h_from (header b)\<rparr>\<rparr>"

definition bare_to :: "StanzaBuilder \<Rightarrow> StanzaBuilder" where
  "bare_to b = b\<lparr>header := (header b)\<lparr>h_to := map_option jid_bare (h_to (header b))\<rparr>\<rparr>"

definition set_id :: "string option \<Rightarrow> StanzaBuilder \<Rightarrow> (BuildError, StanzaBuilder) result" where
  "set_id i b = ok_then (store_text i) (\<lambda>i. Inr (b\<lparr>header := (header b)\<lparr>h_id := i\<rparr>\<rparr>))"

definition set_lang :: "string option \<Rightarrow> StanzaBuilder \<Rightarrow> (BuildError, StanzaBuilder) result" where
  "set_lang l b = ok_then (store_text l) (\<lambda>l. Inr (b\<lparr>header := (header b)\<lparr>h_lang := l\<rparr>\<rparr>))"

definition stanza_attribute :: "string \<Rightarrow> string \<Rightarrow> string \<Rightarrow> StanzaBuilder \<Rightarrow> (BuildError, StanzaBuilder) result" where
  "stanza_attribute name namespace v b =
     (if reserved_attribute name namespace then Inl ReservedAttribute
      else ok_then (attributes_set name namespace v (attributes b)) (\<lambda>as. Inr (b\<lparr>attributes := as\<rparr>)))"

definition stanza_remove_attribute :: "string \<Rightarrow> string \<Rightarrow> StanzaBuilder \<Rightarrow> (BuildError, StanzaBuilder) result" where
  "stanza_remove_attribute name namespace b =
     (if reserved_attribute name namespace then Inl ReservedAttribute
      else Inr (b\<lparr>attributes := attributes_remove name namespace (attributes b)\<rparr>))"

definition clear_attributes :: "StanzaBuilder \<Rightarrow> StanzaBuilder" where
  "clear_attributes b = b\<lparr>attributes := []\<rparr>"

definition stanza_child :: "Element \<Rightarrow> StanzaBuilder \<Rightarrow> StanzaBuilder" where
  "stanza_child e b = b\<lparr>children := children b @ [e]\<rparr>"

definition stanza_remove_children :: "string \<Rightarrow> string \<Rightarrow> StanzaBuilder \<Rightarrow> StanzaBuilder" where
  "stanza_remove_children name namespace b =
     b\<lparr>children := filter (\<lambda>e. el_name e \<noteq> name \<or> el_namespace e \<noteq> namespace) (children b)\<rparr>"

definition stanza_clear_children :: "StanzaBuilder \<Rightarrow> StanzaBuilder" where
  "stanza_clear_children b = b\<lparr>children := []\<rparr>"

text \<open>The loop over the children counts their nodes and finds the error child, which must be the last.\<close>

fun validate_children :: "StanzaNamespace \<Rightarrow> Element list \<Rightarrow> nat \<Rightarrow> nat \<Rightarrow> (BuildError, nat) result" where
  "validate_children namespace [] nodes errors = Inr errors"
| "validate_children namespace (c # rest) nodes errors =
     (let nodes = nodes + el_nodes c in
      if MAX_ELEMENT_DEPTH \<le> el_depth c \<or> MAX_ELEMENT_NODES < nodes then Inl TreeLimitExceeded
      else if el_name c = ''error'' \<and> el_namespace c = namespace_as_str namespace then
        (if rest \<noteq> [] then Inl InvalidErrorPayload else validate_children namespace rest nodes (errors + 1))
      else validate_children namespace rest nodes errors)"

definition stanza_validate :: "StanzaBuilder \<Rightarrow> (BuildError, unit) result" where
  "stanza_validate b =
     (let h = header b in
      if h_namespace h = Server \<and> (h_from h = None \<or> h_to h = None) then Inl MissingServerAddresses
      else
        ok_then (validate_children (h_namespace h) (children b) 1 0) (\<lambda>errors.
          if errors \<noteq> (if type_is_error (stanza_type h) then 1 else 0) then Inl InvalidErrorPayload
          else (case stanza_type h of
              IqStanza iq \<Rightarrow>
                if h_id h = None then Inl MissingIqId
                else (let payloads = length (children b) - errors in
                  if (case iq of GetIq \<Rightarrow> payloads = 1 | SetIq \<Rightarrow> payloads = 1 | ResultIq \<Rightarrow> payloads \<le> 1 | ErrorIq \<Rightarrow> payloads \<le> 1)
                  then Inr () else Inl InvalidIqPayload)
            | _ \<Rightarrow> Inr ())))"

definition stanza_build :: "StanzaBuilder \<Rightarrow> (BuildError, Stanza) result" where
  "stanza_build b = ok_then (stanza_validate b) (\<lambda>_. Inr b)"

subsection \<open>Replies\<close>

definition reply_in :: "Stanza \<Rightarrow> (BuildError, StanzaBuilder) result" where
  "reply_in s =
     (let h = header s in
      if stanza_type h \<noteq> IqStanza GetIq \<and> stanza_type h \<noteq> IqStanza SetIq then Inl NotIqRequest
      else Inr \<lparr>header = h\<lparr>stanza_type := IqStanza ResultIq, original_message_type := None, h_from := h_to h, h_to := h_from h\<rparr>,
             namespaces = [], attributes = [], children = []\<rparr>)"

definition error_reply_type :: "StanzaType \<Rightarrow> (BuildError, StanzaType) result" where
  "error_reply_type t =
     (case t of
        IqStanza GetIq \<Rightarrow> Inr (IqStanza ErrorIq)
      | IqStanza SetIq \<Rightarrow> Inr (IqStanza ErrorIq)
      | MessageStanza _ \<Rightarrow> if type_is_error t then Inl InvalidErrorSource else Inr (MessageStanza ErrorMessage)
      | PresenceStanza _ \<Rightarrow> if type_is_error t then Inl InvalidErrorSource else Inr (PresenceStanza ErrorPresence)
      | _ \<Rightarrow> Inl InvalidErrorSource)"

definition error_reply_described_in :: "Stanza \<Rightarrow> StanzaErrorCondition \<Rightarrow> ApplicationCondition option \<Rightarrow> StanzaErrorText
    \<Rightarrow> (BuildError, StanzaBuilder) result" where
  "error_reply_described_in s condition application content =
     (let h = header s in
      ok_then (error_reply_type (stanza_type h)) (\<lambda>t.
      ok_then (error_element_in (h_namespace h) condition application content) (\<lambda>error.
        Inr (stanza_child error
          \<lparr>header = h\<lparr>stanza_type := t, original_message_type := None, h_from := h_to h, h_to := h_from h\<rparr>,
           namespaces = [], attributes = [], children = children s\<rparr>))))"

definition error_reply_with_in :: "Stanza \<Rightarrow> StanzaErrorCondition \<Rightarrow> ApplicationCondition option
    \<Rightarrow> (BuildError, StanzaBuilder) result" where
  "error_reply_with_in s condition application = error_reply_described_in s condition application (default_text condition)"

definition error_reply_in :: "Stanza \<Rightarrow> StanzaErrorCondition \<Rightarrow> (BuildError, StanzaBuilder) result" where
  "error_reply_in s condition = error_reply_with_in s condition None"

subsection \<open>Reading and copying\<close>

definition stanza_ref_attribute :: "Stanza \<Rightarrow> string \<Rightarrow> string \<Rightarrow> string option" where
  "stanza_ref_attribute s name namespace = map_option at_value (List.find (attribute_matches name namespace) (attributes s))"

definition stanza_ref_child :: "Stanza \<Rightarrow> string \<Rightarrow> string \<Rightarrow> Element option" where
  "stanza_ref_child s name namespace = List.find (\<lambda>c. el_name c = name \<and> el_namespace c = namespace) (children s)"

fun copy_children :: "(Element \<Rightarrow> bool) \<Rightarrow> Element list \<Rightarrow> (BuildError, Element list) result" where
  "copy_children keep [] = Inr []"
| "copy_children keep (c # rest) =
     (if keep c then ok_then (clone_element c) (\<lambda>c. ok_then (copy_children keep rest) (\<lambda>rest. Inr (c # rest)))
      else copy_children keep rest)"

definition to_builder_in_filtered :: "Stanza \<Rightarrow> (Element \<Rightarrow> bool) \<Rightarrow> (BuildError, StanzaBuilder) result" where
  "to_builder_in_filtered s keep =
     ok_then (attributes_append_from (attributes s) []) (\<lambda>as.
     ok_then (copy_children keep (children s)) (\<lambda>kids.
       Inr \<lparr>header = header s, namespaces = namespaces s, attributes = as, children = kids\<rparr>))"

definition to_builder_in :: "Stanza \<Rightarrow> (BuildError, StanzaBuilder) result" where
  "to_builder_in s = to_builder_in_filtered s (\<lambda>_. True)"

definition stanza_clone_in :: "Stanza \<Rightarrow> (BuildError, Stanza) result" where
  "stanza_clone_in s = ok_then (to_builder_in s) stanza_build"

fun rescope_children :: "string \<Rightarrow> string \<Rightarrow> Element list \<Rightarrow> (BuildError, Element list) result" where
  "rescope_children old new [] = Inr []"
| "rescope_children old new (c # rest) =
     ok_then (rescope_element old new c) (\<lambda>c. ok_then (rescope_children old new rest) (\<lambda>rest. Inr (c # rest)))"

definition rescope_in :: "Stanza \<Rightarrow> StanzaNamespace \<Rightarrow> (BuildError, Stanza) result" where
  "rescope_in s namespace =
     (let old = namespace_as_str (h_namespace (header s)); new = namespace_as_str namespace in
      if namespace = h_namespace (header s) then stanza_clone_in s
      else
        ok_then (attributes_append_from (attributes s) []) (\<lambda>as.
        ok_then (rescope_children old new (children s)) (\<lambda>kids.
          stanza_build \<lparr>header = (header s)\<lparr>h_namespace := namespace\<rparr>, namespaces = rescope_context old new (namespaces s),
            attributes = as, children = kids\<rparr>)))"

definition serialized_type :: "Header \<Rightarrow> string option" where
  "serialized_type h = (case original_message_type h of Some t \<Rightarrow> Some t | None \<Rightarrow> type_as_str (stanza_type h))"

definition jid_as_str :: "Jid \<Rightarrow> string" where
  "jid_as_str j = ref_text (resolve j)"

definition frame_optional :: "string \<Rightarrow> string \<Rightarrow> string option \<Rightarrow> ElementBuilder \<Rightarrow> (BuildError, ElementBuilder) result" where
  "frame_optional name namespace v b = (case v of None \<Rightarrow> Inr b | Some v \<Rightarrow> frame_attribute name namespace v b)"

definition to_element_builder_in_filtered :: "Stanza \<Rightarrow> (Element \<Rightarrow> bool) \<Rightarrow> (BuildError, ElementBuilder) result" where
  "to_element_builder_in_filtered s keep =
     (let h = header s in
      ok_then (element_builder_in (kind_as_str (type_kind (stanza_type h))) (namespace_as_str (h_namespace h))) (\<lambda>frame.
      ok_then (frame_optional ''from'' [] (map_option jid_as_str (h_from h)) frame) (\<lambda>frame.
      ok_then (frame_optional ''to'' [] (map_option jid_as_str (h_to h)) frame) (\<lambda>frame.
      ok_then (frame_optional ''id'' [] (h_id h) frame) (\<lambda>frame.
      ok_then (frame_optional ''type'' [] (serialized_type h) frame) (\<lambda>frame.
      ok_then (frame_optional ''lang'' XML_NAMESPACE (h_lang h) frame) (\<lambda>frame.
      ok_then (attributes_append_from (attributes s) (b_attributes frame)) (\<lambda>as.
      ok_then (copy_children keep (children s)) (\<lambda>kids.
        Inr (frame\<lparr>b_attributes := as, b_namespaces := namespaces s, b_children := b_children frame @ map ElementNode kids\<rparr>))))))))))"

definition to_element_in :: "Stanza \<Rightarrow> (BuildError, Element) result" where
  "to_element_in s = ok_then (to_element_builder_in_filtered s (\<lambda>_. True)) element_build"

subsection \<open>Writing\<close>

definition write_optional :: "string \<Rightarrow> string option \<Rightarrow> string" where
  "write_optional name v = (case v of None \<Rightarrow> [] | Some v \<Rightarrow> xml_attribute name v)"

definition stanza_write_xml :: "Stanza \<Rightarrow> string" where
  "stanza_write_xml s =
     (let h = header s; name = kind_as_str (type_kind (stanza_type h)); namespace = namespace_as_str (h_namespace h);
          prefix = element_prefix (namespaces s) namespace
      in ''<'' @ prefix_write prefix @ name @
         namespaces_write (namespaces s) prefix namespace None None @
         write_optional ''from'' (map_option jid_as_str (h_from h)) @
         write_optional ''to'' (map_option jid_as_str (h_to h)) @
         write_optional ''id'' (h_id h) @
         write_optional ''type'' (serialized_type h) @
         write_optional ''xml:lang'' (h_lang h) @
         write_attributes (attributes s) (namespaces s) prefix @
         (if children s = [] then ''/>''
          else ''>'' @ concat (map (\<lambda>c. write_in c (child_default (namespaces s) prefix namespace None) (Some (namespaces s))) (children s)) @
            ''</'' @ prefix_write prefix @ name @ ''>''))"

definition stanza_write_xml_async :: "Stanza \<Rightarrow> string" where
  "stanza_write_xml_async s =
     (let h = header s; name = kind_as_str (type_kind (stanza_type h)); namespace = namespace_as_str (h_namespace h);
          prefix = element_prefix (namespaces s) namespace;
          start = ''<'' @ prefix_write_async prefix @ name @
            namespaces_write_async (namespaces s) prefix namespace None None @
            write_optional ''from'' (map_option jid_as_str (h_from h)) @
            write_optional ''to'' (map_option jid_as_str (h_to h)) @
            write_optional ''id'' (h_id h) @
            write_optional ''type'' (serialized_type h) @
            write_optional ''xml:lang'' (h_lang h) @
            write_attributes_async (attributes s) (namespaces s) prefix
      in if children s = [] then start @ ''/>''
         else start @ ''>'' @
           concat (map (\<lambda>c. write_in_async c (child_default (namespaces s) prefix namespace None) (Some (namespaces s))) (children s)) @
           ''</'' @ prefix_write_async prefix @ name @ ''>'')"

subsection \<open>Incoming stanzas\<close>

datatype StanzaRejection = RejectBadRequest | RejectJidMalformed

record RejectedEnvelope =
  env_from :: "Jid option"
  env_to :: "Jid option"
  env_id :: "string option"
  env_lang :: "string option"

record RejectedStanza =
  r_kind :: StanzaKind
  r_namespace :: StanzaNamespace
  r_reason :: StanzaRejection
  r_can_reply :: bool
  r_invalid_from :: bool
  r_invalid_to :: bool
  r_envelope :: RejectedEnvelope

definition rejection_error_in :: "RejectedStanza \<Rightarrow> Jid \<Rightarrow> Jid \<Rightarrow> (BuildError, Stanza) result" where
  "rejection_error_in r authenticated server =
     (let env = r_envelope r in
      if \<not> r_can_reply r then Inl InvalidErrorSource
      else
        (let condition = (case r_reason r of RejectBadRequest \<Rightarrow> BadRequest | RejectJidMalformed \<Rightarrow> JidMalformed) in
         ok_then (error_element_in (r_namespace r) condition None (default_text condition)) (\<lambda>error.
           stanza_build (stanza_child error
             \<lparr>header =
                \<lparr>stanza_type = (case r_kind r of MessageKind \<Rightarrow> MessageStanza ErrorMessage
                   | PresenceKind \<Rightarrow> PresenceStanza ErrorPresence | IqKind \<Rightarrow> IqStanza ErrorIq),
                 original_message_type = None, h_namespace = r_namespace r,
                 h_from = (if r_invalid_to r then Some server else env_to env), h_to = Some authenticated,
                 h_id = (if env_id env = None \<and> r_kind r = IqKind then Some [] else env_id env),
                 h_lang = env_lang env\<rparr>,
              namespaces = [], attributes = [], children = []\<rparr>))))"

record StanzaFrame =
  f_kind :: StanzaKind
  f_namespace :: StanzaNamespace
  raw_type :: "string option"
  f_from :: "string option"
  f_to :: "string option"
  f_id :: "string option"
  f_lang :: "string option"
  invalid_text :: bool
  f_namespaces :: NamespaceContext
  f_attributes :: "Attribute list"
  f_children :: "Element list"

datatype Frame = FrameElement ElementBuilder | FrameStanza StanzaFrame

datatype Completed = CompletedElement Element | CompletedStanza Stanza | CompletedRejected RejectedStanza

definition incoming_stanza :: "StanzaKind \<Rightarrow> StanzaNamespace \<Rightarrow> Frame" where
  "incoming_stanza kind namespace = FrameStanza
     \<lparr>f_kind = kind, f_namespace = namespace, raw_type = None, f_from = None, f_to = None, f_id = None, f_lang = None,
      invalid_text = False, f_namespaces = [], f_attributes = [], f_children = []\<rparr>"

definition incoming_element :: "string \<Rightarrow> string \<Rightarrow> (BuildError, Frame) result" where
  "incoming_element name namespace = ok_then (element_builder_in name namespace) (\<lambda>b. Inr (FrameElement b))"

definition incoming_namespaces :: "Frame \<Rightarrow> NamespaceContext" where
  "incoming_namespaces f = (case f of FrameElement b \<Rightarrow> b_namespaces b | FrameStanza s \<Rightarrow> f_namespaces s)"

definition set_namespaces :: "NamespaceContext \<Rightarrow> Frame \<Rightarrow> Frame" where
  "set_namespaces ctx f =
     (case f of FrameElement b \<Rightarrow> FrameElement (b\<lparr>b_namespaces := ctx\<rparr>) | FrameStanza s \<Rightarrow> FrameStanza (s\<lparr>f_namespaces := ctx\<rparr>))"

definition incoming_attribute :: "string \<Rightarrow> string \<Rightarrow> string \<Rightarrow> Frame \<Rightarrow> (BuildError, Frame) result" where
  "incoming_attribute name namespace v f =
     (case f of
        FrameElement b \<Rightarrow> ok_then (frame_attribute name namespace v b) (\<lambda>b. Inr (FrameElement b))
      | FrameStanza s \<Rightarrow>
          if name = ''from'' \<and> namespace = [] then
            ok_then (store_text (Some v)) (\<lambda>v. Inr (FrameStanza (s\<lparr>f_from := v\<rparr>)))
          else if name = ''to'' \<and> namespace = [] then
            ok_then (store_text (Some v)) (\<lambda>v. Inr (FrameStanza (s\<lparr>f_to := v\<rparr>)))
          else if name = ''id'' \<and> namespace = [] then
            ok_then (store_text (Some v)) (\<lambda>v. Inr (FrameStanza (s\<lparr>f_id := v\<rparr>)))
          else if name = ''lang'' \<and> namespace = XML_NAMESPACE then
            ok_then (store_text (Some v)) (\<lambda>v. Inr (FrameStanza (s\<lparr>f_lang := v\<rparr>)))
          else if name = ''type'' \<and> namespace = [] then
            ok_then (store_text (Some v)) (\<lambda>v. Inr (FrameStanza (s\<lparr>raw_type := v\<rparr>)))
          else if attributes_find name namespace (f_attributes s) \<noteq> None then Inl DuplicateAttribute
          else ok_then (attributes_set name namespace v (f_attributes s)) (\<lambda>as. Inr (FrameStanza (s\<lparr>f_attributes := as\<rparr>))))"

definition xml_blank :: "char \<Rightarrow> bool" where
  "xml_blank c \<longleftrightarrow> c \<in> {CHR '' '', CHR 0x09, CHR 0x0D, CHR 0x0A}"

definition incoming_text :: "string \<Rightarrow> Frame \<Rightarrow> (BuildError, Frame) result" where
  "incoming_text content f =
     (case f of
        FrameElement b \<Rightarrow> ok_then (frame_text content b) (\<lambda>b. Inr (FrameElement b))
      | FrameStanza s \<Rightarrow> ok_then (validate_text content) (\<lambda>_.
          Inr (FrameStanza (s\<lparr>invalid_text := invalid_text s \<or> \<not> list_all xml_blank content\<rparr>))))"

definition incoming_child :: "Element \<Rightarrow> Frame \<Rightarrow> Frame" where
  "incoming_child e f =
     (case f of FrameElement b \<Rightarrow> FrameElement (element_child e b)
      | FrameStanza s \<Rightarrow> FrameStanza (s\<lparr>f_children := f_children s @ [e]\<rparr>))"

definition incoming_address :: "UnicodeData \<Rightarrow> string option \<Rightarrow> Jid option \<times> bool" where
  "incoming_address u raw =
     (case raw of None \<Rightarrow> (None, False)
      | Some txt \<Rightarrow> (case parse_in u txt of Inr j \<Rightarrow> (Some j, False) | Inl _ \<Rightarrow> (None, True)))"

definition incoming_type :: "StanzaKind \<Rightarrow> string option \<Rightarrow> StanzaType option" where
  "incoming_type kind v =
     (case kind of
        MessageKind \<Rightarrow>
          Some (MessageStanza (if v = Some ''chat'' then ChatMessage else if v = Some ''groupchat'' then GroupchatMessage
            else if v = Some ''headline'' then HeadlineMessage else if v = Some ''error'' then ErrorMessage else NormalMessage))
      | PresenceKind \<Rightarrow>
          if v = None then Some (PresenceStanza Available)
          else if v = Some ''unavailable'' then Some (PresenceStanza Unavailable)
          else if v = Some ''subscribe'' then Some (PresenceStanza Subscribe)
          else if v = Some ''subscribed'' then Some (PresenceStanza Subscribed)
          else if v = Some ''unsubscribe'' then Some (PresenceStanza Unsubscribe)
          else if v = Some ''unsubscribed'' then Some (PresenceStanza Unsubscribed)
          else if v = Some ''probe'' then Some (PresenceStanza Probe)
          else if v = Some ''error'' then Some (PresenceStanza ErrorPresence)
          else None
      | IqKind \<Rightarrow>
          if v = Some ''get'' then Some (IqStanza GetIq)
          else if v = Some ''set'' then Some (IqStanza SetIq)
          else if v = Some ''result'' then Some (IqStanza ResultIq)
          else if v = Some ''error'' then Some (IqStanza ErrorIq)
          else None)"

definition default_type :: "StanzaKind \<Rightarrow> StanzaType" where
  "default_type kind = (case kind of MessageKind \<Rightarrow> MessageStanza NormalMessage
     | PresenceKind \<Rightarrow> PresenceStanza Available | IqKind \<Rightarrow> IqStanza GetIq)"

definition stanza_finish :: "UnicodeData \<Rightarrow> StanzaFrame \<Rightarrow> (BuildError, Completed) result" where
  "stanza_finish u f =
     (let can_reply = (raw_type f \<noteq> Some ''error'' \<and> \<not> (f_kind f = IqKind \<and> raw_type f = Some ''result''));
          t = incoming_type (f_kind f) (raw_type f);
          (sender, invalid_from) = incoming_address u (f_from f);
          (target, invalid_to) = incoming_address u (f_to f);
          builder =
            \<lparr>header =
               \<lparr>stanza_type = (case t of None \<Rightarrow> default_type (f_kind f) | Some t \<Rightarrow> t),
                original_message_type = (if f_kind f = MessageKind then raw_type f else None),
                h_namespace = f_namespace f, h_from = sender, h_to = target, h_id = f_id f, h_lang = f_lang f\<rparr>,
             namespaces = f_namespaces f, attributes = f_attributes f, children = f_children f\<rparr>;
          reject = (\<lambda>reason. Inr (CompletedRejected
            \<lparr>r_kind = f_kind f, r_namespace = f_namespace f, r_reason = reason, r_can_reply = can_reply,
             r_invalid_from = invalid_from, r_invalid_to = invalid_to,
             r_envelope = \<lparr>env_from = sender, env_to = target, env_id = f_id f, env_lang = f_lang f\<rparr>\<rparr>))
      in ok_then
           (case stanza_validate builder of
              Inr _ \<Rightarrow> Inr (invalid_text f \<or> t = None)
            | Inl e \<Rightarrow> if e \<in> {MissingIqId, InvalidIqPayload, InvalidErrorPayload, MissingServerAddresses} then Inr True else Inl e)
           (\<lambda>invalid_structure.
             if invalid_structure then reject RejectBadRequest
             else if invalid_from \<or> invalid_to then reject RejectJidMalformed
             else Inr (CompletedStanza builder)))"

definition incoming_finish :: "UnicodeData \<Rightarrow> Frame \<Rightarrow> (BuildError, Completed) result" where
  "incoming_finish u f =
     (case f of FrameElement b \<Rightarrow> ok_then (element_build b) (\<lambda>e. Inr (CompletedElement e))
      | FrameStanza s \<Rightarrow> stanza_finish u s)"

section \<open>Validation\<close>

definition error_child :: "StanzaNamespace \<Rightarrow> Element \<Rightarrow> bool" where
  "error_child namespace e \<longleftrightarrow> el_name e = ''error'' \<and> el_namespace e = namespace_as_str namespace"

definition tree_size :: "Element list \<Rightarrow> nat" where
  "tree_size cs = 1 + sum_list (map element_count cs)"

definition within_limits :: "Element list \<Rightarrow> bool" where
  "within_limits cs \<longleftrightarrow> (\<forall>c \<in> set cs. element_height c < MAX_ELEMENT_DEPTH) \<and> tree_size cs \<le> MAX_ELEMENT_NODES"

text \<open>The rules of RFC 6120, sections 8.1 to 8.3, that a stanza has to keep.\<close>

definition rfc_rules :: "Stanza \<Rightarrow> bool" where
  "rfc_rules s \<longleftrightarrow>
     (let h = header s; errors = filter (error_child (h_namespace h)) (children s) in
      (h_namespace h = Server \<longrightarrow> h_from h \<noteq> None \<and> h_to h \<noteq> None) \<and>
      (if type_is_error (stanza_type h) then \<exists>payload e. children s = payload @ [e] \<and> errors = [e] else errors = []) \<and>
      (\<forall>iq. stanza_type h = IqStanza iq \<longrightarrow> h_id h \<noteq> None \<and>
         (if iq \<in> {GetIq, SetIq} then length (children s) = 1 else length (children s) \<le> 1 + length errors)))"

lemma validate_children_result:
  assumes "list_all element_ok cs"
  shows "validate_children namespace cs nodes n = Inr k \<longleftrightarrow>
    (\<forall>c \<in> set cs. element_height c < MAX_ELEMENT_DEPTH) \<and>
    (cs = [] \<or> nodes + sum_list (map element_count cs) \<le> MAX_ELEMENT_NODES) \<and>
    filter (error_child namespace) (butlast cs) = [] \<and> k = n + length (filter (error_child namespace) cs)"
  using assms
proof (induction cs arbitrary: nodes n)
  case (Cons c cs)
  then have size: "el_depth c = element_height c" "el_nodes c = element_count c" and ok: "list_all element_ok cs"
    by (simp_all add: element_ok_size)
  show ?case
  proof (cases "error_child namespace c")
    case True
    then show ?thesis
      by (cases cs) (auto simp: size Let_def error_child_def)
  next
    case False
    then have step: "validate_children namespace (c # cs) nodes n =
        (if MAX_ELEMENT_DEPTH \<le> element_height c \<or> MAX_ELEMENT_NODES < nodes + element_count c then Inl TreeLimitExceeded
         else validate_children namespace cs (nodes + element_count c) n)"
      by (auto simp: size Let_def error_child_def)
    show ?thesis
      unfolding step using False Cons.IH [OF ok, of "nodes + element_count c" n]
      by (cases cs) (auto simp: add.assoc)
  qed
qed auto

lemma validate_children_errors:
  "validate_children namespace cs nodes n = Inl e \<Longrightarrow> e = TreeLimitExceeded \<or> e = InvalidErrorPayload"
  by (induction namespace cs nodes n rule: validate_children.induct) (auto simp: Let_def split: if_splits)

lemma validate_children_tree:
  "list_all element_ok cs \<Longrightarrow> validate_children namespace cs nodes n = Inl TreeLimitExceeded \<Longrightarrow>
    (\<exists>c \<in> set cs. MAX_ELEMENT_DEPTH \<le> element_height c) \<or> MAX_ELEMENT_NODES < nodes + sum_list (map element_count cs)"
proof (induction cs arbitrary: nodes n)
  case (Cons c cs)
  then show ?case
    using Cons.prems Cons.IH [of "nodes + element_count c" n] Cons.IH [of "nodes + element_count c" "n + 1"]
    by (auto simp: element_ok_size Let_def add.assoc split: if_splits)
qed simp

lemma sole_error_last:
  "filter p (butlast cs) = [] \<and> length (filter p cs) = 1 \<longleftrightarrow> (\<exists>payload e. cs = payload @ [e] \<and> filter p cs = [e])"
proof (cases cs rule: rev_cases)
  case (snoc ys y)
  have "filter p ys = [y] \<Longrightarrow> p y" using filter_set [of p ys] by auto
  with snoc show ?thesis by auto
qed simp

lemma no_error_child: "filter p (butlast cs) = [] \<and> length (filter p cs) = 0 \<longleftrightarrow> filter p cs = []"
  by (cases cs rule: rev_cases) auto

lemma error_children_iff:
  "filter p (butlast cs) = [] \<and> (if failed then 1 else 0) = length (filter p cs) \<longleftrightarrow>
    (if failed then \<exists>payload e. cs = payload @ [e] \<and> filter p cs = [e] else filter p cs = [])"
  using sole_error_last [of p cs] no_error_child [of p cs] by (simp only: eq_commute [of _ "length _"] split: if_split) blast

lemma stanza_validate_iff:
  assumes "list_all element_ok (children s)"
  shows "stanza_validate s = Inr () \<longleftrightarrow> rfc_rules s \<and> within_limits (children s)"
proof -
  let ?cs = "children s" and ?h = "header s"
  let ?ns = "h_namespace ?h"
  let ?errors = "filter (error_child ?ns) ?cs"
  have limits: "within_limits ?cs \<longleftrightarrow> (\<forall>c \<in> set ?cs. element_height c < MAX_ELEMENT_DEPTH) \<and>
      (?cs = [] \<or> 1 + sum_list (map element_count ?cs) \<le> MAX_ELEMENT_NODES)"
    by (auto simp: within_limits_def tree_size_def MAX_ELEMENT_NODES_def)
  have kids: "validate_children ?ns ?cs 1 0 = Inr (if type_is_error (stanza_type ?h) then 1 else 0) \<longleftrightarrow>
      within_limits ?cs \<and> (if type_is_error (stanza_type ?h)
        then \<exists>payload e. ?cs = payload @ [e] \<and> filter (error_child ?ns) ?cs = [e] else filter (error_child ?ns) ?cs = [])"
    unfolding validate_children_result [OF assms] limits add_0 error_children_iff [symmetric] by (simp only: conj_assoc)
  have count: "validate_children ?ns ?cs 1 0 = Inr k \<Longrightarrow> k = length (filter (error_child ?ns) ?cs)" for k
    using validate_children_result [OF assms] by simp
  have payloads: "(\<forall>iq. stanza_type ?h = IqStanza iq \<longrightarrow> h_id ?h \<noteq> None \<and>
        (let payloads = length ?cs - length ?errors in if iq \<in> {GetIq, SetIq} then payloads = 1 else payloads \<le> 1)) \<longleftrightarrow>
      (\<forall>iq. stanza_type ?h = IqStanza iq \<longrightarrow> h_id ?h \<noteq> None \<and>
        (if iq \<in> {GetIq, SetIq} then length ?cs = 1 else length ?cs \<le> 1 + length ?errors))"
    if "if type_is_error (stanza_type ?h) then \<exists>payload e. ?cs = payload @ [e] \<and> ?errors = [e] else ?errors = []"
  proof (cases "stanza_type ?h")
    case (IqStanza iq)
    with that show ?thesis by (cases iq) (auto simp: type_is_error_def)
  qed simp_all
  have "stanza_validate s = Inr () \<longleftrightarrow> (?ns = Server \<longrightarrow> h_from ?h \<noteq> None \<and> h_to ?h \<noteq> None) \<and>
      validate_children ?ns ?cs 1 0 = Inr (if type_is_error (stanza_type ?h) then 1 else 0) \<and>
      (\<forall>iq. stanza_type ?h = IqStanza iq \<longrightarrow> h_id ?h \<noteq> None \<and>
        (let payloads = length ?cs - length (filter (error_child ?ns) ?cs) in
         if iq \<in> {GetIq, SetIq} then payloads = 1 else payloads \<le> 1))"
  proof (cases "validate_children ?ns ?cs 1 0")
    case (Inr k)
    with count have k: "length (filter (error_child ?ns) ?cs) = k" by simp
    show ?thesis
      unfolding stanza_validate_def Let_def Inr ok_then_simps k
      by (cases "stanza_type ?h") (auto split: IqType.splits if_splits)
  qed (auto simp: stanza_validate_def Let_def)
  also have "\<dots> \<longleftrightarrow> rfc_rules s \<and> within_limits ?cs"
    unfolding kids rfc_rules_def Let_def using payloads [unfolded Let_def] by blast
  finally show ?thesis .
qed

lemma stanza_validate_errors:
  "stanza_validate s = Inl e \<Longrightarrow>
    e \<in> {MissingServerAddresses, TreeLimitExceeded, InvalidErrorPayload, MissingIqId, InvalidIqPayload}"
  by (auto simp: stanza_validate_def Let_def ok_then_Inl_iff dest: validate_children_errors
      split: if_splits StanzaType.splits)

section \<open>Error elements\<close>

lemma decode_chars_ascii: "list_all (\<lambda>b. b < 0x80) bs \<Longrightarrow> decode_chars bs = bs"
  by (induction bs) auto

lemma str_chars_of_ascii: "list_all (\<lambda>c. of_char c < (0x80::nat)) s \<Longrightarrow> str_chars s = map of_char s"
  unfolding str_chars_def by (rule decode_chars_ascii) (simp add: list_all_iff)

definition ascii_text :: "string \<Rightarrow> bool" where
  "ascii_text s \<longleftrightarrow> list_all (\<lambda>c. in_range 0x20 0x7E (of_char c)) s"

definition ascii_name :: "string \<Rightarrow> bool" where
  "ascii_name s \<longleftrightarrow> s \<noteq> [] \<and> in_range 0x61 0x7A (of_char (hd s)) \<and>
     list_all (\<lambda>c. in_range 0x61 0x7A (of_char c) \<or> c = CHR ''-'') s"

lemma ascii_text_valid: "ascii_text s \<Longrightarrow> validate_text s = Inr ()"
proof -
  assume s: "ascii_text s"
  then have "str_chars s = map of_char s"
    by (intro str_chars_of_ascii) (auto simp: ascii_text_def in_range_def list_all_iff)
  with s show ?thesis by (auto simp: validate_text_def ascii_text_def text_char_def in_range_def list_all_iff)
qed

lemma ascii_name_valid:
  assumes "ascii_name name" and "ascii_text namespace" and "namespace \<noteq> XMLNS_NAMESPACE" and "name \<noteq> ''xmlns''"
  shows "validate_name name namespace attribute = Inr ()"
proof -
  obtain c cs where name: "name = c # cs" using assms(1) by (cases name) (simp_all add: ascii_name_def)
  have "str_chars name = map of_char name"
    using assms(1) by (intro str_chars_of_ascii) (auto simp: ascii_name_def in_range_def list_all_iff)
  moreover have "name_start (of_char c)"
    using assms(1) by (simp add: name ascii_name_def name_start_def)
  moreover have "name_char (of_char d)" if "d \<in> set cs" for d
  proof -
    have "in_range 0x61 0x7A (of_char d) \<or> d = CHR ''-''"
      using assms(1) that by (simp add: name ascii_name_def list_all_iff)
    then show ?thesis
    proof
      assume "in_range 0x61 0x7A (of_char d)"
      then show ?thesis by (simp add: name_char_def name_start_def)
    qed (simp add: name_char_def)
  qed
  then have "list_all name_char (map of_char cs)" by (simp add: list_all_iff)
  ultimately show ?thesis
    using assms(3,4) ascii_text_valid [OF assms(2)] by (simp add: validate_name_def name)
qed

lemmas ascii_eval = ascii_name_def ascii_text_def in_range_def

lemma protocol_namespaces [simp]:
  "ascii_text CLIENT_NAMESPACE" "ascii_text SERVER_NAMESPACE" "ascii_text STANZA_ERROR_NAMESPACE" "ascii_text XML_NAMESPACE"
  "CLIENT_NAMESPACE \<noteq> XMLNS_NAMESPACE" "SERVER_NAMESPACE \<noteq> XMLNS_NAMESPACE" "STANZA_ERROR_NAMESPACE \<noteq> XMLNS_NAMESPACE"
  "XML_NAMESPACE \<noteq> XMLNS_NAMESPACE" "[] \<noteq> XMLNS_NAMESPACE"
  by (simp_all add: CLIENT_NAMESPACE_def SERVER_NAMESPACE_def STANZA_ERROR_NAMESPACE_def XML_NAMESPACE_def XMLNS_NAMESPACE_def
      ascii_eval)

lemma namespace_as_str_valid [simp]:
  "ascii_text (namespace_as_str n)" "namespace_as_str n \<noteq> XMLNS_NAMESPACE" "namespace_as_str n \<noteq> XML_NAMESPACE"
  by (cases n; simp add: namespace_as_str_def CLIENT_NAMESPACE_def SERVER_NAMESPACE_def XMLNS_NAMESPACE_def XML_NAMESPACE_def
      ascii_eval)+

lemma condition_name: "ascii_name (condition_as_str c) \<and> condition_as_str c \<noteq> ''xmlns''"
  by (cases c) (simp_all add: condition_as_str_def ascii_eval)

lemma default_text_ascii: "\<exists>s. default_text c = StaticText s \<and> ascii_text s \<and> s \<noteq> []"
  by (cases c) (simp_all add: default_text_def ascii_eval)

lemma error_type_ascii: "ascii_text (error_type c)"
  by (cases c) (simp_all add: error_type_def ascii_eval)

definition error_payload :: "StanzaNamespace \<Rightarrow> StanzaErrorCondition \<Rightarrow> string \<Rightarrow> Element" where
  "error_payload namespace condition content =
     MkElement ''error'' (namespace_as_str namespace) []
       [\<lparr>at_name = ''type'', at_namespace = [], at_value = error_type condition\<rparr>]
       [ElementNode (MkElement (condition_as_str condition) STANZA_ERROR_NAMESPACE [] [] [] 1 1),
        ElementNode (MkElement ''text'' STANZA_ERROR_NAMESPACE []
          [\<lparr>at_name = ''lang'', at_namespace = XML_NAMESPACE, at_value = ''en''\<rparr>] [TextNode content] 1 2)] 2 4"

lemma protocol_names [simp]:
  "ascii_name ''error''" "ascii_name ''text''" "ascii_name ''type''" "ascii_name ''lang''" "ascii_text ''en''" "ascii_text []"
  by (simp_all add: ascii_eval)

lemma error_element:
  assumes "description content = Inr s" and "validate_text s = Inr ()" and "s \<noteq> []"
  shows "error_element_in namespace condition None content = Inr (error_payload namespace condition s)"
proof -
  have "validate_name (condition_as_str condition) STANZA_ERROR_NAMESPACE False = Inr ()"
    using condition_name [of condition] by (intro ascii_name_valid) simp_all
  moreover have "validate_name ''text'' STANZA_ERROR_NAMESPACE False = Inr ()" "validate_name ''lang'' XML_NAMESPACE True = Inr ()"
      "validate_name ''error'' (namespace_as_str namespace) False = Inr ()" "validate_name ''type'' [] True = Inr ()"
    by (rule ascii_name_valid; simp)+
  moreover have "validate_text ''en'' = Inr ()" "validate_text (error_type condition) = Inr ()"
    using error_type_ascii by (simp_all add: ascii_text_valid)
  ultimately show ?thesis
    using assms by (simp add: error_element_in_def element_builder_in_def element_build_def element_attribute_def
        attributes_set_def element_text_def element_child_def transpose_map_def node_size_def error_payload_def
        MAX_ELEMENT_DEPTH_def MAX_ELEMENT_NODES_def Let_def)
qed

lemma default_error_element:
  "\<exists>s. error_element_in namespace condition None (default_text condition) = Inr (error_payload namespace condition s)"
proof -
  obtain s where "default_text condition = StaticText s" "ascii_text s" "s \<noteq> []" using default_text_ascii by blast
  then have "error_element_in namespace condition None (default_text condition) = Inr (error_payload namespace condition s)"
    by (intro error_element) (simp_all add: description_def ascii_text_valid)
  then show ?thesis by blast
qed

lemma error_element_built:
  assumes "error_element_in namespace condition application content = Inr e"
  shows "built e \<and> error_child namespace e"
proof -
  from assms obtain bc defined d bt bt' bt'' t app b b' where
      defined: "element_builder_in (condition_as_str condition) STANZA_ERROR_NAMESPACE = Inr bc" "element_build bc = Inr defined"
      and t: "element_builder_in ''text'' STANZA_ERROR_NAMESPACE = Inr bt" "element_attribute ''lang'' XML_NAMESPACE ''en'' bt = Inr bt'"
        "element_text d bt' = Inr bt''" "element_build bt'' = Inr t"
      and app: "transpose_map (\<lambda>a. ok_then (element_builder_in (app_name a) (app_namespace a)) element_build) application = Inr app"
      and b: "element_builder_in ''error'' (namespace_as_str namespace) = Inr b" "element_attribute ''type'' [] (error_type condition) b = Inr b'"
      and e: "element_build (case app of None \<Rightarrow> element_child t (element_child defined b')
        | Some a \<Rightarrow> element_child a (element_child t (element_child defined b'))) = Inr e"
    unfolding error_element_in_def Let_def by (elim ok_thenE) (rule that, assumption+)
  have "built defined" by (rule build [OF start [OF defined(1)] defined(2)])
  moreover have "built t" by (rule build [OF append_text [OF attribute [OF start [OF t(1)] t(2)] t(3)] t(4)])
  moreover have "\<And>a. app = Some a \<Longrightarrow> built a"
    using app by (auto simp: transpose_map_def split: option.splits intro: build start)
  moreover have "building b'" by (rule attribute [OF start [OF b(1)] b(2)])
  ultimately have "building (case app of None \<Rightarrow> element_child t (element_child defined b')
      | Some a \<Rightarrow> element_child a (element_child t (element_child defined b')))"
    by (auto split: option.splits intro: child_node)
  then have "built e" using e by (rule build)
  moreover have "error_child namespace e"
    using b e by (auto simp: error_child_def element_build_def element_builder_in_def element_attribute_def element_child_def
        split: option.splits)
  ultimately show ?thesis by blast
qed

lemma error_element_ok: "error_element_in namespace condition application content = Inr e \<Longrightarrow> element_ok e"
  using error_element_built built_ok(1) by blast

section \<open>Stanzas made are well formed\<close>

definition text_ok :: "string option \<Rightarrow> bool" where
  "text_ok v \<longleftrightarrow> pred_option (\<lambda>t. validate_text t = Inr ()) v"

definition unreserved :: "Attribute \<Rightarrow> bool" where
  "unreserved a \<longleftrightarrow> \<not> reserved_attribute (at_name a) (at_namespace a)"

text \<open>The parts are valid XML, and a kept message type is one that means the type of the stanza.\<close>

definition parts_ok :: "Stanza \<Rightarrow> bool" where
  "parts_ok s \<longleftrightarrow> attributes_ok (attributes s) \<and> list_all unreserved (attributes s) \<and> list_all element_ok (children s) \<and>
     text_ok (h_id (header s)) \<and> text_ok (h_lang (header s)) \<and> text_ok (original_message_type (header s)) \<and>
     (\<forall>t. original_message_type (header s) = Some t \<longrightarrow> incoming_type MessageKind (Some t) = Some (stanza_type (header s)))"

definition stanza_ok :: "Stanza \<Rightarrow> bool" where
  "stanza_ok s \<longleftrightarrow> parts_ok s \<and> rfc_rules s \<and> within_limits (children s)"

definition frame_ok :: "StanzaFrame \<Rightarrow> bool" where
  "frame_ok f \<longleftrightarrow> attributes_ok (f_attributes f) \<and> list_all unreserved (f_attributes f) \<and> list_all element_ok (f_children f) \<and>
     text_ok (f_id f) \<and> text_ok (f_lang f) \<and> text_ok (raw_type f)"

text \<open>Every way the program makes a stanza: the builder, replies, copies, and the frames of the parser.\<close>

inductive framing :: "StanzaFrame \<Rightarrow> bool" where
  frame_start: "incoming_stanza kind namespace = FrameStanza f \<Longrightarrow> framing f"
| frame_scope: "framing f \<Longrightarrow> set_namespaces ctx (FrameStanza f) = FrameStanza f' \<Longrightarrow> framing f'"
| frame_attr: "framing f \<Longrightarrow> incoming_attribute name namespace v (FrameStanza f) = Inr (FrameStanza f') \<Longrightarrow> framing f'"
| frame_chars: "framing f \<Longrightarrow> incoming_text content (FrameStanza f) = Inr (FrameStanza f') \<Longrightarrow> framing f'"
| frame_child: "framing f \<Longrightarrow> built e \<Longrightarrow> incoming_child e (FrameStanza f) = FrameStanza f' \<Longrightarrow> framing f'"

inductive made :: "Stanza \<Rightarrow> bool" and making :: "StanzaBuilder \<Rightarrow> bool" where
  make_start: "making (stanza_builder_in t namespace)"
| make_derive: "made s \<Longrightarrow> making (stanza_derive_in s)"
| make_reply: "made s \<Longrightarrow> reply_in s = Inr b \<Longrightarrow> making b"
| make_error_reply: "made s \<Longrightarrow> error_reply_described_in s condition application content = Inr b \<Longrightarrow> making b"
| make_copy: "made s \<Longrightarrow> to_builder_in_filtered s keep = Inr b \<Longrightarrow> making b"
| make_type: "making b \<Longrightarrow> making (set_stanza_type t b)"
| make_from: "making b \<Longrightarrow> making (set_from j b)"
| make_to: "making b \<Longrightarrow> making (set_to j b)"
| make_swap: "making b \<Longrightarrow> making (swap_addresses b)"
| make_bare: "making b \<Longrightarrow> making (bare_to b)"
| make_id: "making b \<Longrightarrow> set_id i b = Inr b' \<Longrightarrow> making b'"
| make_lang: "making b \<Longrightarrow> set_lang l b = Inr b' \<Longrightarrow> making b'"
| make_attribute: "making b \<Longrightarrow> stanza_attribute name namespace v b = Inr b' \<Longrightarrow> making b'"
| make_remove_attribute: "making b \<Longrightarrow> stanza_remove_attribute name namespace b = Inr b' \<Longrightarrow> making b'"
| make_clear_attributes: "making b \<Longrightarrow> making (clear_attributes b)"
| make_child: "making b \<Longrightarrow> built e \<Longrightarrow> making (stanza_child e b)"
| make_remove_children: "making b \<Longrightarrow> making (stanza_remove_children name namespace b)"
| make_clear_children: "making b \<Longrightarrow> making (stanza_clear_children b)"
| make_build: "making b \<Longrightarrow> stanza_build b = Inr s \<Longrightarrow> made s"
| make_rescope: "made s \<Longrightarrow> rescope_in s namespace = Inr s' \<Longrightarrow> made s'"
| make_incoming: "framing f \<Longrightarrow> stanza_finish u f = Inr (CompletedStanza s) \<Longrightarrow> made s"
| make_rejection: "framing f \<Longrightarrow> stanza_finish u f = Inr (CompletedRejected r) \<Longrightarrow>
    rejection_error_in r authenticated server = Inr s \<Longrightarrow> made s"

lemma store_text_ok: "store_text v = Inr v' \<Longrightarrow> v' = v \<and> text_ok v"
  by (auto simp: store_text_def transpose_map_def text_ok_def split: option.splits)

lemma text_ok_None [simp]: "text_ok None"
  by (simp add: text_ok_def)

lemma attributes_ok_Nil [simp]: "attributes_ok []"
  by (simp add: attributes_ok_def)

lemma unreserved_set:
  assumes "attributes_set name namespace v as = Inr as'" and "list_all unreserved as" and "\<not> reserved_attribute name namespace"
  shows "list_all unreserved as'"
  using assms by (auto simp: attributes_set_def Let_def list_all_iff unreserved_def split: option.splits
      dest!: set_update_subset_insert [THEN subsetD])

lemma unreserved_remove: "list_all unreserved as \<Longrightarrow> list_all unreserved (attributes_remove name namespace as)"
  by (auto simp: attributes_remove_def list_all_iff dest: in_set_takeD in_set_dropD split: option.splits)

lemma set_xmlns_refused: "attributes_set ''xmlns'' [] v as = Inr as' \<Longrightarrow> False"
  by (auto simp: attributes_set_def validate_name_def split: list.splits if_splits)

lemma framing_ok: "framing f \<Longrightarrow> frame_ok f"
proof (induction rule: framing.induct)
  case (frame_attr f name namespace v f')
  let ?special = "namespace = [] \<and> name \<in> {''from'', ''to'', ''id'', ''type''} \<or> namespace = XML_NAMESPACE \<and> name = ''lang''"
  show ?case
  proof (cases ?special)
    case True
    with frame_attr show ?thesis
      by (auto simp: incoming_attribute_def frame_ok_def XML_NAMESPACE_def dest!: store_text_ok)
  next
    case False
    then have plain: "\<not> (name = ''from'' \<and> namespace = [])" "\<not> (name = ''to'' \<and> namespace = [])" "\<not> (name = ''id'' \<and> namespace = [])"
      "\<not> (name = ''lang'' \<and> namespace = XML_NAMESPACE)" "\<not> (name = ''type'' \<and> namespace = [])"
      by blast+
    have "incoming_attribute name namespace v (FrameStanza f) =
        (if attributes_find name namespace (f_attributes f) \<noteq> None then Inl DuplicateAttribute
         else ok_then (attributes_set name namespace v (f_attributes f)) (\<lambda>as. Inr (FrameStanza (f\<lparr>f_attributes := as\<rparr>))))"
      by (simp only: incoming_attribute_def Frame.case plain if_False)
    with frame_attr(2) obtain as where as: "attributes_set name namespace v (f_attributes f) = Inr as" "f' = f\<lparr>f_attributes := as\<rparr>"
      by (auto split: if_splits)
    moreover have "\<not> reserved_attribute name namespace"
    proof
      assume "reserved_attribute name namespace"
      with False have "name = ''xmlns''" "namespace = []" by (auto simp: reserved_attribute_def)
      with as(1) show False using set_xmlns_refused by blast
    qed
    ultimately show ?thesis
      using frame_attr(3) attributes_set_ok [OF _ as(1)] unreserved_set [OF as(1)] by (simp add: frame_ok_def)
  qed
qed (auto simp: incoming_stanza_def frame_ok_def set_namespaces_def incoming_text_def incoming_child_def dest: built_ok(1))

lemma copy_children_ok: "list_all element_ok cs \<Longrightarrow> copy_children keep cs = Inr (filter keep cs)"
  by (induction cs) (simp_all add: clone_ok)

lemma rescope_children_ok: "list_all element_ok cs \<Longrightarrow> rescope_children old new cs = Inr cs' \<Longrightarrow> list_all element_ok cs'"
  by (induction cs arbitrary: cs') (auto dest: rescope_ok)

lemma to_builder_ok: "parts_ok s \<Longrightarrow> to_builder_in_filtered s keep = Inr (s\<lparr>children := filter keep (children s)\<rparr>)"
  using attributes_append_ok [of "[]" "attributes s"]
  by (simp add: to_builder_in_filtered_def parts_ok_def copy_children_ok)

lemma clone_stanza_ok: "stanza_ok s \<Longrightarrow> stanza_clone_in s = Inr s"
  by (simp add: stanza_clone_in_def to_builder_in_def stanza_ok_def to_builder_ok stanza_build_def stanza_validate_iff parts_ok_def)

lemma stanza_build_ok: "parts_ok b \<Longrightarrow> stanza_build b = Inr s \<Longrightarrow> stanza_ok s"
  by (auto simp: stanza_build_def stanza_ok_def parts_ok_def stanza_validate_iff)

lemma rescope_in_ok:
  assumes "stanza_ok s" and "rescope_in s namespace = Inr s'"
  shows "stanza_ok s'"
proof (cases "namespace = h_namespace (header s)")
  case True
  with assms clone_stanza_ok show ?thesis by (simp add: rescope_in_def)
next
  case False
  have "attributes_append_from (attributes s) [] = Inr (attributes s)"
    using assms(1) attributes_append_ok [of "[]" "attributes s"] by (simp add: stanza_ok_def parts_ok_def)
  with assms(2) False obtain kids where kids: "rescope_children (namespace_as_str (h_namespace (header s))) (namespace_as_str namespace) (children s) = Inr kids"
      and build: "stanza_build \<lparr>header = (header s)\<lparr>h_namespace := namespace\<rparr>,
        namespaces = rescope_context (namespace_as_str (h_namespace (header s))) (namespace_as_str namespace) (namespaces s),
        attributes = attributes s, children = kids\<rparr> = Inr s'"
    by (auto simp: rescope_in_def Let_def)
  have "list_all element_ok kids" using assms(1) rescope_children_ok [OF _ kids] by (simp add: stanza_ok_def parts_ok_def)
  with assms(1) show ?thesis by (intro stanza_build_ok [OF _ build]) (simp add: stanza_ok_def parts_ok_def)
qed

lemma incoming_type_kind: "incoming_type kind v = Some t \<Longrightarrow> type_kind t = kind"
  by (auto simp: incoming_type_def type_kind_def split: StanzaKind.splits if_splits)

text \<open>The builder and the rejection \<open>stanza_finish\<close> chooses between.\<close>

definition assembled :: "UnicodeData \<Rightarrow> StanzaFrame \<Rightarrow> StanzaBuilder" where
  "assembled u f =
     \<lparr>header =
        \<lparr>stanza_type = (case incoming_type (f_kind f) (raw_type f) of None \<Rightarrow> default_type (f_kind f) | Some t \<Rightarrow> t),
         original_message_type = (if f_kind f = MessageKind then raw_type f else None),
         h_namespace = f_namespace f, h_from = fst (incoming_address u (f_from f)), h_to = fst (incoming_address u (f_to f)),
         h_id = f_id f, h_lang = f_lang f\<rparr>,
      namespaces = f_namespaces f, attributes = f_attributes f, children = f_children f\<rparr>"

definition replyable :: "StanzaFrame \<Rightarrow> bool" where
  "replyable f \<longleftrightarrow> raw_type f \<noteq> Some ''error'' \<and> \<not> (f_kind f = IqKind \<and> raw_type f = Some ''result'')"

definition rejected :: "UnicodeData \<Rightarrow> StanzaFrame \<Rightarrow> StanzaRejection \<Rightarrow> RejectedStanza" where
  "rejected u f reason =
     \<lparr>r_kind = f_kind f, r_namespace = f_namespace f, r_reason = reason, r_can_reply = replyable f,
      r_invalid_from = snd (incoming_address u (f_from f)), r_invalid_to = snd (incoming_address u (f_to f)),
      r_envelope = \<lparr>env_from = fst (incoming_address u (f_from f)), env_to = fst (incoming_address u (f_to f)),
        env_id = f_id f, env_lang = f_lang f\<rparr>\<rparr>"

lemma stanza_finish_eq:
  "stanza_finish u f =
     (if stanza_validate (assembled u f) = Inl TreeLimitExceeded then Inl TreeLimitExceeded
      else if stanza_validate (assembled u f) \<noteq> Inr () \<or> invalid_text f \<or> incoming_type (f_kind f) (raw_type f) = None
      then Inr (CompletedRejected (rejected u f RejectBadRequest))
      else if snd (incoming_address u (f_from f)) \<or> snd (incoming_address u (f_to f))
      then Inr (CompletedRejected (rejected u f RejectJidMalformed))
      else Inr (CompletedStanza (assembled u f)))"
proof -
  have eq: "stanza_finish u f =
     ok_then
       (case stanza_validate (assembled u f) of
          Inr _ \<Rightarrow> Inr (invalid_text f \<or> incoming_type (f_kind f) (raw_type f) = None)
        | Inl e \<Rightarrow> if e \<in> {MissingIqId, InvalidIqPayload, InvalidErrorPayload, MissingServerAddresses} then Inr True else Inl e)
       (\<lambda>bad. if bad then Inr (CompletedRejected (rejected u f RejectBadRequest))
         else if snd (incoming_address u (f_from f)) \<or> snd (incoming_address u (f_to f))
         then Inr (CompletedRejected (rejected u f RejectJidMalformed)) else Inr (CompletedStanza (assembled u f)))"
    unfolding stanza_finish_def assembled_def rejected_def replyable_def Let_def case_prod_unfold ..
  show ?thesis
  proof (cases "stanza_validate (assembled u f)")
    case (Inl e)
    with stanza_validate_errors [OF Inl] show ?thesis unfolding eq by auto
  next
    case (Inr x)
    then show ?thesis unfolding eq by simp
  qed
qed

lemma assembled_parts:
  assumes "frame_ok f" and "incoming_type (f_kind f) (raw_type f) \<noteq> None"
  shows "parts_ok (assembled u f)"
  using assms by (auto simp: assembled_def parts_ok_def frame_ok_def)

lemma finish_builder:
  assumes "frame_ok f" and "stanza_finish u f = Inr (CompletedStanza s)"
  shows "s = assembled u f \<and> stanza_ok s"
  using assms assembled_parts [OF assms(1), of u] stanza_build_ok [of s s]
  by (auto simp: stanza_finish_eq stanza_build_def split: if_splits)

definition error_type_of :: "StanzaKind \<Rightarrow> StanzaType" where
  "error_type_of kind = (case kind of MessageKind \<Rightarrow> MessageStanza ErrorMessage
     | PresenceKind \<Rightarrow> PresenceStanza ErrorPresence | IqKind \<Rightarrow> IqStanza ErrorIq)"

lemma error_type_of_error: "type_is_error (error_type_of kind) \<and> type_kind (error_type_of kind) = kind"
  by (cases kind) (simp_all add: error_type_of_def type_is_error_def type_kind_def)

lemma error_payload_sizes:
  assumes "built (error_payload namespace condition s)"
  shows "element_height (error_payload namespace condition s) = 2" and "element_count (error_payload namespace condition s) = 4"
  using element_ok_size [OF built_ok(1) [OF assms]] by (simp_all add: error_payload_def)

definition answer_to :: "RejectedStanza \<Rightarrow> Jid \<Rightarrow> Jid \<Rightarrow> Element \<Rightarrow> Stanza" where
  "answer_to r authenticated server error =
     \<lparr>header =
        \<lparr>stanza_type = error_type_of (r_kind r), original_message_type = None, h_namespace = r_namespace r,
         h_from = (if r_invalid_to r then Some server else env_to (r_envelope r)), h_to = Some authenticated,
         h_id = (if env_id (r_envelope r) = None \<and> r_kind r = IqKind then Some [] else env_id (r_envelope r)),
         h_lang = env_lang (r_envelope r)\<rparr>,
      namespaces = [], attributes = [], children = [error]\<rparr>"

lemma rejection_answer:
  assumes "r_can_reply r"
  shows "\<exists>error. built error \<and> error_child (r_namespace r) error \<and> element_height error = 2 \<and> element_count error = 4 \<and>
    rejection_error_in r authenticated server = stanza_build (answer_to r authenticated server error)"
proof -
  let ?c = "case r_reason r of RejectBadRequest \<Rightarrow> BadRequest | RejectJidMalformed \<Rightarrow> JidMalformed"
  obtain s where e: "error_element_in (r_namespace r) ?c None (default_text ?c) = Inr (error_payload (r_namespace r) ?c s)"
    using default_error_element by blast
  then have "rejection_error_in r authenticated server = stanza_build (answer_to r authenticated server (error_payload (r_namespace r) ?c s))"
    using assms by (simp add: rejection_error_in_def answer_to_def error_type_of_def stanza_child_def Let_def)
  moreover note error_element_built [OF e]
  ultimately show ?thesis using error_payload_sizes by blast
qed

lemma answer_parts:
  assumes "text_ok (env_id (r_envelope r))" and "text_ok (env_lang (r_envelope r))" and "built error"
  shows "parts_ok (answer_to r authenticated server error)"
  using assms ascii_text_valid [of "[]"] by (simp add: answer_to_def parts_ok_def built_ok(1) text_ok_def)

lemma rejected_texts:
  assumes "frame_ok f" and "stanza_finish u f = Inr (CompletedRejected r)"
  shows "(\<exists>reason. r = rejected u f reason) \<and> text_ok (env_id (r_envelope r)) \<and> text_ok (env_lang (r_envelope r))"
  using assms by (auto simp: stanza_finish_eq frame_ok_def rejected_def split: if_splits)

lemma rejection_parts:
  assumes "frame_ok f" and "stanza_finish u f = Inr (CompletedRejected r)" and s: "rejection_error_in r authenticated server = Inr s"
  shows "stanza_ok s"
proof -
  have "r_can_reply r" using s by (simp add: rejection_error_in_def Let_def split: if_splits)
  then obtain error where "built error" "stanza_build (answer_to r authenticated server error) = Inr s"
    using rejection_answer [of r authenticated server] s by metis
  with rejected_texts [OF assms(1,2)] show ?thesis using answer_parts stanza_build_ok by metis
qed

lemma made_ok: "made s \<Longrightarrow> stanza_ok s" "making b \<Longrightarrow> parts_ok b"
proof (induction rule: made_making.inducts)
  case (make_copy s keep b)
  then show ?case by (auto simp: to_builder_ok stanza_ok_def parts_ok_def list_all_iff)
next
  case (make_error_reply s condition application content b)
  then show ?case
    by (auto simp: error_reply_described_in_def stanza_ok_def parts_ok_def stanza_child_def Let_def dest: error_element_ok)
next
  case (make_build b s)
  then show ?case by (blast intro: stanza_build_ok)
next
  case (make_rescope s namespace s')
  then show ?case by (blast intro: rescope_in_ok)
next
  case (make_incoming f u s)
  then show ?case using finish_builder framing_ok by blast
next
  case (make_rejection f u r authenticated server s)
  then show ?case by (blast intro: rejection_parts framing_ok)
next
  case (make_attribute b name namespace v b')
  then show ?case
    using attributes_set_ok [of "attributes b"] unreserved_set [of name namespace v "attributes b"]
    by (auto simp: stanza_attribute_def parts_ok_def split: if_splits)
next
  case (make_remove_attribute b name namespace b')
  then show ?case
    by (auto simp: stanza_remove_attribute_def parts_ok_def attributes_remove_ok unreserved_remove split: if_splits)
qed (auto simp: stanza_builder_in_def stanza_derive_in_def stanza_ok_def reply_in_def parts_ok_def set_stanza_type_def set_from_def
    set_to_def swap_addresses_def bare_to_def set_id_def set_lang_def clear_attributes_def stanza_child_def
    stanza_remove_children_def stanza_clear_children_def Let_def list_all_iff
    dest: store_text_ok built_ok(1) split: if_splits)

lemma stanza_validate_tree:
  assumes "list_all element_ok (children s)" and "stanza_validate s = Inl TreeLimitExceeded"
  shows "\<not> within_limits (children s)"
proof -
  have "validate_children (h_namespace (header s)) (children s) 1 0 = Inl TreeLimitExceeded"
    using assms(2) by (auto simp: stanza_validate_def Let_def ok_then_Inl_iff split: if_splits StanzaType.splits)
  from validate_children_tree [OF assms(1) this] show ?thesis by (auto simp: within_limits_def tree_size_def not_less not_le)
qed

lemma validate_children_placed:
  "filter (error_child namespace) (butlast cs) = [] \<Longrightarrow> validate_children namespace cs nodes n \<noteq> Inl InvalidErrorPayload"
  by (induction namespace cs nodes n rule: validate_children.induct) (auto simp: Let_def error_child_def split: if_splits)

lemma stanza_validate_rules:
  assumes ok: "list_all element_ok (children s)" and rules: "rfc_rules s"
  shows "stanza_validate s = (if within_limits (children s) then Inr () else Inl TreeLimitExceeded)"
proof (cases "within_limits (children s)")
  case True
  with assms show ?thesis by (simp add: stanza_validate_iff)
next
  case False
  let ?h = "header s"
  have "filter (error_child (h_namespace ?h)) (butlast (children s)) = []"
    using rules error_children_iff [of "error_child (h_namespace ?h)" "children s" "type_is_error (stanza_type ?h)"]
    by (auto simp: rfc_rules_def Let_def)
  from validate_children_placed [OF this]
  have "validate_children (h_namespace ?h) (children s) 1 0 \<noteq> Inl InvalidErrorPayload" .
  moreover have "validate_children (h_namespace ?h) (children s) 1 0 \<noteq> Inr k" for k
    using False unfolding validate_children_result [OF ok] by (auto simp: within_limits_def tree_size_def MAX_ELEMENT_NODES_def)
  ultimately have "validate_children (h_namespace ?h) (children s) 1 0 = Inl TreeLimitExceeded"
    by (metis validate_children_errors sum.exhaust)
  with False rules show ?thesis by (auto simp: stanza_validate_def rfc_rules_def Let_def)
qed

lemma error_reply_type_eq:
  "error_reply_type t = (if type_is_error t \<or> t = IqStanza ResultIq then Inl InvalidErrorSource else Inr (error_type_of (type_kind t)))"
  by (simp add: error_reply_type_def type_is_error_def error_type_of_def type_kind_def split: StanzaType.split IqType.split)

lemma error_reply_rules:
  assumes rules: "rfc_rules s" and type: "\<not> type_is_error (stanza_type (header s))" "stanza_type (header s) \<noteq> IqStanza ResultIq"
    and e: "error_child (h_namespace (header s)) e"
    and b: "children b = children s @ [e]" "header b = (header s)\<lparr>stanza_type := error_type_of (type_kind (stanza_type (header s))),
        original_message_type := None, h_from := h_to (header s), h_to := h_from (header s)\<rparr>"
  shows "rfc_rules b"
proof -
  have none: "filter (error_child (h_namespace (header s))) (children s) = []"
    using rules type(1) by (simp add: rfc_rules_def Let_def)
  have kids: "h_id (header s) \<noteq> None \<and> length (children s) = 1" if "error_type_of (type_kind (stanza_type (header s))) = IqStanza iq" for iq
  proof (cases "stanza_type (header s)")
    case (IqStanza k)
    with type have "k \<in> {GetIq, SetIq}" by (cases k) (simp_all add: type_is_error_def)
    with IqStanza rules show ?thesis by (auto simp: rfc_rules_def Let_def)
  qed (use that in \<open>simp_all add: error_type_of_def type_kind_def\<close>)
  show ?thesis
    using rules none e kids error_type_of_error [of "type_kind (stanza_type (header s))"]
    by (auto simp: rfc_rules_def Let_def b type_is_error_def)
qed

lemma answer_rules:
  assumes "error_child (r_namespace r) error" and "r_namespace r = Server \<longrightarrow> r_invalid_to r \<or> env_to (r_envelope r) \<noteq> None"
  shows "rfc_rules (answer_to r authenticated server error)"
  using assms error_type_of_error [of "r_kind r"]
  by (auto simp: rfc_rules_def answer_to_def Let_def type_kind_def type_is_error_def)

lemma incoming_address_None: "fst (incoming_address u v) = None \<longleftrightarrow> v = None \<or> snd (incoming_address u v)"
  by (auto simp: incoming_address_def split: option.splits sum.splits)

lemma rejected_answered:
  assumes ok: "frame_ok f" and r: "stanza_finish u f = Inr (CompletedRejected r)"
  shows "if \<not> replyable f then rejection_error_in r authenticated server = Inl InvalidErrorSource
      else if f_namespace f = Server \<and> f_to f = None then rejection_error_in r authenticated server = Inl MissingServerAddresses
      else \<exists>s. rejection_error_in r authenticated server = Inr s \<and> stanza_ok s \<and> h_to (header s) = Some authenticated \<and>
        stanza_type (header s) = error_type_of (f_kind f) \<and> h_namespace (header s) = f_namespace f"
proof -
  obtain reason where r_eq: "r = rejected u f reason" and texts: "text_ok (env_id (r_envelope r))" "text_ok (env_lang (r_envelope r))"
    using rejected_texts [OF ok r] by blast
  have fields: "r_can_reply r = replyable f" "r_namespace r = f_namespace f" "r_kind r = f_kind f"
      "r_invalid_to r = snd (incoming_address u (f_to f))" "env_to (r_envelope r) = fst (incoming_address u (f_to f))"
    by (simp_all add: r_eq rejected_def)
  show ?thesis
  proof (cases "replyable f")
    case False
    with fields(1) show ?thesis by (simp add: rejection_error_in_def Let_def)
  next
    case True
    with fields(1) have "r_can_reply r" by simp
    from rejection_answer [OF this] obtain error where e: "built error" "error_child (r_namespace r) error"
        "element_height error = 2" "element_count error = 4"
        and build: "rejection_error_in r authenticated server = stanza_build (answer_to r authenticated server error)"
      by blast
    let ?s = "answer_to r authenticated server error"
    have parts: "parts_ok ?s" by (rule answer_parts [OF texts e(1)])
    show ?thesis
    proof (cases "f_namespace f = Server \<and> f_to f = None")
      case missing: True
      then have "h_namespace (header ?s) = Server" "h_from (header ?s) = None"
        by (simp_all add: answer_to_def fields incoming_address_def)
      then have "rejection_error_in r authenticated server = Inl MissingServerAddresses"
        unfolding build stanza_build_def by (simp add: stanza_validate_def)
      with missing show ?thesis using True by (simp only: simp_thms if_True if_False)
    next
      case False
      then have "rfc_rules ?s" using incoming_address_None [of u "f_to f"] by (intro answer_rules [OF e(2)]) (auto simp: fields)
      moreover have "within_limits (children ?s)"
        using e(3,4) by (simp add: answer_to_def within_limits_def tree_size_def MAX_ELEMENT_DEPTH_def MAX_ELEMENT_NODES_def)
      ultimately have "stanza_build ?s = Inr ?s" "stanza_ok ?s"
        using parts by (simp_all add: stanza_build_def stanza_validate_iff stanza_ok_def parts_ok_def)
      moreover have "h_to (header ?s) = Some authenticated" "stanza_type (header ?s) = error_type_of (f_kind f)"
          "h_namespace (header ?s) = f_namespace f"
        by (simp_all add: answer_to_def fields)
      ultimately show ?thesis using True False build by auto
    qed
  qed
qed

definition sample_iq :: Stanza where
  "sample_iq = \<lparr>header = \<lparr>stanza_type = IqStanza GetIq, original_message_type = None, h_namespace = Client, h_from = None,
     h_to = None, h_id = Some ''t'', h_lang = None\<rparr>, namespaces = [], attributes = [], children = [sample_element]\<rparr>"

lemma sample_iq_made: "made sample_iq"
proof -
  have "making (stanza_child sample_element ((stanza_builder_in (IqStanza GetIq) Client)\<lparr>header :=
      (header (stanza_builder_in (IqStanza GetIq) Client))\<lparr>h_id := Some ''t''\<rparr>\<rparr>))"
    using make_id [OF make_start [of "IqStanza GetIq" Client], of "Some ''t''"] ascii_text_valid [of "''t''"]
    by (intro make_child [OF _ sample_element_built]) (simp add: set_id_def store_text_def transpose_map_def ascii_eval)
  from make_build [OF this] show ?thesis
    by (simp add: stanza_build_def stanza_validate_def stanza_child_def stanza_builder_in_def sample_iq_def sample_element_def
        MAX_ELEMENT_DEPTH_def MAX_ELEMENT_NODES_def type_is_error_def)
qed

definition sample_frame :: StanzaFrame where
  "sample_frame = \<lparr>f_kind = IqKind, f_namespace = Client, raw_type = None, f_from = None, f_to = None, f_id = None, f_lang = None,
     invalid_text = False, f_namespaces = [], f_attributes = [], f_children = []\<rparr>"

definition sample_jid :: Jid where
  "sample_jid = \<lparr>jid_text = ''a@x'', text_len = 3, jid_localpart_end = Some 1, jid_resourcepart_start = None\<rparr>"

lemma sample_framing: "framing sample_frame"
  by (rule frame_start [of IqKind Client]) (simp add: incoming_stanza_def sample_frame_def)

section \<open>Properties\<close>

text \<open>
  C10. Every stanza the program can make, by the builder, by a reply or an error reply, by copying or rescoping another one, or
  from the frames of the parser, keeps the rules of RFC 6120: a server stanza has both addresses, an error stanza has exactly one
  error child and it is the last, no other stanza has one, an IQ has an id and the right number of payloads. Its
  texts, attributes and children are valid XML, no extension attribute has a reserved name, and the tree is within the limits.
\<close>

theorem stanzas_well_formed:
  assumes "made s"
  shows "rfc_rules s \<and> parts_ok s \<and> within_limits (children s)"
  using made_ok(1) [OF assms] by (simp add: stanza_ok_def)

theorem stanzas_well_formed_witness:
  "rfc_rules sample_iq \<and> parts_ok sample_iq \<and> within_limits (children sample_iq)"
  by (rule stanzas_well_formed [OF sample_iq_made])





end
