(* ===== verification/Extension.thy ===== *)
theory Extension
  imports Stanza Roster_State
begin

text \<open>
  What the server and its extensions exchange (\<open>lonewolf-extension/src/\<close> \<open>delivery.rs\<close>, \<open>presence.rs\<close>,
  \<open>lib.rs\<close>, \<open>iq.rs\<close>): requests, handler errors, and the effects a handler returns.

  A handler's \<open>deliver\<close> closure calls the operations of the \<open>Delivery\<close> trait one after the other and stops at
  the first that fails, or where building a stanza fails. It is modelled by the list of those calls:
  \<open>Inr\<close> a call, \<open>Inl\<close> a build failure in its place. \<open>run_steps\<close> runs such a list against
  any implementation \<open>act\<close> of the trait over a state of its own. The arena a stanza is built in is abstracted away, as in \<open>Xml_Tree\<close>.
  Requests keep the fields the modelled handlers read.
\<close>

section \<open>Definitions\<close>

subsection \<open>Sessions and hosts\<close>

datatype SessionTag = Interested | Carbons

definition tag_bit :: "SessionTag \<Rightarrow> byte" where
  "tag_bit t = push_bit (case t of Interested \<Rightarrow> 0 | Carbons \<Rightarrow> 1) 1"

type_synonym SessionTags = byte

definition tags_insert :: "SessionTag \<Rightarrow> SessionTags \<Rightarrow> SessionTags" where
  "tags_insert t tags = or tags (tag_bit t)"

definition tags_remove :: "SessionTag \<Rightarrow> SessionTags \<Rightarrow> SessionTags" where
  "tags_remove t tags = and tags (not (tag_bit t))"

definition tags_contains :: "SessionTags \<Rightarrow> SessionTag \<Rightarrow> bool" where
  "tags_contains tags t \<longleftrightarrow> and tags (tag_bit t) \<noteq> 0"

record HostLookup =
  is_local_host :: "string \<Rightarrow> bool"
  federates :: "string \<Rightarrow> bool"

subsection \<open>Errors\<close>

datatype DeliveryError = DeliveryError

datatype FailureKind = StorageFailure StorageErrorKind | DeliveryFailure

record Failure =
  failure_kind :: FailureKind
  failure_operation :: string

datatype HandlerError =
    StanzaFailed StanzaErrorCondition
  | Described StanzaErrorCondition StanzaErrorText
  | Internal StanzaErrorCondition Failure

definition handler_condition :: "HandlerError \<Rightarrow> StanzaErrorCondition" where
  "handler_condition e = (case e of StanzaFailed c \<Rightarrow> c | Described c _ \<Rightarrow> c | Internal c _ \<Rightarrow> c)"

definition handler_text :: "HandlerError \<Rightarrow> StanzaErrorText" where
  "handler_text e = (case e of Described _ t \<Rightarrow> t | _ \<Rightarrow> default_text (handler_condition e))"

definition handler_failure :: "HandlerError \<Rightarrow> Failure option" where
  "handler_failure e = (case e of Internal _ f \<Rightarrow> Some f | _ \<Rightarrow> None)"

subsection \<open>Effects\<close>

text \<open>What a roster push tells the resource: an item as it now is, or its removal.\<close>

datatype Push = ItemPush RosterItem RosterVersion | RemovalPush RosterJid RosterVersion

datatype Call =
    TagSession SessionTag
  | ToAvailable Stanza
  | ToTagged SessionTag Stanza
  | ToRemote Stanza
  | PushToTagged AccountKey SessionTag Push
  | RetireTagged AccountKey SessionTag
  | CurrentPresence AccountKey AccountKey
  | UnavailablePresence AccountKey AccountKey

type_synonym Steps = "(DeliveryError, Call) result list"

fun run_steps :: "(Call \<Rightarrow> 'd \<Rightarrow> (DeliveryError, unit) result \<times> 'd) \<Rightarrow> Steps \<Rightarrow> 'd \<Rightarrow> (DeliveryError, unit) result \<times> 'd" where
  "run_steps act [] d = (Inr (), d)"
| "run_steps act (Inl e # rest) d = (Inl e, d)"
| "run_steps act (Inr c # rest) d =
     (case act c d of
        (Inl e, d) \<Rightarrow> (Inl e, d)
      | (Inr _, d) \<Rightarrow> run_steps act rest d)"

text \<open>
  Some closures go on after a failed delivery: they remember the first failure and report it at the end (the retirements of
  the roster extension and the notices of an account deletion). A closure is a list of rounds, each of which stops at its first failure.
\<close>

type_synonym Deliver = "Steps list"

fun run_deliver :: "(Call \<Rightarrow> 'd \<Rightarrow> (DeliveryError, unit) result \<times> 'd) \<Rightarrow> Deliver \<Rightarrow> 'd \<Rightarrow> (DeliveryError, unit) result \<times> 'd" where
  "run_deliver act [] d = (Inr (), d)"
| "run_deliver act (steps # rest) d =
     (let (outcome, d) = run_steps act steps d;
          (others, d) = run_deliver act rest d
      in (case outcome of Inl e \<Rightarrow> Inl e | Inr _ \<Rightarrow> others, d))"

record Effects =
  ef_accounts :: "AccountKey list"
  deliver :: Deliver

definition effects_new :: "AccountKey list \<Rightarrow> Deliver \<Rightarrow> Effects" where
  "effects_new accounts rounds = \<lparr>ef_accounts = accounts, deliver = rounds\<rparr>"

definition effects_none :: Effects where
  "effects_none = effects_new [] []"

subsection \<open>Requests\<close>

datatype PresenceRequestType =
    AvailableRequest | UnavailableRequest | SubscribeRequest | SubscribedRequest | UnsubscribeRequest
  | UnsubscribedRequest | ProbeRequest

definition from_subscription_stanza :: "PresenceType \<Rightarrow> PresenceRequestType option" where
  "from_subscription_stanza t =
     (case t of
        Subscribe \<Rightarrow> Some SubscribeRequest
      | Subscribed \<Rightarrow> Some SubscribedRequest
      | Unsubscribe \<Rightarrow> Some UnsubscribeRequest
      | Unsubscribed \<Rightarrow> Some UnsubscribedRequest
      | _ \<Rightarrow> None)"

datatype PresenceTransition = InitialPresence | UpdatePresence | UnavailableTransition

record PresenceUpdate =
  update_sender :: JidRef
  transition :: PresenceTransition

record PresenceRequest =
  request_kind :: PresenceRequestType
  request_sender :: JidRef
  request_target :: JidRef
  request_stanza :: Stanza

record PresenceAudience =
  audience_subscribers :: "RosterJid list"
  audience_pending :: "PendingSubscription list"
  audience_contacts :: "AccountKey list"
  audience_probes :: "RosterJid list"

datatype PresenceSend = Continue | Handled Effects

record IqRequest =
  iq_sender :: JidRef
  iq_target :: JidRef
  iq_payload :: Element

record IqReply =
  reply_payload :: "Element option"
  reply_effects :: Effects
  reply_results :: "Stanza list"

definition iq_reply_new :: "Element option \<Rightarrow> Effects \<Rightarrow> IqReply" where
  "iq_reply_new payload effects = \<lparr>reply_payload = payload, reply_effects = effects, reply_results = []\<rparr>"

datatype IqErrorPayload = IncludePayload | OmitPayload

record IqError =
  iq_handler_error :: HandlerError
  iq_error_payload :: IqErrorPayload

definition iq_error :: "HandlerError \<Rightarrow> IqError" where
  "iq_error e = \<lparr>iq_handler_error = e, iq_error_payload = IncludePayload\<rparr>"

definition iq_error_without_payload :: "HandlerError \<Rightarrow> IqError" where
  "iq_error_without_payload e = \<lparr>iq_handler_error = e, iq_error_payload = OmitPayload\<rparr>"

end
