(* ===== verification/Roster_Xml.thy ===== *)
theory Roster_Xml
  imports Extension
begin

text \<open>
  The XML of the roster extension (\<open>lonewolf-extension/src/roster/\<close> \<open>xml.rs\<close> and \<open>versioning.rs\<close>): parsing
  of roster queries, and the items, pushes and presence stanzas it builds.
\<close>

section \<open>Definitions\<close>

definition ROSTER_NAMESPACE :: string where
  "ROSTER_NAMESPACE = ''jabber:iq:roster''"

record RosterItemUpdate =
  up_jid :: RosterJid
  up_name :: "string option"
  up_groups :: "string list"

datatype RosterSet = RosterUpdate RosterItemUpdate | RosterRemove RosterJid

subsection \<open>Parsing\<close>

definition is_item :: "Element \<Rightarrow> bool" where
  "is_item e \<longleftrightarrow> el_name e = ''item'' \<and> el_namespace e = ROSTER_NAMESPACE"

definition parse_get :: "Element \<Rightarrow> (StanzaErrorCondition, string option) result" where
  "parse_get payload =
     (if list_ex is_item (child_elements (el_children payload)) then Inl BadRequest
      else Inr (ref_attribute payload ''ver'' []))"

fun sole_item :: "Element list \<Rightarrow> Element option \<Rightarrow> (StanzaErrorCondition, Element option) result" where
  "sole_item [] item = Inr item"
| "sole_item (c # rest) item =
     (if is_item c then (if item \<noteq> None then Inl BadRequest else sole_item rest (Some c)) else sole_item rest item)"

fun parse_groups :: "Element list \<Rightarrow> string list \<Rightarrow> (StanzaErrorCondition, string list) result" where
  "parse_groups [] groups = Inr groups"
| "parse_groups (c # rest) groups =
     (if el_name c \<noteq> ''group'' \<or> el_namespace c \<noteq> ROSTER_NAMESPACE then parse_groups rest groups
      else (case ref_text_of c of
          None \<Rightarrow> Inl NotAcceptable
        | Some g \<Rightarrow>
            if g = [] then Inl NotAcceptable
            else if g \<in> set groups then Inl BadRequest
            else parse_groups rest (groups @ [g])))"

definition parse_set :: "UnicodeData \<Rightarrow> Element \<Rightarrow> (StanzaErrorCondition, RosterSet) result" where
  "parse_set u payload =
     ok_then (sole_item (child_elements (el_children payload)) None) (\<lambda>item.
     ok_then (ok_or BadRequest item) (\<lambda>item.
     ok_then (ok_or BadRequest (ref_attribute item ''jid'' [])) (\<lambda>jid.
     ok_then (map_err (\<lambda>_. BadRequest) (parse_in u jid)) (\<lambda>jid.
       if is_full (resolve jid) then Inl BadRequest
       else
         (let jid = ref_text (resolve jid) in
          if ref_attribute item ''subscription'' [] = Some ''remove'' then Inr (RosterRemove jid)
          else
            (let name = (case ref_attribute item ''name'' [] of Some n \<Rightarrow> if n = [] then None else Some n | None \<Rightarrow> None) in
             ok_then (parse_groups (child_elements (el_children item)) []) (\<lambda>groups.
               Inr (RosterUpdate \<lparr>up_jid = jid, up_name = name, up_groups = groups\<rparr>))))))))"

subsection \<open>Building\<close>

definition subscription_name :: "SubscriptionState \<Rightarrow> string" where
  "subscription_name st = (case st of SubNone \<Rightarrow> ''none'' | To \<Rightarrow> ''to'' | From \<Rightarrow> ''from'' | Both \<Rightarrow> ''both'')"

fun build_groups :: "string list \<Rightarrow> (BuildError, Element list) result" where
  "build_groups [] = Inr []"
| "build_groups (g # gs) =
     ok_then (ok_then (element_builder_in ''group'' ROSTER_NAMESPACE) (\<lambda>b. ok_then (Xml_Tree.element_text g b) element_build)) (\<lambda>e.
     ok_then (build_groups gs) (\<lambda>es. Inr (e # es)))"

definition build_item :: "RosterItem \<Rightarrow> (BuildError, Element) result" where
  "build_item item =
     ok_then (build_groups (item_groups item)) (\<lambda>groups.
     ok_then (element_builder_in ''item'' ROSTER_NAMESPACE) (\<lambda>b.
     ok_then (element_attribute ''jid'' [] (item_jid item) b) (\<lambda>b.
     ok_then (case item_name item of Some name \<Rightarrow> element_attribute ''name'' [] name b | None \<Rightarrow> Inr b) (\<lambda>b.
     ok_then (element_attribute ''subscription'' [] (subscription_name (state (subscription item))) b) (\<lambda>b.
     ok_then (if pending_out (subscription item) then element_attribute ''ask'' [] ''subscribe'' b else Inr b) (\<lambda>b.
     ok_then (if approved (subscription item) then element_attribute ''approved'' [] ''true'' b else Inr b) (\<lambda>b.
       element_build (fold element_child groups b))))))))"

fun build_items :: "RosterItem list \<Rightarrow> (StanzaErrorCondition, Element list) result" where
  "build_items [] = Inr []"
| "build_items (i # is) =
     ok_then (map_err (\<lambda>_. ResourceConstraint) (build_item i)) (\<lambda>e. ok_then (build_items is) (\<lambda>es. Inr (e # es)))"

definition build_response :: "RosterItem list \<Rightarrow> RosterVersion option \<Rightarrow> (StanzaErrorCondition, Element) result" where
  "build_response items ver =
     ok_then (build_items items) (\<lambda>built.
     ok_then (map_err (\<lambda>_. ResourceConstraint) (element_builder_in ''query'' ROSTER_NAMESPACE)) (\<lambda>query.
     ok_then (case ver of
         Some v \<Rightarrow> map_err (\<lambda>_. ResourceConstraint) (element_attribute ''ver'' [] (decimal v) query)
       | None \<Rightarrow> Inr query) (\<lambda>query.
       map_err (\<lambda>_. ResourceConstraint) (element_build (fold element_child built query)))))"

definition build_push :: "Jid \<Rightarrow> Element \<Rightarrow> RosterVersion \<Rightarrow> (DeliveryError, Stanza) result" where
  "build_push to item v =
     map_err (\<lambda>_. DeliveryError)
       (ok_then (element_builder_in ''query'' ROSTER_NAMESPACE) (\<lambda>query.
        ok_then (element_attribute ''ver'' [] (decimal v) query) (\<lambda>query.
        ok_then (element_build (element_child item query)) (\<lambda>query.
        ok_then (set_id (Some (''roster-'' @ decimal v)) (stanza_builder_in (IqStanza SetIq) Client)) (\<lambda>b.
          stanza_build (stanza_child query (set_to (Some to) b)))))))"

definition build_removed_item :: "RosterJid \<Rightarrow> (BuildError, Element) result" where
  "build_removed_item contact =
     ok_then (element_builder_in ''item'' ROSTER_NAMESPACE) (\<lambda>b.
     ok_then (element_attribute ''jid'' [] contact b) (\<lambda>b.
     ok_then (element_attribute ''subscription'' [] ''remove'' b) element_build))"

text \<open>The stanza factory of a roster push: one push per tagged resource, addressed to it.\<close>

definition push_stanza :: "Push \<Rightarrow> Jid \<Rightarrow> (DeliveryError, Stanza) result" where
  "push_stanza push to =
     (case push of
        ItemPush item v \<Rightarrow> ok_then (map_err (\<lambda>_. DeliveryError) (build_item item)) (\<lambda>e. build_push to e v)
      | RemovalPush contact v \<Rightarrow>
          ok_then (map_err (\<lambda>_. DeliveryError) (build_removed_item contact)) (\<lambda>e. build_push to e v))"

definition addressed_presence :: "PresenceType \<Rightarrow> Jid \<Rightarrow> Jid \<Rightarrow> (DeliveryError, Stanza) result" where
  "addressed_presence t src dst =
     map_err (\<lambda>_. DeliveryError)
       (stanza_build (set_to (Some dst) (set_from (Some src) (stanza_builder_in (PresenceStanza t) Client))))"

definition subscription_withdrawals :: "UnicodeData \<Rightarrow> AccountKey \<Rightarrow> AccountKey \<Rightarrow> (DeliveryError, Stanza \<times> Stanza) result" where
  "subscription_withdrawals u owner contact =
     ok_then (map_err (\<lambda>_. DeliveryError) (parse_in u (key_text owner))) (\<lambda>sender.
     ok_then (map_err (\<lambda>_. DeliveryError) (parse_in u (key_text contact))) (\<lambda>target.
     ok_then (addressed_presence Unsubscribe sender target) (\<lambda>withdrawal.
     ok_then (addressed_presence Unsubscribed sender target) (\<lambda>cancellation. Inr (withdrawal, cancellation)))))"

definition approval_reply :: "Stanza \<Rightarrow> (DeliveryError, Stanza) result" where
  "approval_reply request =
     (let h = header request in
      ok_then (ok_or DeliveryError (h_to h)) (\<lambda>sender.
      ok_then (ok_or DeliveryError (h_from h)) (\<lambda>target.
      ok_then (map_err (\<lambda>_. DeliveryError) (set_id (h_id h) (stanza_builder_in (PresenceStanza Subscribed) Client))) (\<lambda>b.
      ok_then (map_err (\<lambda>_. DeliveryError) (set_lang (h_lang h) b)) (\<lambda>b.
        map_err (\<lambda>_. DeliveryError) (stanza_build (set_to (Some target) (set_from (Some sender) b))))))))"

subsection \<open>Versions\<close>

datatype Answer = FullRoster bool | UnchangedRoster

definition version_answer :: "string option \<Rightarrow> RosterSnapshot \<Rightarrow> Answer" where
  "version_answer known snapshot =
     (case known of
        None \<Rightarrow> FullRoster False
      | Some v \<Rightarrow> if parse_usize v = Some (snapshot_version snapshot) then UnchangedRoster else FullRoster True)"

end
