(* ===== verification/Roster_Handlers.thy ===== *)
theory Roster_Handlers
  imports Roster_Xml
begin

text \<open>
  The handlers of the roster extension (\<open>lonewolf-extension/src/roster/\<close> \<open>mod.rs\<close> and
  \<open>subscription.rs\<close>), except the account cleanup: roster queries, presence visibility, and the subscription presences a local
  account sends and receives. A handler that writes is generic in the write transaction, as in the source; one
  that reads takes the tables of a redb snapshot. It returns its effects and the transaction, or an error, on which the caller
  drops the transaction.
\<close>

section \<open>Definitions\<close>

subsection \<open>Errors\<close>

definition storage_error :: "StorageErrorKind \<Rightarrow> string \<Rightarrow> HandlerError" where
  "storage_error kind operation =
     Internal InternalServerError \<lparr>failure_kind = StorageFailure kind, failure_operation = operation\<rparr>"

definition roster_error :: "string \<Rightarrow> RosterError \<Rightarrow> HandlerError" where
  "roster_error operation e =
     (case e of
        ValueTooLarge \<Rightarrow> Described NotAcceptable
          (StaticText ''A roster value is too large. Shorten the contact name or group names.'')
      | PendingLimitExceeded \<Rightarrow> Described ResourceConstraint
          (StaticText ''The recipient's pending subscription request limit has been reached. Retry after the recipient handles pending requests.'')
      | QuotaExceeded \<Rightarrow> Described ResourceConstraint
          (StaticText ''The roster exceeds its contact count, stored byte, or group limit. Remove contacts or reduce contact and group data.'')
      | NoAccount \<Rightarrow> StanzaFailed Forbidden
      | RosterStorage kind \<Rightarrow> storage_error kind operation)"

definition roster_quota_error :: "string \<Rightarrow> RosterQuota \<Rightarrow> RosterError \<Rightarrow> HandlerError" where
  "roster_quota_error operation quota e =
     (case e of
        QuotaExceeded \<Rightarrow> Described ResourceConstraint
          (TwoLimits (''The roster exceeds its quota of '', '' contacts or '',
             '' stored bytes. Remove contacts or reduce contact and group data.'') (max_items quota, max_bytes quota))
      | _ \<Rightarrow> roster_error operation e)"

definition account_error :: "string \<Rightarrow> AccountError \<Rightarrow> HandlerError" where
  "account_error operation e =
     (case e of AccountStorage kind \<Rightarrow> storage_error kind operation | _ \<Rightarrow> StanzaFailed InternalServerError)"

subsection \<open>Accounts\<close>

definition account_known :: "(AccountKey \<Rightarrow> (AccountError, Account option) result) \<Rightarrow> AccountKey \<Rightarrow> string \<Rightarrow> (HandlerError, bool) result" where
  "account_known read account operation =
     ok_then (map_err (account_error operation) (read account)) (\<lambda>a. Inr (a \<noteq> None))"

definition require_account :: "'w WriteTransaction \<Rightarrow> 'w \<Rightarrow> AccountKey \<Rightarrow> (HandlerError, unit) result" where
  "require_account W tx account =
     ok_then (account_known (tx_account W tx) account ''roster_write'') (\<lambda>known. if known then Inr () else Inl (StanzaFailed Forbidden))"

definition local_candidate :: "RosterJid \<Rightarrow> HostLookup \<Rightarrow> AccountKey option" where
  "local_candidate jid hosts =
     (case account_key_of_roster_jid jid of
        Inr account \<Rightarrow> if is_local_host hosts (domain account) then Some account else None
      | Inl _ \<Rightarrow> None)"

definition stored_local_account :: "(AccountKey \<Rightarrow> (AccountError, Account option) result) \<Rightarrow> RosterJid \<Rightarrow> HostLookup
    \<Rightarrow> (HandlerError, AccountKey option) result" where
  "stored_local_account read jid hosts =
     (case local_candidate jid hosts of
        Some candidate \<Rightarrow> ok_then (account_known read candidate ''roster_write'') (\<lambda>known. Inr (if known then Some candidate else None))
      | None \<Rightarrow> Inr None)"

definition federated_contact :: "AccountKey \<Rightarrow> RosterJid \<Rightarrow> HostLookup \<Rightarrow> AccountKey option" where
  "federated_contact owner jid hosts =
     (if \<not> federates hosts (domain owner) then None
      else (case split_once (CHR ''@'') jid of
          None \<Rightarrow> None
        | Some (_, host) \<Rightarrow>
            if is_local_host hosts host then None
            else (case account_key_of_roster_jid jid of Inr account \<Rightarrow> Some account | Inl _ \<Rightarrow> None)))"

definition owner_of :: "IqRequest \<Rightarrow> (StanzaErrorCondition, AccountKey) result" where
  "owner_of request =
     (if ref_text (iq_target request) \<noteq> ref_text (bare (iq_sender request)) then Inl Forbidden
      else map_err (\<lambda>_. InternalServerError) (account_key_of_jid (bare (iq_sender request))))"

subsection \<open>Deliveries\<close>

definition step :: "('a \<Rightarrow> Call) \<Rightarrow> (DeliveryError, 'a) result \<Rightarrow> (DeliveryError, Call) result" where
  "step f r = (case r of Inl e \<Rightarrow> Inl e | Inr a \<Rightarrow> Inr (f a))"

definition push_roster :: "AccountKey \<Rightarrow> RosterItem RosterMutation \<Rightarrow> Steps" where
  "push_roster owner m = [Inr (PushToTagged owner Interested (ItemPush (mutated m) (version m)))]"

definition push_removal :: "AccountKey \<Rightarrow> RosterJid \<Rightarrow> RosterVersion \<Rightarrow> Steps" where
  "push_removal owner contact v = [Inr (PushToTagged owner Interested (RemovalPush contact v))]"

definition push_change :: "AccountKey \<Rightarrow> ItemChange \<Rightarrow> Steps" where
  "push_change owner change =
     (case change of PushItem m \<Rightarrow> push_roster owner m | ItemUnavailable v \<Rightarrow> [Inr (RetireTagged owner Interested)])"

definition push_mutation :: "AccountKey \<Rightarrow> ItemMutation \<Rightarrow> Steps" where
  "push_mutation owner m = (case m of None \<Rightarrow> [] | Some change \<Rightarrow> push_change owner change)"

definition only_if :: "bool \<Rightarrow> Steps \<Rightarrow> Steps" where
  "only_if c steps = (if c then steps else [])"

text \<open>An item too large to push is withheld, and its account's interested sessions are retired at the end.\<close>

definition retire_extract :: "AccountKey \<Rightarrow> ItemMutation \<Rightarrow> AccountKey list \<Rightarrow> ItemMutation \<times> AccountKey list" where
  "retire_extract owner change accounts =
     (case change of
        Some (ItemUnavailable _) \<Rightarrow> (None, if owner \<in> set accounts then accounts else accounts @ [owner])
      | _ \<Rightarrow> (change, accounts))"

definition retirements_finish :: "Steps \<Rightarrow> AccountKey list \<Rightarrow> Deliver" where
  "retirements_finish steps accounts = steps # map (\<lambda>a. [Inr (RetireTagged a Interested)]) accounts"

subsection \<open>Sending\<close>

definition revoke_approval :: "RosterSubscription \<Rightarrow> RosterSubscription option" where
  "revoke_approval s = (if \<not> approved s then None else Some (s\<lparr>approved := False\<rparr>))"

definition outbound_presence :: "UnicodeData \<Rightarrow> AccountKey \<Rightarrow> Stanza \<Rightarrow> (DeliveryError, Stanza) result" where
  "outbound_presence u owner source =
     ok_then (map_err (\<lambda>_. DeliveryError) (parse_in u (key_text owner))) (\<lambda>j.
     ok_then (map_err (\<lambda>_. DeliveryError) (stanza_clone_in source)) (\<lambda>copy.
       map_err (\<lambda>_. DeliveryError) (stanza_build (bare_to (set_from (Some j) (stanza_derive_in copy))))))"

definition remote_mutation :: "'w WriteTransaction \<Rightarrow> Roster \<Rightarrow> PresenceRequestType \<Rightarrow> bool \<Rightarrow> AccountKey \<Rightarrow> RosterJid \<Rightarrow> 'w
    \<Rightarrow> (RosterError, ItemMutation \<times> 'w) result" where
  "remote_mutation W ro kind granting owner jid tx =
     (case kind of
        SubscribeRequest \<Rightarrow> update_subscription W ro owner jid set_pending_out tx
      | UnsubscribeRequest \<Rightarrow> update_existing_subscription W ro owner jid withdraw_outbound tx
      | SubscribedRequest \<Rightarrow>
          if granting then resolve_pending W ro owner jid grant_approved tx
          else update_subscription W ro owner jid pre_approve tx
      | _ \<Rightarrow> ok_then (cancel_subscription W ro owner jid None tx) (\<lambda>(out, tx). Inr (cancel_grantor out, tx)))"

definition send_remote_subscription :: "'w WriteTransaction \<Rightarrow> UnicodeData \<Rightarrow> Roster \<Rightarrow> PresenceRequest \<Rightarrow> 'w
    \<Rightarrow> (HandlerError, PresenceSend \<times> 'w) result" where
  "send_remote_subscription W u ro request tx =
     ok_then (map_err (\<lambda>_. StanzaFailed InternalServerError) (account_key_of_jid (bare (request_sender request)))) (\<lambda>owner.
     ok_then (map_err (\<lambda>_. StanzaFailed ServiceUnavailable) (account_key_of_jid (bare (request_target request)))) (\<lambda>contact.
     (let jid = key_text contact in
     ok_then (require_account W tx owner) (\<lambda>_.
     ok_then (map_err (roster_error ''roster_read'') (tx_subscription W tx owner jid)) (\<lambda>current.
     ok_then (map_err (roster_error ''roster_read'') (tx_pending_exists W tx owner jid)) (\<lambda>pending.
       (let granted = grants (state (case current of None \<Rightarrow> default_subscription | Some s \<Rightarrow> s));
            kind = request_kind request
        in if kind \<notin> {SubscribeRequest, SubscribedRequest, UnsubscribeRequest, UnsubscribedRequest} then Inr (Continue, tx)
           else
             (let route = (case kind of SubscribedRequest \<Rightarrow> pending \<and> \<not> granted | UnsubscribedRequest \<Rightarrow> pending \<or> granted | _ \<Rightarrow> True);
                  granting = (kind = SubscribedRequest \<and> route);
                  revoke = (kind = UnsubscribedRequest \<and> granted)
              in ok_then (map_err (roster_error ''roster_write'') (remote_mutation W ro kind granting owner jid tx)) (\<lambda>(mutation, tx).
                   (let (mutation, retired) = retire_extract owner mutation [];
                        steps = only_if route [step ToRemote (outbound_presence u owner (request_stanza request))] @
                          push_mutation owner mutation @
                          only_if granting [Inr (CurrentPresence owner contact)] @
                          only_if revoke [Inr (UnavailablePresence owner contact)]
                    in Inr (Handled (effects_new [owner] (retirements_finish steps retired)), tx)))))))))))"

definition send_subscription :: "'w WriteTransaction \<Rightarrow> UnicodeData \<Rightarrow> Roster \<Rightarrow> HostLookup \<Rightarrow> PresenceRequest \<Rightarrow> 'w
    \<Rightarrow> (HandlerError, PresenceSend \<times> 'w) result" where
  "send_subscription W u ro hosts request tx =
     (let target = request_target request; kind = request_kind request in
      if federates hosts (domainpart (request_sender request)) \<and> \<not> is_local_host hosts (domainpart target)
      then send_remote_subscription W u ro request tx
      else if kind \<notin> {SubscribedRequest, UnsubscribedRequest} \<or> localpart target = None \<or> resourcepart target \<noteq> None
      then Inr (Continue, tx)
      else
        ok_then (map_err (\<lambda>_. StanzaFailed InternalServerError) (account_key_of_jid (bare (request_sender request)))) (\<lambda>owner.
        (let contact = ref_text target in
        ok_then (require_account W tx owner) (\<lambda>_.
        ok_then (map_err (roster_error ''roster_read'') (tx_subscription W tx owner contact)) (\<lambda>item.
        ok_then (map_err (roster_error ''roster_read'') (tx_pending_exists W tx owner contact)) (\<lambda>pending.
          (let granted = some_and (\<lambda>s. grants (state s)) item;
               handled = (\<lambda>(mutation, tx).
                 (let (mutation, retired) = retire_extract owner mutation [] in
                  Inr (Handled (effects_new [owner] (retirements_finish (push_mutation owner mutation) retired)), tx)))
           in if kind = SubscribedRequest \<and> granted then handled (None, tx)
              else if kind = SubscribedRequest \<and> \<not> pending then
                ok_then (map_err (roster_error ''roster_write'') (update_subscription W ro owner contact pre_approve tx)) handled
              else if kind = UnsubscribedRequest \<and> \<not> granted \<and> \<not> pending then
                ok_then (map_err (roster_error ''roster_write'') (update_existing_subscription W ro owner contact revoke_approval tx)) handled
              else Inr (Continue, tx))))))))"

subsection \<open>Receiving from a local account\<close>

record Parties =
  p_sender :: AccountKey
  p_target :: AccountKey
  p_sender_jid :: RosterJid
  p_target_jid :: RosterJid

definition parties_new :: "PresenceRequest \<Rightarrow> (StanzaErrorCondition, Parties) result" where
  "parties_new request =
     (let src = bare (request_sender request); dst = bare (request_target request) in
      ok_then (map_err (\<lambda>_. InternalServerError) (account_key_of_jid src)) (\<lambda>sender_key.
      ok_then (map_err (\<lambda>_. ServiceUnavailable) (account_key_of_jid dst)) (\<lambda>target_key.
        Inr \<lparr>p_sender = sender_key, p_target = target_key, p_sender_jid = ref_text src, p_target_jid = ref_text dst\<rparr>)))"

definition parties_accounts :: "Parties \<Rightarrow> AccountKey list" where
  "parties_accounts p = [p_sender p, p_target p]"

definition check_parties :: "'w WriteTransaction \<Rightarrow> 'w \<Rightarrow> Parties \<Rightarrow> (HandlerError, bool) result" where
  "check_parties W tx p =
     ok_then (require_account W tx (p_sender p)) (\<lambda>_. account_known (tx_account W tx) (p_target p) ''roster_write'')"

definition request_error :: "nat \<Rightarrow> RosterError \<Rightarrow> HandlerError" where
  "request_error limit e =
     (case e of
        PendingLimitExceeded \<Rightarrow> Described ResourceConstraint
          (Limit ''The recipient's pending subscription request limit of '' limit
             '' has been reached. Retry after the recipient handles pending requests.'')
      | _ \<Rightarrow> roster_error ''roster_write'' e)"

definition request_effects :: "Parties \<Rightarrow> Stanza \<Rightarrow> RequestOutcome \<Rightarrow> Deliver" where
  "request_effects p s outcome =
     (let src = p_sender p; dst = p_target p in
      case outcome of
        PendingRequest push \<Rightarrow>
          (let (push, retired) = retire_extract src push []
           in retirements_finish (Inr (ToAvailable s) # push_mutation src push) retired)
      | AutoApproved change \<Rightarrow>
          (let (push, retired) = retire_extract src change []
           in retirements_finish (only_if (change \<noteq> None)
                (step (ToTagged Interested) (approval_reply s) # push_mutation src push @ [Inr (CurrentPresence dst src)])) retired)
      | PreApproved grantor requester \<Rightarrow>
          (let (grantor, retired) = retire_extract dst grantor []; (requester, retired) = retire_extract src requester retired
           in retirements_finish (push_mutation dst grantor @ [step (ToTagged Interested) (approval_reply s)] @
                push_mutation src requester @ [Inr (CurrentPresence dst src)]) retired)
      | ContactMissing \<Rightarrow> retirements_finish [] [])"

definition handle_request :: "'w WriteTransaction \<Rightarrow> Roster \<Rightarrow> Parties \<Rightarrow> Stanza \<Rightarrow> nat \<Rightarrow> 'w
    \<Rightarrow> (HandlerError, Effects \<times> 'w) result" where
  "handle_request W ro p s limit tx =
     ok_then (check_parties W tx p) (\<lambda>known.
       if \<not> known then Inl (StanzaFailed ServiceUnavailable)
       else
         ok_then (map_err (request_error limit) (request_subscription W ro (p_sender p) (p_sender_jid p) (p_target p) (p_target_jid p)
           (as_bytes (stanza_write_xml s)) limit tx)) (\<lambda>(outcome, tx).
           if outcome = ContactMissing then Inl (StanzaFailed ServiceUnavailable)
           else Inr (effects_new (parties_accounts p) (request_effects p s outcome), tx)))"

definition approve_effects :: "Parties \<Rightarrow> Stanza \<Rightarrow> ItemMutation \<Rightarrow> ItemMutation \<Rightarrow> ItemMutation \<Rightarrow> Deliver" where
  "approve_effects p s on_target on_sender pre_approval =
     (let src = p_sender p; dst = p_target p;
          (target_push, retired) = retire_extract dst on_target [];
          (sender_push, retired) = retire_extract src on_sender retired;
          (pre_push, retired) = retire_extract src pre_approval retired
      in retirements_finish
           (only_if (on_target \<noteq> None) [Inr (ToTagged Interested s)] @ push_mutation dst target_push @ push_mutation src sender_push @
            only_if (on_sender \<noteq> None) [Inr (CurrentPresence src dst)] @ push_mutation src pre_push) retired)"

definition handle_approve :: "'w WriteTransaction \<Rightarrow> Roster \<Rightarrow> Parties \<Rightarrow> Stanza \<Rightarrow> 'w \<Rightarrow> (HandlerError, Effects \<times> 'w) result" where
  "handle_approve W ro p s tx =
     ok_then (check_parties W tx p) (\<lambda>known.
       if \<not> known then Inr (effects_none, tx)
       else
         ok_then (map_err (roster_error ''roster_write'') (update_subscription W ro (p_target p) (p_sender_jid p) approve_pending_out tx)) (\<lambda>(on_target, tx).
         ok_then (map_err (roster_error ''roster_write'') (resolve_pending W ro (p_sender p) (p_target_jid p) grant tx)) (\<lambda>(on_sender, tx).
         ok_then (if on_sender \<noteq> None then Inr (None, tx)
                  else map_err (roster_error ''roster_write'') (update_subscription W ro (p_sender p) (p_target_jid p) pre_approve tx)) (\<lambda>(pre_approval, tx).
           Inr (effects_new (parties_accounts p) (approve_effects p s on_target on_sender pre_approval), tx)))))"

definition cancel_effects :: "Parties \<Rightarrow> Stanza \<Rightarrow> Cancellation \<Rightarrow> Deliver" where
  "cancel_effects p s out =
     (let src = p_sender p; dst = p_target p;
          (subscriber, retired) = retire_extract dst (cancel_subscriber out) [];
          (grantor, retired) = retire_extract src (cancel_grantor out) retired
      in retirements_finish
           (only_if (cancel_unavailable out) [Inr (UnavailablePresence src dst)] @
            only_if (cancel_route out) [Inr (ToTagged Interested s)] @ push_mutation dst subscriber @ push_mutation src grantor) retired)"

definition handle_cancel :: "'w WriteTransaction \<Rightarrow> Roster \<Rightarrow> Parties \<Rightarrow> Stanza \<Rightarrow> 'w \<Rightarrow> (HandlerError, Effects \<times> 'w) result" where
  "handle_cancel W ro p s tx =
     ok_then (check_parties W tx p) (\<lambda>known.
     ok_then (map_err (roster_error ''roster_write'') (cancel_subscription W ro (p_sender p) (p_target_jid p)
         (if known then Some (p_target p, p_sender_jid p) else None) tx)) (\<lambda>(out, tx).
       Inr (effects_new (parties_accounts p) (cancel_effects p s out), tx)))"

definition withdraw_effects :: "Parties \<Rightarrow> Stanza \<Rightarrow> Withdrawal \<Rightarrow> Deliver" where
  "withdraw_effects p s out =
     (let src = p_sender p; dst = p_target p;
          (contact, retired) = retire_extract dst (withdraw_contact out) [];
          (subscriber, retired) = retire_extract src (withdraw_subscriber out) retired
      in retirements_finish
           (only_if (notify_contact out) [Inr (ToTagged Interested s)] @ push_mutation dst contact @ push_mutation src subscriber @
            only_if (withdraw_unavailable out) [Inr (UnavailablePresence dst src)]) retired)"

definition handle_withdraw :: "'w WriteTransaction \<Rightarrow> Roster \<Rightarrow> Parties \<Rightarrow> Stanza \<Rightarrow> 'w \<Rightarrow> (HandlerError, Effects \<times> 'w) result" where
  "handle_withdraw W ro p s tx =
     ok_then (check_parties W tx p) (\<lambda>known.
     ok_then (map_err (roster_error ''roster_write'') (unsubscribe W ro (p_sender p) (p_target_jid p)
         (if known then Some (p_target p, p_sender_jid p) else None) tx)) (\<lambda>(out, tx).
       Inr (effects_new (parties_accounts p) (withdraw_effects p s out), tx)))"

subsection \<open>Receiving from a remote account\<close>

record RemoteOutcome =
  out_deliver :: bool
  out_approve :: bool
  out_cancel :: bool
  out_current :: bool
  out_unavailable :: bool
  out_mutation :: ItemMutation

definition quiet_outcome :: RemoteOutcome where
  "quiet_outcome = \<lparr>out_deliver = False, out_approve = False, out_cancel = False, out_current = False, out_unavailable = False,
     out_mutation = None\<rparr>"

definition revoke_grant :: "RosterSubscription \<Rightarrow> RosterSubscription option" where
  "revoke_grant s = Some (s\<lparr>state := without_from (state s)\<rparr>)"

definition apply_remote :: "'w WriteTransaction \<Rightarrow> Roster \<Rightarrow> PresenceRequestType \<Rightarrow> AccountKey \<Rightarrow> RosterJid \<Rightarrow> RosterSubscription
    \<Rightarrow> Stanza \<Rightarrow> 'w \<Rightarrow> (HandlerError, RemoteOutcome \<times> 'w) result" where
  "apply_remote W ro kind owner contact current s tx =
     (let granted = grants (state current) in
      case kind of
        SubscribeRequest \<Rightarrow>
          if granted then Inr (quiet_outcome\<lparr>out_approve := True\<rparr>, tx)
          else if approved current then
            ok_then (map_err (roster_error ''roster_write'') (update_existing_subscription W ro owner contact grant_approved tx)) (\<lambda>(m, tx).
              Inr (quiet_outcome\<lparr>out_approve := True, out_current := True, out_mutation := m\<rparr>, tx))
          else
            ok_then (map_err (roster_error ''roster_write'') (tx_pending_exists W tx owner contact)) (\<lambda>exists.
              if exists then Inr (quiet_outcome, tx)
              else
                ok_then (map_err (roster_error ''roster_write'') (tx_put_pending W owner
                    \<lparr>sender = contact, stanza = as_bytes (stanza_write_xml s)\<rparr>
                    (max_pending_subscription_requests (limits_of ro (domain owner))) tx)) (\<lambda>(_, tx).
                  Inr (quiet_outcome\<lparr>out_deliver := True\<rparr>, tx)))
      | SubscribedRequest \<Rightarrow>
          ok_then (map_err (roster_error ''roster_write'') (update_existing_subscription W ro owner contact approve_pending_out tx)) (\<lambda>(m, tx).
            Inr (quiet_outcome\<lparr>out_deliver := (m \<noteq> None), out_mutation := m\<rparr>, tx))
      | UnsubscribeRequest \<Rightarrow>
          ok_then (map_err (roster_error ''roster_write'') (tx_remove_pending W owner contact tx)) (\<lambda>(removed, tx).
          ok_then (if granted
              then map_err (roster_error ''roster_write'') (update_existing_subscription W ro owner contact revoke_grant tx)
              else Inr (None, tx)) (\<lambda>(m, tx).
            Inr (quiet_outcome\<lparr>out_deliver := (removed \<or> granted), out_cancel := (removed \<or> granted), out_unavailable := granted,
              out_mutation := m\<rparr>, tx)))
      | UnsubscribedRequest \<Rightarrow>
          ok_then (map_err (roster_error ''roster_write'') (update_existing_subscription W ro owner contact withdraw_outbound tx)) (\<lambda>(m, tx).
            Inr (quiet_outcome\<lparr>out_deliver := (m \<noteq> None), out_mutation := m\<rparr>, tx))
      | _ \<Rightarrow> Inl (StanzaFailed ServiceUnavailable))"

definition remote_effects :: "UnicodeData \<Rightarrow> PresenceRequestType \<Rightarrow> AccountKey \<Rightarrow> RosterJid \<Rightarrow> Stanza \<Rightarrow> RemoteOutcome \<Rightarrow> Deliver" where
  "remote_effects u kind owner contact s out =
     [only_if (\<not> out_approve out \<and> out_deliver out)
        [Inr (if kind = SubscribeRequest then ToAvailable s else ToTagged Interested s)] @
      push_mutation owner (out_mutation out) @
      only_if (out_approve out) [step ToRemote (approval_reply s)] @
      only_if (out_cancel out \<or> out_current out \<or> out_unavailable out)
        (case account_key_of_roster_jid contact of
           Inl _ \<Rightarrow> [Inl DeliveryError]
         | Inr account \<Rightarrow>
             only_if (out_cancel out) [step (ToRemote \<circ> snd) (subscription_withdrawals u owner account)] @
             only_if (out_current out) [Inr (CurrentPresence owner account)] @
             only_if (out_unavailable out) [Inr (UnavailablePresence owner account)])]"

definition receive_remote :: "'w WriteTransaction \<Rightarrow> UnicodeData \<Rightarrow> Roster \<Rightarrow> PresenceRequest \<Rightarrow> 'w
    \<Rightarrow> (HandlerError, Effects \<times> 'w) result" where
  "receive_remote W u ro request tx =
     (if localpart (bare (request_sender request)) = None then Inr (effects_none, tx)
      else
        ok_then (map_err (\<lambda>_. StanzaFailed ServiceUnavailable) (account_key_of_jid (request_target request))) (\<lambda>owner.
        ok_then (account_known (tx_account W tx) owner ''roster_write'') (\<lambda>known.
          if \<not> known then Inr (effects_none, tx)
          else
            (let contact = ref_text (bare (request_sender request)) in
             ok_then (map_err (roster_error ''roster_read'') (tx_subscription W tx owner contact)) (\<lambda>current.
             ok_then (apply_remote W ro (request_kind request) owner contact
                 (case current of None \<Rightarrow> default_subscription | Some c \<Rightarrow> c) (request_stanza request) tx) (\<lambda>(out, tx).
               Inr (effects_new [owner] (remote_effects u (request_kind request) owner contact (request_stanza request) out), tx)))))))"

definition roster_receive :: "'w WriteTransaction \<Rightarrow> UnicodeData \<Rightarrow> Roster \<Rightarrow> HostLookup \<Rightarrow> PresenceRequest \<Rightarrow> 'w
    \<Rightarrow> (HandlerError, Effects \<times> 'w) result" where
  "roster_receive W u ro hosts request tx =
     (let kind = request_kind request; s = request_stanza request in
      if federates hosts (domainpart (request_target request)) \<and> \<not> is_local_host hosts (domainpart (request_sender request)) \<and>
         kind \<in> {SubscribeRequest, SubscribedRequest, UnsubscribeRequest, UnsubscribedRequest}
      then receive_remote W u ro request tx
      else
        ok_then (map_err StanzaFailed (parties_new request)) (\<lambda>p.
          (case kind of
             SubscribeRequest \<Rightarrow>
               handle_request W ro p s (max_pending_subscription_requests (limits_of ro (domainpart (request_target request)))) tx
           | SubscribedRequest \<Rightarrow> handle_approve W ro p s tx
           | UnsubscribedRequest \<Rightarrow> handle_cancel W ro p s tx
           | UnsubscribeRequest \<Rightarrow> handle_withdraw W ro p s tx
           | _ \<Rightarrow> Inl (StanzaFailed ServiceUnavailable))))"

subsection \<open>Removing an item\<close>

definition notify_removed_contact :: "UnicodeData \<Rightarrow> AccountKey \<Rightarrow> AccountKey \<Rightarrow> Removal \<Rightarrow> Steps \<times> bool" where
  "notify_removed_contact u owner contact removal =
     (let owner_granted = grants (state (removal_subscription removal));
          contact_granted = grants (state (case contact_before removal of None \<Rightarrow> default_subscription | Some s \<Rightarrow> s));
          cancel = (owner_granted \<or> removal_pending removal)
      in (only_if owner_granted [Inr (UnavailablePresence owner contact)] @
          only_if (contact_granted \<or> cancel)
            (case subscription_withdrawals u owner contact of
               Inl e \<Rightarrow> [Inl e]
             | Inr (withdrawal, cancellation) \<Rightarrow>
                 only_if contact_granted [Inr (ToTagged Interested withdrawal)] @
                 only_if cancel [Inr (ToTagged Interested cancellation)]) @
          push_mutation contact (removal_contact removal), contact_granted))"

definition notify_removed_remote_contact :: "UnicodeData \<Rightarrow> AccountKey \<Rightarrow> AccountKey \<Rightarrow> RosterSubscription \<Rightarrow> bool \<Rightarrow> Steps" where
  "notify_removed_remote_contact u owner contact s pending =
     (let withdraw = (state s = To \<or> state s = Both \<or> pending_out s); cancel = (grants (state s) \<or> pending) in
      only_if (grants (state s)) [Inr (UnavailablePresence owner contact)] @
      only_if (withdraw \<or> cancel)
        (case subscription_withdrawals u owner contact of
           Inl e \<Rightarrow> [Inl e]
         | Inr (withdrawal, cancellation) \<Rightarrow>
             only_if withdraw [Inr (ToRemote withdrawal)] @ only_if cancel [Inr (ToRemote cancellation)]))"

definition removal_effects :: "UnicodeData \<Rightarrow> AccountKey \<Rightarrow> RosterJid \<Rightarrow> AccountKey option \<Rightarrow> AccountKey option \<Rightarrow> Removal \<Rightarrow> Deliver" where
  "removal_effects u owner contact contact_account remote removal =
     (let (removal, retired) = (case contact_account of
            Some account \<Rightarrow> (let (push, retired) = retire_extract account (removal_contact removal) [] in (removal\<lparr>removal_contact := push\<rparr>, retired))
          | None \<Rightarrow> (removal, []));
          steps =
            (case remote of None \<Rightarrow> []
             | Some r \<Rightarrow> notify_removed_remote_contact u owner r (removal_subscription removal) (removal_pending removal)) @
            push_removal owner contact (removal_version removal) @
            (case contact_account of None \<Rightarrow> []
             | Some account \<Rightarrow>
                 (let (notices, granted) = notify_removed_contact u owner account removal in
                  notices @ only_if granted [Inr (UnavailablePresence account owner)]))
      in retirements_finish steps retired)"

definition remove_item :: "'w WriteTransaction \<Rightarrow> UnicodeData \<Rightarrow> Roster \<Rightarrow> HostLookup \<Rightarrow> AccountKey \<Rightarrow> RosterJid \<Rightarrow> RosterJid \<Rightarrow> 'w
    \<Rightarrow> (HandlerError, Effects \<times> 'w) result" where
  "remove_item W u ro hosts owner contact owner_jid tx =
     ok_then (require_account W tx owner) (\<lambda>_.
     ok_then (stored_local_account (tx_account W tx) contact hosts) (\<lambda>contact_account.
     ok_then (map_err (roster_error ''roster_write'') (state_remove_item W ro owner owner_jid contact contact_account tx)) (\<lambda>(removal, tx).
     ok_then (ok_or (StanzaFailed ItemNotFound) removal) (\<lambda>removal.
       Inr (effects_new (owner # (case contact_account of None \<Rightarrow> [] | Some a \<Rightarrow> [a]))
         (removal_effects u owner contact contact_account (federated_contact owner contact hosts) removal), tx)))))"

subsection \<open>Roster queries\<close>

definition tag_interested :: "AccountKey \<Rightarrow> Effects" where
  "tag_interested owner = effects_new [owner] [[Inr (TagSession Interested)]]"

definition roster_get :: "UnicodeData \<Rightarrow> Roster \<Rightarrow> IqRequest \<Rightarrow> Tables \<Rightarrow> (IqError, IqReply) result" where
  "roster_get u ro request t =
     map_err iq_error
       (ok_then (map_err StanzaFailed (owner_of request)) (\<lambda>owner.
        ok_then (map_err StanzaFailed (parse_get (iq_payload request))) (\<lambda>known.
          if (case known of None \<Rightarrow> False | Some v \<Rightarrow> parse_usize v = Some (roster_version t owner))
          then Inr (iq_reply_new None (tag_interested owner))
          else
            ok_then (map_err (roster_quota_error ''roster_read'' (quota_of ro owner)) (roster u t owner (quota_of ro owner))) (\<lambda>snapshot.
            ok_then (case version_answer known snapshot of
                FullRoster stamped \<Rightarrow>
                  ok_then (map_err StanzaFailed (build_response (snapshot_items snapshot)
                    (if stamped then Some (snapshot_version snapshot) else None))) (\<lambda>e. Inr (Some e))
              | UnchangedRoster \<Rightarrow> Inr None) (\<lambda>payload.
              Inr (iq_reply_new payload (tag_interested owner)))))))"

definition roster_set :: "'w WriteTransaction \<Rightarrow> UnicodeData \<Rightarrow> Roster \<Rightarrow> HostLookup \<Rightarrow> IqRequest \<Rightarrow> 'w
    \<Rightarrow> (IqError, IqReply \<times> 'w) result" where
  "roster_set W u ro hosts request tx =
     map_err iq_error
       (ok_then (map_err StanzaFailed (owner_of request)) (\<lambda>owner.
        ok_then (map_err StanzaFailed (parse_set u (iq_payload request))) (\<lambda>parsed.
          (case parsed of
             RosterUpdate update \<Rightarrow>
               ok_then (require_account W tx owner) (\<lambda>_.
               ok_then (map_err (roster_error ''roster_write'') (tx_subscription W tx owner (up_jid update))) (\<lambda>current.
                 (let item = \<lparr>item_jid = up_jid update, item_name = up_name update, item_groups = up_groups update,
                        subscription = (case current of None \<Rightarrow> default_subscription | Some s \<Rightarrow> s)\<rparr>;
                      quota = quota_of ro owner
                  in if MAX_GROUPS_PER_ITEM < length (item_groups item)
                     then Inl (Described ResourceConstraint (Limit ''A roster contact can have at most '' MAX_GROUPS_PER_ITEM
                        '' groups. Remove groups from this contact.''))
                     else
                       ok_then (map_err (roster_quota_error ''roster_write'' quota) (tx_put_item W owner item quota tx)) (\<lambda>(v, tx).
                         Inr (iq_reply_new None (effects_new [owner] [push_roster owner \<lparr>version = v, mutated = item\<rparr>]), tx)))))
           | RosterRemove contact \<Rightarrow>
               ok_then (remove_item W u ro hosts owner contact (ref_text (bare (iq_sender request))) tx) (\<lambda>(effects, tx).
                 Inr (iq_reply_new None effects, tx))))))"

subsection \<open>Presence\<close>

definition visibility :: "AccountKey \<Rightarrow> JidRef \<Rightarrow> Tables \<Rightarrow> (HandlerError, bool) result" where
  "visibility owner observer t =
     ok_then (map_err (roster_error ''roster_read'') (roster_subscription t owner (ref_text (bare observer)))) (\<lambda>item.
       Inr (some_and (\<lambda>s. grants (state s)) item))"

fun granting_contacts :: "Tables \<Rightarrow> RosterJid \<Rightarrow> RosterJid list \<Rightarrow> (HandlerError, AccountKey list) result" where
  "granting_contacts t owner [] = Inr []"
| "granting_contacts t owner (contact # watched) =
     (case account_key_of_roster_jid contact of
        Inl _ \<Rightarrow> granting_contacts t owner watched
      | Inr account \<Rightarrow>
          ok_then (map_err (roster_error ''roster_read'') (roster_subscription t account owner)) (\<lambda>item.
          ok_then (granting_contacts t owner watched) (\<lambda>rest.
            Inr (if some_and (\<lambda>s. grants (state s)) item then account # rest else rest))))"

fun split_subscriptions :: "RosterItem list \<Rightarrow> AccountKey \<Rightarrow> RosterJid list \<times> RosterJid list" where
  "split_subscriptions [] owner = ([], [])"
| "split_subscriptions (item # items) owner =
     (let (subscribers, watched) = split_subscriptions items owner in
      if item_jid item = key_text owner then (subscribers, watched)
      else (case state (subscription item) of
          From \<Rightarrow> (item_jid item # subscribers, watched)
        | To \<Rightarrow> (subscribers, item_jid item # watched)
        | Both \<Rightarrow> (item_jid item # subscribers, item_jid item # watched)
        | SubNone \<Rightarrow> (subscribers, watched)))"

definition audience :: "UnicodeData \<Rightarrow> Roster \<Rightarrow> PresenceUpdate \<Rightarrow> Tables \<Rightarrow> (HandlerError, PresenceAudience option) result" where
  "audience u ro update t =
     ok_then (map_err (\<lambda>_. StanzaFailed InternalServerError) (account_key_of_jid (bare (update_sender update)))) (\<lambda>owner.
     ok_then (map_err (roster_quota_error ''roster_read'' (quota_of ro owner)) (roster u t owner (quota_of ro owner))) (\<lambda>snapshot.
       (let (subscribers, watched) = split_subscriptions (snapshot_items snapshot) owner in
        ok_then (if transition update = InitialPresence then
            ok_then (map_err (roster_error ''roster_read'') (pending_requests u t owner)) (\<lambda>pending.
            ok_then (granting_contacts t (ref_text (bare (update_sender update))) watched) (\<lambda>contacts.
              Inr (pending, contacts, watched)))
          else Inr ([], [], [])) (\<lambda>(pending, contacts, probes).
          Inr (Some \<lparr>audience_subscribers = subscribers, audience_pending = pending, audience_contacts = contacts,
            audience_probes = probes\<rparr>)))))"

end
