(* ===== verification/Roster_Cleanup.thy ===== *)
theory Roster_Cleanup
  imports Roster_Handlers Roster_Mirror
begin

text \<open>
  The roster's part in the deletion of an account (\<open>forget_account\<close> of
  \<open>lonewolf-extension/src/roster/subscription.rs\<close>): two loops with a cursor over the snapshot taken
  before the deletion, the first over the account's items, the second over the requests pending with it,
  and the same two loops again when the effects are delivered. A loop that does not return has the value
  \<open>None\<close>.

  The first group of lemmas shows that the loops return and what they do as recursions over rows; the
  others that an account is forgotten everywhere and that what remains is in step.
\<close>

section \<open>Definitions\<close>

subsection \<open>One contact\<close>

record CleanupProjection =
  proj_owner :: "RosterSubscription option"
  proj_pending :: bool
  proj_counterpart :: "RosterSubscription option"
  proj_changed :: "RosterSubscription option"

definition cleanup_projection :: "RosterSubscription option \<Rightarrow> bool \<Rightarrow> RosterSubscription option \<Rightarrow> CleanupProjection" where
  "cleanup_projection owner pending counterpart =
     \<lparr>proj_owner = owner, proj_pending = pending, proj_counterpart = counterpart,
      proj_changed = Option.bind counterpart (\<lambda>old.
        (let next =
           (if owner \<noteq> None then \<lparr>state = SubNone, pending_out = False, approved = approved old\<rparr>
            else \<lparr>state = without_to (state old), pending_out = False, approved = approved old\<rparr>)
         in then_some old next))\<rparr>"

definition cleanup_version :: "Tables \<Rightarrow> AccountKey \<Rightarrow> (RosterError, RosterVersion) result" where
  "cleanup_version before contact = ok_or ValueTooLarge (checked_add 64 (roster_version before contact) 1)"

definition cleanup_counterpart :: "Tables \<Rightarrow> AccountKey \<Rightarrow> RosterJid \<Rightarrow> AccountKey \<Rightarrow> CleanupProjection \<Rightarrow> RedbWrite
    \<Rightarrow> (RosterError, RedbWrite) result" where
  "cleanup_counterpart before owner owner_jid account projection tx =
     (let tx = (if proj_owner projection \<noteq> None then snd (remove_pending_request account owner_jid tx) else tx) in
      case proj_changed projection of
        None \<Rightarrow> Inr tx
      | Some s \<Rightarrow>
          ok_then (cleanup_version before account) (\<lambda>expected.
          ok_then (set_roster_subscription before account owner_jid s tx) (\<lambda>(actual, tx).
            if actual \<noteq> Some expected then Inl (RosterStorage CorruptData) else Inr tx)))"

definition prepare_cleanup :: "Tables \<Rightarrow> AccountKey \<Rightarrow> RosterJid \<Rightarrow> RosterJid \<Rightarrow> CleanupProjection \<Rightarrow> AccountKey option \<Rightarrow> RedbWrite
    \<Rightarrow> (HandlerError, RedbWrite) result" where
  "prepare_cleanup before owner owner_jid contact projection counterpart tx =
     map_err (roster_error ''roster_cleanup'')
       (ok_then (if proj_owner projection \<noteq> None
           then ok_then (remove_roster_subscription owner contact tx) (\<lambda>(_, tx). Inr tx) else Inr tx) (\<lambda>tx.
        (let tx = snd (remove_pending_request owner contact tx) in
         case counterpart of
           None \<Rightarrow> Inr tx
         | Some account \<Rightarrow> cleanup_counterpart before owner owner_jid account projection tx)))"

definition other_account :: "Tables \<Rightarrow> HostLookup \<Rightarrow> AccountKey \<Rightarrow> RosterJid \<Rightarrow> (HandlerError, AccountKey option) result" where
  "other_account before hosts account contact =
     ok_then (stored_local_account (read_account before) contact hosts) (\<lambda>known.
       Inr (case known of None \<Rightarrow> None | Some k \<Rightarrow> if k \<noteq> account then Some k else None))"

definition counterpart_item :: "Tables \<Rightarrow> RosterJid \<Rightarrow> AccountKey option \<Rightarrow> (RosterError, RosterSubscription option) result" where
  "counterpart_item before owner_jid counterpart =
     (case counterpart of None \<Rightarrow> Inr None | Some other \<Rightarrow> roster_subscription before other owner_jid)"

definition forget_item :: "Tables \<Rightarrow> HostLookup \<Rightarrow> AccountKey \<Rightarrow> RosterJid \<Rightarrow> RosterSubscription \<Rightarrow> RedbWrite
    \<Rightarrow> (HandlerError, RedbWrite) result" where
  "forget_item before hosts account contact s tx =
     ok_then (other_account before hosts account contact) (\<lambda>counterpart.
     ok_then (map_err (roster_error ''roster_cleanup'') (counterpart_item before (key_text account) counterpart)) (\<lambda>other.
       prepare_cleanup before account (key_text account) contact
         (cleanup_projection (Some s) (pending_request_exists before account contact) other) counterpart tx))"

definition forget_sender :: "Tables \<Rightarrow> HostLookup \<Rightarrow> AccountKey \<Rightarrow> RosterJid \<Rightarrow> RedbWrite
    \<Rightarrow> (HandlerError, RedbWrite) result" where
  "forget_sender before hosts account contact tx =
     ok_then (map_err (roster_error ''roster_cleanup'') (roster_subscription before account contact)) (\<lambda>item.
       if item \<noteq> None then Inr tx
       else
         ok_then (other_account before hosts account contact) (\<lambda>counterpart.
         ok_then (map_err (roster_error ''roster_cleanup'') (counterpart_item before (key_text account) counterpart)) (\<lambda>other.
           prepare_cleanup before account (key_text account) contact (cleanup_projection None True other) counterpart tx)))"

subsection \<open>The loops\<close>

text \<open>\<open>while let Some(...) = before.next(after)? { ...; after = Some(contact); }\<close>\<close>

partial_function (option) while_cursor :: "('e \<Rightarrow> 's \<Rightarrow> 'f) \<Rightarrow> ('c option \<Rightarrow> ('e, ('c \<times> 'x) option) result) \<Rightarrow> ('c \<Rightarrow> 'x \<Rightarrow> 's \<Rightarrow> ('f, 's) result)
    \<Rightarrow> 'c option \<Rightarrow> 's \<Rightarrow> ('f, 's) result option" where
  "while_cursor fail successor body after st =
     (case successor after of
        Inl e \<Rightarrow> Some (Inl (fail e st))
      | Inr None \<Rightarrow> Some (Inr st)
      | Inr (Some (c, x)) \<Rightarrow>
          (case body c x st of
             Inl f \<Rightarrow> Some (Inl f)
           | Inr st \<Rightarrow> while_cursor fail successor body (Some c) st))"

definition next_sender :: "UnicodeData \<Rightarrow> Tables \<Rightarrow> AccountKey \<Rightarrow> RosterJid option \<Rightarrow> (RosterError, (RosterJid \<times> unit) option) result" where
  "next_sender u t owner after = ok_then (next_pending_sender u t owner after) (\<lambda>c. Inr (map_option (\<lambda>c. (c, ())) c))"

definition forget_items :: "UnicodeData \<Rightarrow> Tables \<Rightarrow> HostLookup \<Rightarrow> AccountKey \<Rightarrow> RedbWrite \<Rightarrow> (HandlerError, RedbWrite) result option" where
  "forget_items u before hosts account tx =
     while_cursor (\<lambda>e _. roster_error ''roster_cleanup'' e) (next_roster_subscription u before account)
       (forget_item before hosts account) None tx"

definition forget_senders :: "UnicodeData \<Rightarrow> Tables \<Rightarrow> HostLookup \<Rightarrow> AccountKey \<Rightarrow> RedbWrite \<Rightarrow> (HandlerError, RedbWrite) result option" where
  "forget_senders u before hosts account tx =
     while_cursor (\<lambda>e _. roster_error ''roster_cleanup'' e) (next_sender u before account)
       (\<lambda>contact _. forget_sender before hosts account contact) None tx"

subsection \<open>Effects\<close>

definition notify_cancelled_requester :: "UnicodeData \<Rightarrow> AccountKey \<Rightarrow> AccountKey \<Rightarrow> Cancellation \<Rightarrow> Steps" where
  "notify_cancelled_requester u owner requester cancellation =
     only_if (cancel_route cancellation) [step (ToTagged Interested \<circ> snd) (subscription_withdrawals u owner requester)] @
     push_mutation requester (cancel_subscriber cancellation)"

definition replay_cleanup_push :: "Roster \<Rightarrow> Tables \<Rightarrow> AccountKey \<Rightarrow> RosterJid \<Rightarrow> RosterSubscription option \<Rightarrow> Steps" where
  "replay_cleanup_push ro before contact owner changed =
     (case changed of
        None \<Rightarrow> []
      | Some s \<Rightarrow>
          (case ok_then (cleanup_version before contact) (\<lambda>v.
             ok_then (roster_item before contact owner (quota_of ro contact)) (\<lambda>item.
             ok_then (ok_or (RosterStorage CorruptData) item) (\<lambda>item.
               Inr \<lparr>version = v, mutated = item\<lparr>subscription := s\<rparr>\<rparr>))) of
             Inr m \<Rightarrow> push_roster contact m
           | Inl QuotaExceeded \<Rightarrow> [Inr (RetireTagged contact Interested)]
           | Inl _ \<Rightarrow> [Inr (RetireTagged contact Interested), Inl DeliveryError]))"

definition item_notices :: "UnicodeData \<Rightarrow> Roster \<Rightarrow> Tables \<Rightarrow> HostLookup \<Rightarrow> bool \<Rightarrow> AccountKey \<Rightarrow> RosterJid \<Rightarrow> RosterSubscription
    \<Rightarrow> (HandlerError, Steps) result" where
  "item_notices u ro before hosts federated account contact s =
     ok_then (other_account before hosts account contact) (\<lambda>counterpart.
       (case counterpart of
          Some k \<Rightarrow>
            ok_then (map_err (roster_error ''roster_cleanup'') (roster_subscription before k (key_text account))) (\<lambda>other.
              (let projection = cleanup_projection (Some s) (pending_request_exists before account contact) other;
                   removal = \<lparr>removal_version = 0, removal_subscription = s, removal_pending = proj_pending projection,
                     contact_before = proj_counterpart projection, removal_contact = None\<rparr>
               in Inr (fst (notify_removed_contact u account k removal) @
                    replay_cleanup_push ro before k (key_text account) (proj_changed projection))))
        | None \<Rightarrow>
            Inr (if federated then
                (case federated_contact account contact hosts of
                   None \<Rightarrow> []
                 | Some remote \<Rightarrow>
                     notify_removed_remote_contact u account remote s (pending_request_exists before account contact))
              else [])))"

definition sender_notices :: "UnicodeData \<Rightarrow> Roster \<Rightarrow> Tables \<Rightarrow> HostLookup \<Rightarrow> bool \<Rightarrow> AccountKey \<Rightarrow> RosterJid
    \<Rightarrow> (HandlerError, Steps) result" where
  "sender_notices u ro before hosts federated account contact =
     ok_then (map_err (roster_error ''roster_cleanup'') (roster_subscription before account contact)) (\<lambda>item.
       if item \<noteq> None then Inr []
       else
         ok_then (other_account before hosts account contact) (\<lambda>counterpart.
           (case counterpart of
              Some k \<Rightarrow>
                ok_then (map_err (roster_error ''roster_cleanup'') (roster_subscription before k (key_text account))) (\<lambda>other.
                  (let cancellation = \<lparr>cancel_route = True, cancel_unavailable = False, cancel_grantor = None, cancel_subscriber = None\<rparr>
                   in Inr (notify_cancelled_requester u account k cancellation @
                        replay_cleanup_push ro before k (key_text account) (proj_changed (cleanup_projection None True other)))))
            | None \<Rightarrow>
                Inr (if federated then
                    (case federated_contact account contact hosts of
                       None \<Rightarrow> []
                     | Some remote \<Rightarrow> notify_removed_remote_contact u account remote default_subscription True)
                  else []))))"

text \<open>
  The loops of the delivery collect the rounds, in \<open>Inl\<close> once a read of the snapshot has failed, which
  ends the delivery.
\<close>

definition add_round :: "(HandlerError, Steps) result \<Rightarrow> Deliver \<Rightarrow> (Deliver, Deliver) result" where
  "add_round steps rounds =
     (case steps of Inl _ \<Rightarrow> Inl (rounds @ [[Inl DeliveryError]]) | Inr steps \<Rightarrow> Inr (rounds @ [steps]))"

definition deliver_items :: "UnicodeData \<Rightarrow> Roster \<Rightarrow> Tables \<Rightarrow> HostLookup \<Rightarrow> bool \<Rightarrow> AccountKey \<Rightarrow> Deliver \<Rightarrow> (Deliver, Deliver) result option" where
  "deliver_items u ro before hosts federated account rounds =
     while_cursor (\<lambda>_ rounds. rounds @ [[Inl DeliveryError]]) (next_roster_subscription u before account)
       (\<lambda>contact s. add_round (item_notices u ro before hosts federated account contact s)) None rounds"

definition deliver_senders :: "UnicodeData \<Rightarrow> Roster \<Rightarrow> Tables \<Rightarrow> HostLookup \<Rightarrow> bool \<Rightarrow> AccountKey \<Rightarrow> Deliver \<Rightarrow> (Deliver, Deliver) result option" where
  "deliver_senders u ro before hosts federated account rounds =
     while_cursor (\<lambda>_ rounds. rounds @ [[Inl DeliveryError]]) (next_sender u before account)
       (\<lambda>contact _. add_round (sender_notices u ro before hosts federated account contact)) None rounds"

definition forget_deliver :: "UnicodeData \<Rightarrow> Roster \<Rightarrow> Tables \<Rightarrow> bool \<Rightarrow> AccountKey \<Rightarrow> HostLookup \<Rightarrow> Deliver option" where
  "forget_deliver u ro before federated account hosts =
     Option.bind (deliver_items u ro before hosts federated account []) (\<lambda>items.
       (case items of
          Inl rounds \<Rightarrow> Some rounds
        | Inr rounds \<Rightarrow>
            map_option (case_sum (\<lambda>rounds. rounds) (\<lambda>rounds. rounds))
              (deliver_senders u ro before hosts federated account rounds)))"

definition forget_account :: "UnicodeData \<Rightarrow> Roster \<Rightarrow> AccountKey \<Rightarrow> Tables \<Rightarrow> HostLookup \<Rightarrow> RedbWrite
    \<Rightarrow> (HandlerError, (HostLookup \<Rightarrow> Deliver option) \<times> RedbWrite) result option" where
  "forget_account u ro account before hosts tx =
     Option.bind (forget_items u before hosts account tx) (\<lambda>items.
       (case items of
          Inl e \<Rightarrow> Some (Inl e)
        | Inr tx \<Rightarrow>
            Option.bind (forget_senders u before hosts account tx) (\<lambda>senders.
              Some (ok_then senders (\<lambda>tx.
                Inr (forget_deliver u ro before (federates hosts (domain account)) account, clear_roster account tx))))))"

section \<open>The loops return\<close>

text \<open>A cursor: \<open>rows after\<close> are the rows a scan after the cursor still meets.\<close>

fun fold_rows :: "('e \<Rightarrow> 's \<Rightarrow> 'f) \<Rightarrow> ('r \<Rightarrow> ('e, 'c \<times> 'x) result) \<Rightarrow> ('c \<Rightarrow> 'x \<Rightarrow> 's \<Rightarrow> ('f, 's) result) \<Rightarrow> 'r list \<Rightarrow> 's \<Rightarrow> ('f, 's) result" where
  "fold_rows fail decode body [] st = Inr st"
| "fold_rows fail decode body (r # rs) st =
     (case decode r of
        Inl e \<Rightarrow> Inl (fail e st)
      | Inr (c, x) \<Rightarrow> ok_then (body c x st) (fold_rows fail decode body rs))"

locale cursor =
  fixes successor :: "'c option \<Rightarrow> ('e, ('c \<times> 'x) option) result"
    and rows :: "'c option \<Rightarrow> 'r list"
    and decode :: "'r \<Rightarrow> ('e, 'c \<times> 'x) result"
  assumes next_law: "successor after = (case rows after of [] \<Rightarrow> Inr None | r # _ \<Rightarrow> ok_then (decode r) (\<lambda>p. Inr (Some p)))"
    and advance_law: "rows after = r # rs \<Longrightarrow> decode r = Inr (c, x) \<Longrightarrow> rows (Some c) = rs"
begin

lemma while_rows: "while_cursor fail successor body after st = Some (fold_rows fail decode body (rows after) st)"
proof (induction "rows after" arbitrary: after st)
  case Nil
  then show ?case by (subst while_cursor.simps) (simp add: next_law Nil [symmetric])
next
  case (Cons r rs)
  show ?case
  proof (cases "decode r")
    case (Inl e)
    then show ?thesis by (subst while_cursor.simps) (simp add: next_law Cons(2) [symmetric])
  next
    case (Inr p)
    obtain c x where p: "p = (c, x)" by force
    have "rows (Some c) = rs" using advance_law Cons(2) Inr p by metis
    then show ?thesis using Cons(1) [of "Some c"] Inr p
      by (subst while_cursor.simps) (simp add: next_law Cons(2) [symmetric] split: sum.splits)
  qed
qed

end

lemma decode_jid_text: "decode_jid u s = Inr jid \<Longrightarrow> jid = s"
  by (auto simp: decode_jid_def with_canonical_jid_def split: if_splits sum.splits)

lemma cursor_in_range: "after_cursor owner after key \<Longrightarrow> in_owner_range owner key"
proof (cases after)
  case (Some jid)
  have "fst (owner_range owner) \<le> item_key_text owner jid"
    using item_key_in_range [of owner jid] by (simp add: in_owner_range_def del: item_key_in_range)
  with Some show "after_cursor owner after key \<Longrightarrow> ?thesis" by (auto simp: after_cursor_def in_owner_range_def)
qed (simp add: after_cursor_def in_owner_range_def)

lemma cursor_advance:
  assumes "bt_range (after_cursor k after) t = (key, v) # rest" and "decode_key u k key = Inr jid"
  shows "key = item_key_text k jid" and "bt_range (after_cursor k (Some jid)) t = rest"
proof -
  have "(key, v) \<in> set (bt_range (after_cursor k after) t)" using assms(1) by simp
  then have cur: "after_cursor k after key" by (auto simp: table.set_scan)
  show key: "key = item_key_text k jid" using cursor_in_range [OF cur] assms(2)
    by (auto simp: in_owner_range_iff dest: decode_jid_text)
  have lt: "after_cursor k (Some jid) j \<longleftrightarrow> key < j \<and> after_cursor k after j" for j
    using cur by (auto simp: after_cursor_def key split: option.splits)
  have "bt_range (after_cursor k (Some jid)) t = filter (\<lambda>(j, _). key < j) (bt_range (after_cursor k after) t)"
    by (simp add: bt_range_def lt case_prod_unfold conj_commute)
  also have "\<dots> = rest"
  proof -
    have "sorted (map fst (bt_range (after_cursor k after) t))" "distinct (map fst (bt_range (after_cursor k after) t))"
      by (rule table.sorted_scan, rule table.distinct_scan)
    then have "\<forall>(j, _) \<in> set rest. key < j" unfolding assms(1) by (force simp: less_le)
    then show ?thesis unfolding assms(1) by (simp add: filter_id_conv)
  qed
  finally show "bt_range (after_cursor k (Some jid)) t = rest" .
qed

definition decode_item_row :: "UnicodeData \<Rightarrow> AccountKey \<Rightarrow> string \<times> bytes \<Rightarrow> (RosterError, RosterJid \<times> RosterSubscription) result" where
  "decode_item_row u owner row =
     ok_then (map_err RosterStorage (decode_key u (key_text owner) (fst row))) (\<lambda>jid.
     ok_then (decode_subscription (snd row)) (\<lambda>s. Inr (jid, s)))"

definition decode_sender_row :: "UnicodeData \<Rightarrow> AccountKey \<Rightarrow> string \<times> bytes \<Rightarrow> (RosterError, RosterJid \<times> unit) result" where
  "decode_sender_row u owner row =
     ok_then (map_err RosterStorage (decode_key u (key_text owner) (fst row))) (\<lambda>jid. Inr (jid, ()))"

interpretation item_cursor: cursor "next_roster_subscription u t owner"
  "\<lambda>after. bt_range (after_cursor (key_text owner) after) (ITEMS t)" "decode_item_row u owner" for u t owner
proof
  fix after r rs c x
  show "next_roster_subscription u t owner after = (case bt_range (after_cursor (key_text owner) after) (ITEMS t) of
      [] \<Rightarrow> Inr None | r # _ \<Rightarrow> ok_then (decode_item_row u owner r) (\<lambda>p. Inr (Some p)))"
    by (auto simp: next_roster_subscription_def decode_item_row_def ok_then_def split: list.splits sum.splits)
  show "bt_range (after_cursor (key_text owner) after) (ITEMS t) = r # rs \<Longrightarrow> decode_item_row u owner r = Inr (c, x) \<Longrightarrow>
    bt_range (after_cursor (key_text owner) (Some c)) (ITEMS t) = rs"
    by (cases r) (auto simp: decode_item_row_def dest: cursor_advance(2))
qed

interpretation sender_cursor: cursor "next_sender u t owner"
  "\<lambda>after. bt_range (after_cursor (key_text owner) after) (PENDING t)" "decode_sender_row u owner" for u t owner
proof
  fix after r rs c x
  show "next_sender u t owner after = (case bt_range (after_cursor (key_text owner) after) (PENDING t) of
      [] \<Rightarrow> Inr None | r # _ \<Rightarrow> ok_then (decode_sender_row u owner r) (\<lambda>p. Inr (Some p)))"
    by (auto simp: next_sender_def next_pending_sender_def decode_sender_row_def ok_then_def split: list.splits sum.splits)
  show "bt_range (after_cursor (key_text owner) after) (PENDING t) = r # rs \<Longrightarrow> decode_sender_row u owner r = Inr (c, x) \<Longrightarrow>
    bt_range (after_cursor (key_text owner) (Some c)) (PENDING t) = rs"
    by (cases r) (auto simp: decode_sender_row_def dest: cursor_advance(2))
qed

lemma cursor_start: "after_cursor owner None = in_owner_range owner"
  by (simp add: fun_eq_iff after_cursor_def in_owner_range_def)

section \<open>What one contact's cleanup changes\<close>

text \<open>Keys as the rest of the server makes them: the text of an address with a username and without a resource.\<close>

definition key_ok :: "AccountKey \<Rightarrow> bool" where
  "key_ok k \<longleftrightarrow> owner_ok (key_text k) \<and> account_key_of_roster_jid (key_text k) = Inr k"

definition accounts_ok :: "Tables \<Rightarrow> bool" where
  "accounts_ok t \<longleftrightarrow> (\<forall>k. fmlookup (ACCOUNTS t) k \<noteq> None \<longrightarrow> owner_ok k)"

definition known :: "Tables \<Rightarrow> HostLookup \<Rightarrow> AccountKey \<Rightarrow> RosterJid \<Rightarrow> bool" where
  "known t hosts account c \<longleftrightarrow> local_candidate c hosts \<noteq> None \<and> fmlookup (ACCOUNTS t) c \<noteq> None \<and> c \<noteq> key_text account"

definition cleaned :: "bool \<Rightarrow> RosterSubscription \<Rightarrow> RosterSubscription" where
  "cleaned item old = \<lparr>state = (if item then SubNone else without_to (state old)), pending_out = False, approved = approved old\<rparr>"

lemma roster_jid_key: "account_key_of_roster_jid s = Inr k \<Longrightarrow> key_text k = s"
  by (auto simp: account_key_of_roster_jid_def split: if_splits)

lemma local_candidate_text: "local_candidate c hosts = Some k \<Longrightarrow> key_text k = c"
  by (auto simp: local_candidate_def roster_jid_key split: sum.splits if_splits)

lemma other_account_cases:
  assumes "other_account before hosts account c = Inr counterpart" and "key_ok account"
  shows "counterpart = Some k \<Longrightarrow> key_text k = c \<and> known before hosts account c"
    and "counterpart = None \<Longrightarrow> \<not> known before hosts account c"
proof -
  have "(\<forall>k. counterpart = Some k \<longrightarrow> key_text k = c \<and> known before hosts account c) \<and>
    (counterpart = None \<longrightarrow> \<not> known before hosts account c)"
  proof (cases "local_candidate c hosts")
    case None
    then show ?thesis using assms(1) by (auto simp: other_account_def stored_local_account_def known_def)
  next
    case (Some k)
    have kc: "key_text k = c" by (rule local_candidate_text [OF Some])
    have "account_key_of_roster_jid c = Inr k" using Some by (auto simp: local_candidate_def split: sum.splits if_splits)
    then have same: "c = key_text account \<longleftrightarrow> k = account" using assms(2) kc unfolding key_ok_def by (metis sum.inject(2))
    have "counterpart = (if fmlookup (ACCOUNTS before) c = None \<or> k = account then None else Some k)"
      using assms(1) unfolding other_account_def stored_local_account_def account_known_def read_account_def Some kc option.case
      by (cases "fmlookup (ACCOUNTS before) c") (auto split: if_splits)
    then show ?thesis by (cases "fmlookup (ACCOUNTS before) c"; cases "k = account") (simp_all add: known_def Some kc same)
  qed
  then show "counterpart = Some k \<Longrightarrow> key_text k = c \<and> known before hosts account c"
    "counterpart = None \<Longrightarrow> \<not> known before hosts account c" by blast+
qed

lemma cleanup_changed:
  "proj_changed (cleanup_projection o' p old) = Option.bind old (\<lambda>s. then_some s (cleaned (o' \<noteq> None) s))"
  by (cases o') (simp_all add: cleanup_projection_def cleaned_def)

lemma cleaned_view:
  "(case Option.bind old (\<lambda>s. then_some s (cleaned b s)) of None \<Rightarrow> old | Some n \<Rightarrow> Some n) = map_option (cleaned b) old"
  by (cases old) (auto simp: then_some_def)

lemma set_subscription_effect:
  assumes "owner_ok (key_text owner)" and "set_roster_subscription before owner jid new tx = Inr (Some v, tx')"
  shows "redb_live tx' = redb_live tx" "redb_waits tx' = redb_waits tx"
    "redb_view tx' = (redb_view tx)(key_text owner := (redb_view tx (key_text owner))(jid := Some new))"
proof -
  from assms(2) obtain current where e: "ACCOUNTS (work tx') = ACCOUNTS (work tx)" "PENDING (work tx') = PENDING (work tx)"
    "ITEMS (work tx') = fmupd (item_key owner jid) (encode_subscription new @ drop 2 current) (ITEMS (work tx))"
    by (auto simp: set_roster_subscription_def copy_subscription_def advance_version_Inr split: if_splits option.splits)
  show "redb_live tx' = redb_live tx" by (rule redb_live_same [OF e(1)])
  show "redb_waits tx' = redb_waits tx" by (rule redb_waits_same [OF e(2)])
  show "redb_view tx' = (redb_view tx)(key_text owner := (redb_view tx (key_text owner))(jid := Some new))"
    using redb_view_upd [OF assms(1) e(3) [unfolded item_key_def]] by simp
qed

text \<open>The roster tables are the only ones written.\<close>

definition roster_only :: "RedbWrite \<Rightarrow> RedbWrite \<Rightarrow> bool" where
  "roster_only tx tx' \<longleftrightarrow> tx' = tx\<lparr>work := (work tx)\<lparr>ITEMS := ITEMS (work tx'), PENDING := PENDING (work tx'), VERSIONS := VERSIONS (work tx')\<rparr>\<rparr>"

lemma roster_only_refl [simp]: "roster_only tx tx"
  by (simp add: roster_only_def)

lemma roster_only_trans: "roster_only tx tx' \<Longrightarrow> roster_only tx' tx'' \<Longrightarrow> roster_only tx tx''"
  by (cases tx, cases "work tx", cases tx', cases "work tx'", cases tx'', cases "work tx''") (auto simp: roster_only_def)

lemma roster_only_fields:
  assumes "roster_only tx tx'"
  shows "ACCOUNTS (work tx') = ACCOUNTS (work tx)" "MESSAGES (work tx') = MESSAGES (work tx)"
    "SEQUENCES (work tx') = SEQUENCES (work tx)" "VCARDS (work tx') = VCARDS (work tx)"
    "ELEMENTS (work tx') = ELEMENTS (work tx)" "committed tx' = committed tx"
proof -
  note e = assms [unfolded roster_only_def, THEN arg_cong]
  show "ACCOUNTS (work tx') = ACCOUNTS (work tx)" using e [of "ACCOUNTS \<circ> work"] by simp
  show "MESSAGES (work tx') = MESSAGES (work tx)" using e [of "MESSAGES \<circ> work"] by simp
  show "SEQUENCES (work tx') = SEQUENCES (work tx)" using e [of "SEQUENCES \<circ> work"] by simp
  show "VCARDS (work tx') = VCARDS (work tx)" using e [of "VCARDS \<circ> work"] by simp
  show "ELEMENTS (work tx') = ELEMENTS (work tx)" using e [of "ELEMENTS \<circ> work"] by simp
  show "committed tx' = committed tx" using e [of committed] by simp
qed

lemma roster_only_writes:
  "remove_roster_subscription owner jid tx = Inr (m, tx') \<Longrightarrow> roster_only tx tx'"
  "set_roster_subscription before owner jid new tx = Inr (v, tx') \<Longrightarrow> roster_only tx tx'"
  "roster_only tx (snd (remove_pending_request owner jid tx))"
  "roster_only tx (clear_roster owner tx)"
  by (auto simp: roster_only_def remove_roster_subscription_def set_roster_subscription_def copy_subscription_def advance_version_Inr
      remove_pending_request_def clear_roster_def Let_def split: option.splits if_splits)

lemma drop_pending_effect:
  assumes "owner_ok (key_text owner)" and "tx' = snd (remove_pending_request owner jid tx)"
  shows "redb_live tx' = redb_live tx" "redb_view tx' = redb_view tx"
    "redb_waits tx' = (redb_waits tx)(key_text owner := (redb_waits tx (key_text owner))(jid := False))"
proof -
  have "tx_remove_pending redb_writes owner jid tx = Inr (fst (remove_pending_request owner jid tx), tx')"
    by (simp add: redb_writes_def assms(2))
  from redb.remove_pending_law [OF assms(1) this] show "redb_live tx' = redb_live tx" "redb_view tx' = redb_view tx"
    "redb_waits tx' = (redb_waits tx)(key_text owner := (redb_waits tx (key_text owner))(jid := False))" by simp_all
qed

lemma counterpart_effect:
  assumes ok: "owner_ok (key_text k)"
    and run: "cleanup_counterpart before owner a k (cleanup_projection o' p old) tx = Inr tx'"
    and old: "old = redb_view tx (key_text k) a"
  shows "redb_view tx' = (redb_view tx)(key_text k := (redb_view tx (key_text k))(a := map_option (cleaned (o' \<noteq> None)) old))"
    and "redb_waits tx' = (\<lambda>x y. redb_waits tx x y \<and> \<not> (x = key_text k \<and> y = a \<and> o' \<noteq> None))"
    and "roster_only tx tx'"
proof -
  define t where "t = (if o' \<noteq> None then snd (remove_pending_request k a tx) else tx)"
  have po: "proj_owner (cleanup_projection o' p old) = o'" by (simp add: cleanup_projection_def)
  have t: "redb_view t = redb_view tx" "roster_only tx t"
    "redb_waits t = (\<lambda>x y. redb_waits tx x y \<and> \<not> (x = key_text k \<and> y = a \<and> o' \<noteq> None))"
    using drop_pending_effect [OF ok, of "snd (remove_pending_request k a tx)" a tx] roster_only_writes(3)
    by (auto simp: t_def fun_eq_iff)
  note run = run [unfolded cleanup_counterpart_def po Let_def, folded t_def]
  have "redb_view tx' = (redb_view t)(key_text k := (redb_view t (key_text k))(a := map_option (cleaned (o' \<noteq> None)) old)) \<and>
    redb_waits tx' = redb_waits t \<and> roster_only t tx'"
  proof (cases "proj_changed (cleanup_projection o' p old)")
    case None
    with run have "tx' = t" by simp
    moreover have "map_option (cleaned (o' \<noteq> None)) old = old"
      using None cleaned_view [of old "o' \<noteq> None"] by (simp add: cleanup_changed)
    ultimately show ?thesis using old t(1) by (simp add: fun_eq_iff)
  next
    case (Some n)
    with run obtain v where v: "set_roster_subscription before k a n t = Inr (Some v, tx')" by (auto split: if_splits)
    have "map_option (cleaned (o' \<noteq> None)) old = Some n"
      using Some cleaned_view [of old "o' \<noteq> None"] by (simp add: cleanup_changed)
    then show ?thesis using set_subscription_effect [OF ok v] roster_only_writes(2) [OF v] by metis
  qed
  then show "redb_view tx' = (redb_view tx)(key_text k := (redb_view tx (key_text k))(a := map_option (cleaned (o' \<noteq> None)) old))"
    "redb_waits tx' = (\<lambda>x y. redb_waits tx x y \<and> \<not> (x = key_text k \<and> y = a \<and> o' \<noteq> None))" "roster_only tx tx'"
    using t roster_only_trans by auto
qed

lemma prepare_effect:
  fixes account
  defines "a \<equiv> key_text account"
  assumes key: "key_ok account" and accounts: "accounts_ok before"
    and other: "other_account before hosts account c = Inr counterpart"
    and item: "counterpart_item before a counterpart = Inr old"
    and run: "prepare_cleanup before account a c (cleanup_projection o' p old) counterpart tx = Inr tx'"
    and base: "known before hosts account c \<longrightarrow> redb_view tx c a = redb_view (begin_write before) c a"
  shows "redb_view tx' = (\<lambda>x y. if x = a \<and> y = c \<and> o' \<noteq> None then None
      else if x = c \<and> y = a \<and> known before hosts account c then map_option (cleaned (o' \<noteq> None)) (redb_view tx c a)
      else redb_view tx x y)" (is ?V)
    and "redb_waits tx' = (\<lambda>x y. redb_waits tx x y \<and> \<not> (x = a \<and> y = c) \<and>
      \<not> (x = c \<and> y = a \<and> known before hosts account c \<and> o' \<noteq> None))" (is ?W)
    and "roster_only tx tx'"
proof -
  have ok: "owner_ok (key_text account)" using key by (simp add: key_ok_def)
  have po: "proj_owner (cleanup_projection o' p old) = o'" by (simp add: cleanup_projection_def)
  from run obtain t where t: "(if o' \<noteq> None then ok_then (remove_roster_subscription account c tx) (\<lambda>(_, tx). Inr tx) else Inr tx) = Inr t"
    and rest: "(case counterpart of None \<Rightarrow> Inr (snd (remove_pending_request account c t))
      | Some k \<Rightarrow> cleanup_counterpart before account a k (cleanup_projection o' p old) (snd (remove_pending_request account c t))) = Inr tx'"
    by (auto simp: prepare_cleanup_def po Let_def)
  have v: "redb_view t = (\<lambda>x y. if x = a \<and> y = c \<and> o' \<noteq> None then None else redb_view tx x y) \<and>
    redb_waits t = redb_waits tx \<and> roster_only tx t"
  proof (cases "o' = None")
    case False
    with t obtain m where m: "remove_roster_subscription account c tx = Inr (m, t)" by auto
    then have "tx_remove_subscription redb_writes account c tx = Inr (m, t)" by (simp add: redb_writes_def)
    from redb.remove_law [OF ok this] roster_only_writes(1) [OF m] False show ?thesis by (auto simp: a_def fun_eq_iff)
  qed (use t in simp)
  define w where "w = snd (remove_pending_request account c t)"
  note e = drop_pending_effect [OF ok w_def]
  have tw: "roster_only tx w" using v roster_only_trans roster_only_writes(3) by (auto simp: w_def)
  have "?V \<and> ?W \<and> roster_only tx tx'"
  proof (cases counterpart)
    case None
    with rest have "tx' = w" by (simp add: w_def)
    moreover have "\<not> known before hosts account c" using other_account_cases(2) [OF other key None] .
    ultimately show ?thesis using v e tw by (auto simp: fun_eq_iff a_def)
  next
    case (Some k)
    note k = other_account_cases(1) [OF other key Some]
    have ok': "owner_ok (key_text k)" using k accounts by (auto simp: known_def accounts_ok_def)
    have neq: "c \<noteq> a" using k by (auto simp: known_def a_def)
    have "old = redb_view (begin_write before) c a"
      using item Some k ok' by (auto simp: counterpart_item_def roster_subscription_def redb_view_def begin_write_def item_key_def split: option.splits)
    then have old: "old = redb_view w (key_text k) a" using base k neq v e(2) by (simp add: fun_eq_iff)
    from rest Some have "cleanup_counterpart before account a k (cleanup_projection o' p old) w = Inr tx'" by (simp add: w_def)
    note f = counterpart_effect [OF ok' this old]
    have "old = redb_view tx c a" using old k neq v e(2) by (simp add: fun_eq_iff)
    with f v e k neq tw roster_only_trans [OF tw f(3)] show ?thesis by (auto simp: fun_eq_iff a_def)
  qed
  then show ?V ?W "roster_only tx tx'" by blast+
qed

section \<open>What a loop changes\<close>

text \<open>The contacts in \<open>S\<close> are forgotten: \<open>item\<close> says whether the account had items for them.\<close>

definition forgets :: "Tables \<Rightarrow> HostLookup \<Rightarrow> AccountKey \<Rightarrow> bool \<Rightarrow> RosterJid set \<Rightarrow> RedbWrite \<Rightarrow> RedbWrite \<Rightarrow> bool" where
  "forgets before hosts account item S tx tx' \<longleftrightarrow> roster_only tx tx' \<and>
     redb_view tx' = (\<lambda>x y. if item \<and> x = key_text account \<and> y \<in> S then None
       else if y = key_text account \<and> x \<in> S \<and> known before hosts account x then map_option (cleaned item) (redb_view tx x y)
       else redb_view tx x y) \<and>
     redb_waits tx' = (\<lambda>x y. redb_waits tx x y \<and> \<not> (x = key_text account \<and> y \<in> S) \<and>
       \<not> (item \<and> y = key_text account \<and> x \<in> S \<and> known before hosts account x))"

lemma forgets_empty: "forgets before hosts account item {} tx tx"
  by (simp add: forgets_def)

lemma prepare_forgets:
  assumes "key_ok account" and "accounts_ok before" and "other_account before hosts account c = Inr counterpart"
    and "counterpart_item before (key_text account) counterpart = Inr old"
    and "prepare_cleanup before account (key_text account) c (cleanup_projection o' p old) counterpart tx = Inr tx'"
    and "known before hosts account c \<longrightarrow> redb_view tx c (key_text account) = redb_view (begin_write before) c (key_text account)"
  shows "forgets before hosts account (o' \<noteq> None) {c} tx tx'"
proof -
  note e = prepare_effect [OF assms]
  have swapped: "(if x = a \<and> y = c \<and> P then n else if x = c \<and> y = a \<and> K c then f (v c a) else v x y) =
    (if P \<and> x = a \<and> y \<in> {c} then n else if y = a \<and> x \<in> {c} \<and> K x then f (v x y) else v x y)"
    for x y a c :: string and P K n f and v :: "string \<Rightarrow> string \<Rightarrow> RosterSubscription option"
    by (simp only: singleton_iff split: if_split) blast
  show ?thesis unfolding forgets_def
  proof (intro conjI e(3) ext)
    fix x y
    show "redb_view tx' x y = (if o' \<noteq> None \<and> x = key_text account \<and> y \<in> {c} then None
      else if y = key_text account \<and> x \<in> {c} \<and> known before hosts account x then map_option (cleaned (o' \<noteq> None)) (redb_view tx x y)
      else redb_view tx x y)"
      unfolding e(1) by (rule swapped)
    show "redb_waits tx' x y = (redb_waits tx x y \<and> \<not> (x = key_text account \<and> y \<in> {c}) \<and>
      \<not> (o' \<noteq> None \<and> y = key_text account \<and> x \<in> {c} \<and> known before hosts account x))"
      unfolding e(2) by blast
  qed
qed

lemma forgets_insert:
  assumes "forgets before hosts account item {c} tx t" and "forgets before hosts account item S t tx'" and "c \<notin> S"
  shows "forgets before hosts account item (insert c S) tx tx'"
proof -
  note f = assms(1,2) [unfolded forgets_def]
  note v1 = f(1) [THEN conjunct2, THEN conjunct1] and v2 = f(2) [THEN conjunct2, THEN conjunct1]
  note w1 = f(1) [THEN conjunct2, THEN conjunct2] and w2 = f(2) [THEN conjunct2, THEN conjunct2]
  have only: "roster_only tx tx'" by (rule roster_only_trans [OF f(1) [THEN conjunct1] f(2) [THEN conjunct1]])
  have self: "\<not> known before hosts account (key_text account)" by (simp add: known_def)
  show ?thesis unfolding forgets_def
  proof (intro conjI ext)
    fix x y
    show "redb_view tx' x y = (if item \<and> x = key_text account \<and> y \<in> insert c S then None
       else if y = key_text account \<and> x \<in> insert c S \<and> known before hosts account x then map_option (cleaned item) (redb_view tx x y)
       else redb_view tx x y)"
      unfolding v2 v1 using assms(3) self by (cases "x = c"; cases "y = c"; cases "x = key_text account") simp_all
    show "redb_waits tx' x y = (redb_waits tx x y \<and> \<not> (x = key_text account \<and> y \<in> insert c S) \<and>
       \<not> (item \<and> y = key_text account \<and> x \<in> insert c S \<and> known before hosts account x))"
      unfolding w2 w1 by auto
  qed (fact only)
qed

definition jids :: "AccountKey \<Rightarrow> (string \<times> bytes) list \<Rightarrow> RosterJid set" where
  "jids account rows = {c. item_key account c \<in> fst ` set rows}"

definition as_before :: "Tables \<Rightarrow> HostLookup \<Rightarrow> AccountKey \<Rightarrow> RosterJid set \<Rightarrow> RedbWrite \<Rightarrow> bool" where
  "as_before before hosts account S tx \<longleftrightarrow>
     (\<forall>c \<in> S. known before hosts account c \<longrightarrow> redb_view tx c (key_text account) = redb_view (begin_write before) c (key_text account))"

lemma fold_forgets:
  assumes decode: "\<And>row c x. decode row = Inr (c, x) \<Longrightarrow> decode_key u (key_text account) (fst row) = Inr c"
    and body: "\<And>c x tx tx'. body c x tx = Inr tx' \<Longrightarrow> (P c \<Longrightarrow> as_before before hosts account {c} tx) \<Longrightarrow>
      if P c then forgets before hosts account item {c} tx tx' else tx' = tx"
  shows "fold_rows fail decode body rows tx = Inr tx' \<Longrightarrow> distinct (map fst rows) \<Longrightarrow>
    list_all (in_owner_range (key_text account) \<circ> fst) rows \<Longrightarrow> as_before before hosts account {c \<in> jids account rows. P c} tx \<Longrightarrow>
    forgets before hosts account item {c \<in> jids account rows. P c} tx tx'"
proof (induction rows arbitrary: tx)
  case Nil
  then show ?case by (simp add: jids_def forgets_empty)
next
  case (Cons row rows)
  from Cons.prems(1) obtain c x t where t: "decode row = Inr (c, x)" "body c x tx = Inr t" "fold_rows fail decode body rows t = Inr tx'"
    by (auto split: sum.splits)
  have key: "fst row = item_key account c"
    using decode [OF t(1)] Cons.prems(3) by (auto simp: in_owner_range_iff item_key_def dest: decode_jid_text)
  have jids: "jids account (row # rows) = insert c (jids account rows)" "c \<notin> jids account rows"
    using Cons.prems(2) key item_key_inject by (auto simp: jids_def item_key_def)
  have step: "if P c then forgets before hosts account item {c} tx t else t = tx"
    using body [OF t(2)] Cons.prems(4) jids(1) by (simp add: as_before_def)
  have "as_before before hosts account {c \<in> jids account rows. P c} t"
    using Cons.prems(4) step jids by (auto simp: as_before_def forgets_def known_def split: if_splits)
  with Cons.IH [OF t(3)] Cons.prems have IH: "forgets before hosts account item {c \<in> jids account rows. P c} t tx'" by simp
  show ?case
  proof (cases "P c")
    case True
    then have "{c \<in> jids account (row # rows). P c} = insert c {c \<in> jids account rows. P c}" using jids(1) by auto
    then show ?thesis using forgets_insert [OF _ IH] step True jids(2) by simp
  next
    case False
    then have "{c \<in> jids account (row # rows). P c} = {c \<in> jids account rows. P c}" using jids(1) by auto
    then show ?thesis using IH step False by simp
  qed
qed

lemma fold_rows_decodes: "fold_rows fail decode body rows st = Inr st' \<Longrightarrow> row \<in> set rows \<Longrightarrow> \<exists>p. decode row = Inr p"
  by (induction rows arbitrary: st) (auto split: sum.splits)

lemma jids_range: "jids account (bt_range (in_owner_range (key_text account)) t) = {c. fmlookup t (item_key account c) \<noteq> None}"
  by (auto simp: jids_def table.set_scan item_key_def image_iff)

lemma range_ok:
  "distinct (map fst (bt_range (in_owner_range k) t))" "list_all (in_owner_range k \<circ> fst) (bt_range (in_owner_range k) t)"
  by (rule table.distinct_scan) (auto simp: list_all_iff table.set_scan)

lemma before_view:
  "owner_ok (key_text owner) \<Longrightarrow> roster_subscription before owner c = Inr s \<Longrightarrow> s = redb_view (begin_write before) (key_text owner) c"
  by (auto simp: roster_subscription_def redb_view_def begin_write_def item_key_def split: option.splits)

lemma forget_items_effect:
  assumes key: "key_ok account" and accounts: "accounts_ok before"
    and run: "forget_items u before hosts account tx = Some (Inr tx')"
    and view: "redb_view tx = redb_view (begin_write before)"
  shows "forgets before hosts account True {c. redb_view (begin_write before) (key_text account) c \<noteq> None} tx tx'"
    (is "forgets _ _ _ _ ?I _ _")
proof -
  let ?rows = "bt_range (in_owner_range (key_text account)) (ITEMS before)"
  have fold: "fold_rows (\<lambda>e _. roster_error ''roster_cleanup'' e) (decode_item_row u account) (forget_item before hosts account) ?rows tx = Inr tx'"
    using run unfolding forget_items_def item_cursor.while_rows cursor_start by simp
  have ok: "owner_ok (key_text account)" using key by (simp add: key_ok_def)
  have "forgets before hosts account True {c \<in> jids account ?rows. True} tx tx'"
  proof (rule fold_forgets [OF _ _ fold range_ok])
    show "decode_item_row u account row = Inr (c, x) \<Longrightarrow> decode_key u (key_text account) (fst row) = Inr c" for row c x
      by (auto simp: decode_item_row_def)
    show "as_before before hosts account {c \<in> jids account ?rows. True} tx" by (simp add: as_before_def view)
    fix c s t t'
    assume run: "forget_item before hosts account c s t = Inr t'" and base: "True \<Longrightarrow> as_before before hosts account {c} t"
    from run obtain counterpart old where o: "other_account before hosts account c = Inr counterpart"
      "counterpart_item before (key_text account) counterpart = Inr old"
      "prepare_cleanup before account (key_text account) c (cleanup_projection (Some s) (pending_request_exists before account c) old) counterpart t = Inr t'"
      by (auto simp: forget_item_def)
    from base have b: "known before hosts account c \<longrightarrow> redb_view t c (key_text account) = redb_view (begin_write before) c (key_text account)"
      by (simp add: as_before_def)
    show "if True then forgets before hosts account True {c} t t' else t' = t"
      using prepare_forgets [OF key accounts o b] by simp
  qed
  moreover have "jids account ?rows = ?I"
  proof -
    have "redb_view (begin_write before) (key_text account) c \<noteq> None" if c: "fmlookup (ITEMS before) (item_key account c) = Some v" for c v
    proof -
      have "(item_key account c, v) \<in> set ?rows" using c by (simp add: table.set_scan item_key_def)
      from fold_rows_decodes [OF fold this] show ?thesis
        using ok c by (auto simp: decode_item_row_def redb_view_def begin_write_def item_key_def)
    qed
    then show ?thesis using ok unfolding jids_range by (auto simp: redb_view_def begin_write_def item_key_def split: option.splits)
  qed
  ultimately show ?thesis by simp
qed

lemma forget_senders_effect:
  assumes key: "key_ok account" and accounts: "accounts_ok before"
    and run: "forget_senders u before hosts account tx = Some (Inr tx')"
    and view: "as_before before hosts account {c. redb_view (begin_write before) (key_text account) c = None} tx"
  shows "forgets before hosts account False
    {c. redb_waits (begin_write before) (key_text account) c \<and> redb_view (begin_write before) (key_text account) c = None} tx tx'"
proof -
  let ?rows = "bt_range (in_owner_range (key_text account)) (PENDING before)"
  have fold: "fold_rows (\<lambda>e _. roster_error ''roster_cleanup'' e) (decode_sender_row u account)
      (\<lambda>contact _. forget_sender before hosts account contact) ?rows tx = Inr tx'"
    using run unfolding forget_senders_def sender_cursor.while_rows cursor_start by simp
  have ok: "owner_ok (key_text account)" using key by (simp add: key_ok_def)
  have "forgets before hosts account False {c \<in> jids account ?rows. redb_view (begin_write before) (key_text account) c = None} tx tx'"
  proof (rule fold_forgets [OF _ _ fold range_ok])
    show "decode_sender_row u account row = Inr (c, x) \<Longrightarrow> decode_key u (key_text account) (fst row) = Inr c" for row c x
      by (auto simp: decode_sender_row_def)
    show "as_before before hosts account {c \<in> jids account ?rows. redb_view (begin_write before) (key_text account) c = None} tx"
      using view by (simp add: as_before_def)
    fix c and x :: unit and t t'
    let ?v = "redb_view (begin_write before) (key_text account) c"
    assume run: "forget_sender before hosts account c t = Inr t'" and base: "?v = None \<Longrightarrow> as_before before hosts account {c} t"
    from run obtain item where i: "roster_subscription before account c = Inr item"
      "(if item \<noteq> None then Inr t else
         ok_then (other_account before hosts account c) (\<lambda>counterpart.
         ok_then (map_err (roster_error ''roster_cleanup'') (counterpart_item before (key_text account) counterpart)) (\<lambda>other.
           prepare_cleanup before account (key_text account) c (cleanup_projection None True other) counterpart t))) = Inr t'"
      by (auto simp: forget_sender_def)
    have v: "item = ?v" by (rule before_view [OF ok i(1)])
    show "if ?v = None then forgets before hosts account False {c} t t' else t' = t"
    proof (cases "?v = None")
      case True
      with i(2) v obtain counterpart old where o: "other_account before hosts account c = Inr counterpart"
        "counterpart_item before (key_text account) counterpart = Inr old"
        "prepare_cleanup before account (key_text account) c (cleanup_projection None True old) counterpart t = Inr t'"
        by auto
      from base True have "known before hosts account c \<longrightarrow> redb_view t c (key_text account) = redb_view (begin_write before) c (key_text account)"
        by (simp add: as_before_def)
      from prepare_forgets [OF key accounts o this] True show ?thesis by simp
    next
      case False
      with i(2) v have "t' = t" by simp
      with False show ?thesis by (simp only: if_False)
    qed
  qed
  moreover have "{c \<in> jids account ?rows. redb_view (begin_write before) (key_text account) c = None} =
    {c. redb_waits (begin_write before) (key_text account) c \<and> redb_view (begin_write before) (key_text account) c = None}"
    using ok unfolding jids_range by (simp add: redb_waits_def begin_write_def item_key_def)
  ultimately show ?thesis by simp
qed

lemma clear_effect:
  assumes "owner_ok (key_text account)"
  shows "redb_view (clear_roster account tx) = (\<lambda>x y. if x = key_text account then None else redb_view tx x y)"
    and "redb_waits (clear_roster account tx) = (\<lambda>x y. x \<noteq> key_text account \<and> redb_waits tx x y)"
proof -
  have range: "owner_ok x \<Longrightarrow> in_owner_range (key_text account) (item_key_text x y) \<longleftrightarrow> x = key_text account" for x y
    using item_key_owner [of "key_text account" x y] assms by (auto simp: owner_ok_def)
  show "redb_view (clear_roster account tx) = (\<lambda>x y. if x = key_text account then None else redb_view tx x y)"
    by (rule ext)+ (simp add: redb_view_def clear_roster_def Let_def table.get_keep range)
  show "redb_waits (clear_roster account tx) = (\<lambda>x y. x \<noteq> key_text account \<and> redb_waits tx x y)"
    by (rule ext)+ (auto simp: redb_waits_def clear_roster_def Let_def table.get_keep range)
qed

lemma forgotten_rows:
  assumes "forgets before hosts account item S tx tx'"
  shows "redb_view tx' x y = (if item \<and> x = key_text account \<and> y \<in> S then None
      else if y = key_text account \<and> x \<in> S \<and> known before hosts account x then map_option (cleaned item) (redb_view tx x y)
      else redb_view tx x y)"
    and "redb_waits tx' x y \<longleftrightarrow> redb_waits tx x y \<and> \<not> (x = key_text account \<and> y \<in> S) \<and>
      \<not> (item \<and> y = key_text account \<and> x \<in> S \<and> known before hosts account x)"
    and "roster_only tx tx'"
proof -
  note f = assms [unfolded forgets_def]
  show "redb_view tx' x y = (if item \<and> x = key_text account \<and> y \<in> S then None
      else if y = key_text account \<and> x \<in> S \<and> known before hosts account x then map_option (cleaned item) (redb_view tx x y)
      else redb_view tx x y)"
    by (rule f [THEN conjunct2, THEN conjunct1, THEN fun_cong, THEN fun_cong])
  show "redb_waits tx' x y \<longleftrightarrow> redb_waits tx x y \<and> \<not> (x = key_text account \<and> y \<in> S) \<and>
      \<not> (item \<and> y = key_text account \<and> x \<in> S \<and> known before hosts account x)"
    by (rule f [THEN conjunct2, THEN conjunct2, THEN fun_cong, THEN fun_cong])
  show "roster_only tx tx'" by (rule f [THEN conjunct1])
qed

lemma forget_account_parts:
  assumes run: "forget_account u ro account before hosts tx = Some (Inr (d, tx'))"
  obtains t1 t2 where "forget_items u before hosts account tx = Some (Inr t1)"
    "forget_senders u before hosts account t1 = Some (Inr t2)" "tx' = clear_roster account t2"
proof (cases "forget_items u before hosts account tx")
  case (Some r)
  show thesis
  proof (cases r)
    case (Inr t1)
    show thesis
      by (cases "forget_senders u before hosts account t1") (use run Some Inr that in \<open>auto simp: forget_account_def\<close>)
  qed (use run Some in \<open>simp add: forget_account_def\<close>)
qed (use run in \<open>simp add: forget_account_def\<close>)

lemma forget_account_effect:
  fixes account before
  defines "a \<equiv> key_text account" and "V \<equiv> redb_view (begin_write before)" and "P \<equiv> redb_waits (begin_write before)"
  assumes key: "key_ok account" and accounts: "accounts_ok before"
    and run: "forget_account u ro account before hosts tx = Some (Inr (d, tx'))"
    and start: "ITEMS (work tx) = ITEMS before" "PENDING (work tx) = PENDING before"
  shows "redb_view tx' x y = (if x = a then None
      else if y = a \<and> known before hosts account x \<and> (V a x \<noteq> None \<or> P a x) then map_option (cleaned (V a x \<noteq> None)) (V x y)
      else V x y)"
    and "redb_waits tx' x y \<longleftrightarrow> x \<noteq> a \<and> P x y \<and> \<not> (y = a \<and> known before hosts account x \<and> V a x \<noteq> None)"
    and "roster_only tx tx'"
proof -
  have ok: "owner_ok (key_text account)" using key by (simp add: key_ok_def)
  have base: "redb_view tx = V" "redb_waits tx = P"
    by (simp_all add: V_def P_def redb_view_same redb_waits_same start begin_write_def)
  obtain t1 t2 where t: "forget_items u before hosts account tx = Some (Inr t1)"
    "forget_senders u before hosts account t1 = Some (Inr t2)" "tx' = clear_roster account t2"
    by (rule forget_account_parts [OF run])
  note f1 = forgotten_rows [OF forget_items_effect [OF key accounts t(1) base(1) [unfolded V_def]], folded a_def V_def, unfolded base]
  have "as_before before hosts account {c. redb_view (begin_write before) (key_text account) c = None} t1"
    unfolding as_before_def a_def [symmetric] V_def [symmetric] f1(1) by (simp add: known_def)
  note f2 = forgotten_rows [OF forget_senders_effect [OF key accounts t(2) this], folded a_def V_def P_def]
  note c = clear_effect [OF ok, of t2, folded t(3) a_def]
  have self: "\<not> known before hosts account a" by (simp add: known_def a_def)
  have "(if x = a then None
      else if y = a \<and> x \<in> {c. P a c \<and> V a c = None} \<and> known before hosts account x
        then map_option (cleaned False) (if True \<and> x = a \<and> y \<in> {c. V a c \<noteq> None} then None
          else if y = a \<and> x \<in> {c. V a c \<noteq> None} \<and> known before hosts account x then map_option (cleaned True) (V x y) else V x y)
        else (if True \<and> x = a \<and> y \<in> {c. V a c \<noteq> None} then None
          else if y = a \<and> x \<in> {c. V a c \<noteq> None} \<and> known before hosts account x then map_option (cleaned True) (V x y) else V x y)) =
    (if x = a then None
      else if y = a \<and> known before hosts account x \<and> (V a x \<noteq> None \<or> P a x) then map_option (cleaned (V a x \<noteq> None)) (V x y)
      else V x y)"
    by (cases "V a x = None"; simp only: mem_Collect_eq simp_thms split: if_split; blast)
  then show "redb_view tx' x y = (if x = a then None
      else if y = a \<and> known before hosts account x \<and> (V a x \<noteq> None \<or> P a x) then map_option (cleaned (V a x \<noteq> None)) (V x y)
      else V x y)"
    unfolding c(1) f2(1) f1(1) by (simp only: simp_thms if_False)
  show "redb_waits tx' x y \<longleftrightarrow> x \<noteq> a \<and> P x y \<and> \<not> (y = a \<and> known before hosts account x \<and> V a x \<noteq> None)"
    unfolding c(2) f2(2) f1(2) by blast
  show "roster_only tx tx'" unfolding t(3)
    by (rule roster_only_trans [OF roster_only_trans [OF f1(3) f2(3)] roster_only_writes(4)])
qed

section \<open>Every run returns\<close>

lemma fold_rows_inv:
  assumes "\<And>c x st st'. body c x st = Inr st' \<Longrightarrow> R st st'" and "\<And>st. R st st" and "\<And>st st' st''. R st st' \<Longrightarrow> R st' st'' \<Longrightarrow> R st st''"
  shows "fold_rows fail decode body rows st = Inr st' \<Longrightarrow> R st st'"
proof (induction rows arbitrary: st)
  case (Cons row rows)
  from Cons.prems obtain c x t where "body c x st = Inr t" "fold_rows fail decode body rows t = Inr st'"
    by (auto split: sum.splits)
  with Cons.IH assms(1,3) show ?case by blast
qed (simp add: assms(2))

lemma prepare_only: "prepare_cleanup before owner a c projection counterpart tx = Inr tx' \<Longrightarrow> roster_only tx tx'"
proof -
  assume run: "prepare_cleanup before owner a c projection counterpart tx = Inr tx'"
  have rp: "roster_only t t' \<Longrightarrow> roster_only t (snd (remove_pending_request k j t'))" for t t' k j
    by (rule roster_only_trans [OF _ roster_only_writes(3)])
  have counter: "roster_only tx t \<Longrightarrow> cleanup_counterpart before owner a k projection t = Inr tx' \<Longrightarrow> roster_only tx tx'" for t k
    using rp [of tx t k a]
    by (auto simp: cleanup_counterpart_def Let_def split: option.split_asm if_splits dest: roster_only_writes(2) intro: roster_only_trans)
  from run obtain t where t: "roster_only tx t"
    "(case counterpart of None \<Rightarrow> Inr (snd (remove_pending_request owner c t))
      | Some k \<Rightarrow> cleanup_counterpart before owner a k projection (snd (remove_pending_request owner c t))) = Inr tx'"
  proof (cases "proj_owner projection = None")
    case True
    with run show thesis by (intro that [of tx]) (simp_all add: prepare_cleanup_def Let_def)
  next
    case False
    with run obtain m t where t: "remove_roster_subscription owner c tx = Inr (m, t)"
      "(case counterpart of None \<Rightarrow> Inr (snd (remove_pending_request owner c t))
        | Some k \<Rightarrow> cleanup_counterpart before owner a k projection (snd (remove_pending_request owner c t))) = Inr tx'"
      by (auto simp: prepare_cleanup_def Let_def)
    from roster_only_writes(1) [OF t(1)] t(2) show thesis by (rule that)
  qed
  then show ?thesis by (cases counterpart) (auto intro: rp counter)
qed

lemma forget_account_returns:
  "\<exists>r. forget_account u ro account before hosts tx = Some r"
  "forget_account u ro account before hosts tx = Some (Inr (d, tx')) \<Longrightarrow> roster_only tx tx'"
  "forget_account u ro account before hosts tx = Some (Inr (d, tx')) \<Longrightarrow> \<exists>rounds. d hosts' = Some rounds"
proof -
  let ?items = "fold_rows (\<lambda>e _. roster_error ''roster_cleanup'' e) (decode_item_row u account) (forget_item before hosts account)
    (bt_range (in_owner_range (key_text account)) (ITEMS before))"
  let ?senders = "fold_rows (\<lambda>e _. roster_error ''roster_cleanup'' e) (decode_sender_row u account)
    (\<lambda>c _. forget_sender before hosts account c) (bt_range (in_owner_range (key_text account)) (PENDING before))"
  have run: "forget_account u ro account before hosts tx =
    Some (ok_then (?items tx) (\<lambda>t. ok_then (?senders t) (\<lambda>t.
      Inr (forget_deliver u ro before (federates hosts (domain account)) account, clear_roster account t))))"
    unfolding forget_account_def forget_items_def forget_senders_def item_cursor.while_rows sender_cursor.while_rows cursor_start
    by (simp add: ok_then_def split: sum.splits)
  then show "\<exists>r. forget_account u ro account before hosts tx = Some r" by simp
  have only: "?items t = Inr t' \<Longrightarrow> roster_only t t'" "?senders t = Inr t' \<Longrightarrow> roster_only t t'" for t t'
    by (rule fold_rows_inv [where R = roster_only and body = "forget_item before hosts account"];
        auto simp: forget_item_def dest: prepare_only intro: roster_only_trans)
      (rule fold_rows_inv [where R = roster_only and body = "\<lambda>c _. forget_sender before hosts account c"];
        auto simp: forget_sender_def dest: prepare_only intro: roster_only_trans split: if_splits)
  assume "forget_account u ro account before hosts tx = Some (Inr (d, tx'))"
  from this [unfolded run] obtain t1 t2 where t: "?items tx = Inr t1" "?senders t1 = Inr t2" "tx' = clear_roster account t2"
    "d = forget_deliver u ro before (federates hosts (domain account)) account" by auto
  show "roster_only tx tx'" unfolding t(3)
    by (rule roster_only_trans [OF roster_only_trans [OF only(1) [OF t(1)] only(2) [OF t(2)]] roster_only_writes(4)])
  show "\<exists>rounds. d hosts' = Some rounds"
    unfolding t(4) forget_deliver_def deliver_items_def deliver_senders_def item_cursor.while_rows sender_cursor.while_rows
    by (simp split: sum.splits)
qed

section \<open>What remains is in step\<close>

definition local_jid :: "HostLookup \<Rightarrow> RosterJid \<Rightarrow> bool" where
  "local_jid hosts jid \<longleftrightarrow> local_candidate jid hosts \<noteq> None"

lemma in_step_forgotten:
  assumes "in_step x y p" and "in_step y x q"
  shows "in_step default_subscription (cleaned True y) False" "in_step (cleaned True y) default_subscription False"
    and "x = default_subscription \<Longrightarrow> in_step default_subscription (cleaned False y) p"
    and "x = default_subscription \<Longrightarrow> in_step (cleaned False y) default_subscription False"
    and "x = default_subscription \<Longrightarrow> \<not> q \<Longrightarrow> in_step y default_subscription False"
    and "x = default_subscription \<Longrightarrow> in_step default_subscription y p"
proof -
  have w: "without_to (state y) = SubNone \<or> without_to (state y) = From" by (cases "state y") simp_all
  show "in_step default_subscription (cleaned True y) False" "in_step (cleaned True y) default_subscription False"
    "x = default_subscription \<Longrightarrow> in_step default_subscription (cleaned False y) p"
    "x = default_subscription \<Longrightarrow> in_step (cleaned False y) default_subscription False"
    "x = default_subscription \<Longrightarrow> \<not> q \<Longrightarrow> in_step y default_subscription False"
    "x = default_subscription \<Longrightarrow> in_step default_subscription y p"
    using assms w by (cases "state y"; auto simp: state_defs cleaned_def)+
qed

lemma forgotten_in_step:
  fixes account before
  defines "a \<equiv> key_text account" and "V \<equiv> redb_view (begin_write before)" and "P \<equiv> redb_waits (begin_write before)"
  assumes mirror: "redb.mirror (local_jid hosts) (begin_write before)"
    and view: "\<And>x y. redb_view tx x y = (if x = a then None
      else if y = a \<and> known before hosts account x \<and> (V a x \<noteq> None \<or> P a x) then map_option (cleaned (V a x \<noteq> None)) (V x y)
      else V x y)"
    and waits: "\<And>x y. redb_waits tx x y \<longleftrightarrow> x \<noteq> a \<and> P x y \<and> \<not> (y = a \<and> known before hosts account x \<and> V a x \<noteq> None)"
    and live: "\<And>x. redb_live tx x \<longleftrightarrow> redb_live (begin_write before) x \<and> x \<noteq> a"
  shows "redb.mirror (local_jid hosts) tx"
proof -
  let ?b = "begin_write before"
  have step: "in_step (redb.sub ?b x y) (redb.sub ?b y x) (P y x)" if "local_jid hosts x" "local_jid hosts y" "x \<noteq> y" for x y
    using mirror that by (auto simp: redb.mirror_def mirrored_def P_def)
  have absent: "V x y = None" "\<not> P x y" if "\<not> redb_live ?b x" for x y
    using mirror that by (auto simp: redb.mirror_def redb.housed_def V_def P_def)
  have known: "known before hosts account x \<longleftrightarrow> redb_live ?b x" if "local_jid hosts x" "x \<noteq> a" for x
    using that by (simp add: known_def local_jid_def a_def redb_live_def account_exists_def begin_write_def)
  have gone: "redb.sub tx a y = default_subscription" "\<not> redb_waits tx a y" for y
    by (simp_all add: redb.sub_def view waits)
  have pair: "in_step default_subscription (redb.sub tx y a) (redb_waits tx y a) \<and> in_step (redb.sub tx y a) default_subscription False"
    if y: "local_jid hosts y" "y \<noteq> a" and a: "local_jid hosts a" for y
  proof (cases "redb_live ?b y")
    case False
    then have "redb.sub tx y a = default_subscription" "\<not> redb_waits tx y a"
      using absent [of y] by (simp_all add: redb.sub_def view waits)
    then show ?thesis by (simp add: state_defs)
  next
    case True
    note k = known [OF y] True
    note s = step [OF a y(1) y(2) [symmetric]] step [OF y(1) a y(2)]
    show ?thesis
    proof (cases "V a y = None")
      case None: True
      then have d: "redb.sub ?b a y = default_subscription" by (simp add: redb.sub_def V_def)
      have w: "redb_waits tx y a = P y a" using y None by (simp add: waits)
      show ?thesis
      proof (cases "P a y")
        case True
        have "redb.sub tx y a = cleaned False (redb.sub ?b y a)"
          using y k None True by (auto simp: redb.sub_def view V_def cleaned_def default_subscription_def split: option.splits)
        then show ?thesis using in_step_forgotten(3,4) [OF s d] w by simp
      next
        case False
        have "redb.sub tx y a = redb.sub ?b y a" using y k None False by (simp add: redb.sub_def view V_def)
        then show ?thesis using in_step_forgotten(5,6) [OF s d] w False by simp
      qed
    next
      case Some: False
      have "redb.sub tx y a = cleaned True (redb.sub ?b y a)"
        using y k Some by (auto simp: redb.sub_def view V_def cleaned_def default_subscription_def split: option.splits)
      moreover have "\<not> redb_waits tx y a" using k Some by (simp add: waits)
      ultimately show ?thesis using in_step_forgotten(1,2) [OF s] by simp
    qed
  qed
  have "in_step (redb.sub tx x y) (redb.sub tx y x) (redb_waits tx y x)"
    if "local_jid hosts x" "local_jid hosts y" "x \<noteq> y" for x y
  proof (cases "x = a \<or> y = a")
    case True
    with that pair [of x] pair [of y] gone show ?thesis by auto
  next
    case False
    with step [OF that] show ?thesis by (simp add: redb.sub_def view waits V_def)
  qed
  moreover have "redb.housed tx" using absent by (auto simp: redb.housed_def view waits live)
  ultimately show ?thesis by (simp add: redb.mirror_def mirrored_def)
qed

section \<open>A readable store is forgotten\<close>

text \<open>
  What one contact's cleanup leaves as it was, and the room it needs: the version of the account's roster
  grows by one at most, the version of the counterpart's is one more than in the snapshot.
\<close>

definition framed :: "Tables \<Rightarrow> HostLookup \<Rightarrow> AccountKey \<Rightarrow> RosterJid \<Rightarrow> RedbWrite \<Rightarrow> RedbWrite \<Rightarrow> bool" where
  "framed before hosts account c tx tx' \<longleftrightarrow> ACCOUNTS (work tx') = ACCOUNTS (work tx) \<and>
     (\<forall>j. j \<noteq> item_key account c \<and> \<not> (known before hosts account c \<and> j = item_key_text c (key_text account)) \<longrightarrow>
        fmlookup (ITEMS (work tx')) j = fmlookup (ITEMS (work tx)) j) \<and>
     (\<forall>j. j \<noteq> key_text account \<and> \<not> (known before hosts account c \<and> j = c) \<longrightarrow>
        fmlookup (VERSIONS (work tx')) j = fmlookup (VERSIONS (work tx)) j) \<and>
     roster_version (work tx') account \<le> roster_version (work tx) account + 1"

definition room :: "Tables \<Rightarrow> HostLookup \<Rightarrow> AccountKey \<Rightarrow> RosterJid \<Rightarrow> RedbWrite \<Rightarrow> bool" where
  "room before hosts account c tx \<longleftrightarrow> known before hosts account c \<longrightarrow>
     account_exists tx c \<and> fmlookup (ITEMS (work tx)) (item_key_text c (key_text account)) = fmlookup (ITEMS before) (item_key_text c (key_text account)) \<and>
     fmlookup (VERSIONS (work tx)) c = fmlookup (VERSIONS before) c \<and>
     (case fmlookup (VERSIONS before) c of None \<Rightarrow> 0 | Some n \<Rightarrow> n) < max_of 64"

lemma counterpart_succeeds:
  assumes k: "key_text k = c" "c \<noteq> key_text account" and room: "account_exists tx c"
      "fmlookup (ITEMS (work tx)) (item_key k a) = fmlookup (ITEMS before) (item_key k a)"
      "fmlookup (VERSIONS (work tx)) c = fmlookup (VERSIONS before) c" "roster_version before k < max_of 64"
    and item: "roster_subscription before k a = Inr old"
  obtains tx' where "cleanup_counterpart before account a k (cleanup_projection o' p old) tx = Inr tx'"
    "ACCOUNTS (work tx') = ACCOUNTS (work tx)"
    "\<And>j. j \<noteq> item_key k a \<Longrightarrow> fmlookup (ITEMS (work tx')) j = fmlookup (ITEMS (work tx)) j"
    "\<And>j. j \<noteq> c \<Longrightarrow> fmlookup (VERSIONS (work tx')) j = fmlookup (VERSIONS (work tx)) j"
proof -
  define t where "t = (if o' \<noteq> None then snd (remove_pending_request k a tx) else tx)"
  have t: "ACCOUNTS (work t) = ACCOUNTS (work tx)" "ITEMS (work t) = ITEMS (work tx)" "VERSIONS (work t) = VERSIONS (work tx)"
    by (simp_all add: t_def remove_pending_request_def Let_def)
  have po: "proj_owner (cleanup_projection o' p old) = o'" by (simp add: cleanup_projection_def)
  show thesis
  proof (cases "proj_changed (cleanup_projection o' p old)")
    case None
    then show thesis using t by (intro that [of t]) (simp_all add: cleanup_counterpart_def po Let_def t_def)
  next
    case (Some n)
    then obtain s where s: "old = Some s" "n \<noteq> s" by (auto simp: cleanup_changed then_some_def bind_eq_Some_conv split: if_splits)
    then obtain row where row: "fmlookup (ITEMS before) (item_key k a) = Some row" "decode_subscription row = Inr s"
      using item by (auto simp: roster_subscription_def split: option.splits)
    have ex: "account_exists t c" using room(1) t by (simp add: account_exists_def)
    let ?v = "roster_version before k + 1"
    let ?t = "t\<lparr>work := (work t)\<lparr>ITEMS := fmupd (item_key k a) (encode_subscription n @ drop 2 row) (ITEMS (work t)),
      VERSIONS := fmupd c ?v (VERSIONS (work t))\<rparr>\<rparr>"
    have adv: "advance_version c (t\<lparr>work := (work t)\<lparr>ITEMS := i\<rparr>\<rparr>) = Inr (?v, t\<lparr>work := (work t)\<lparr>ITEMS := i, VERSIONS := fmupd c ?v (VERSIONS (work t))\<rparr>\<rparr>)" for i
      using room(3,4) t k(1) by (simp add: advance_version_Inr roster_version_def)
    have "set_roster_subscription before k a n t = Inr (Some ?v, ?t)"
      using ex k(1) row s room(2) t adv by (simp add: set_roster_subscription_def copy_subscription_def)
    moreover have "cleanup_version before k = Inr ?v" using room(4) by (simp add: cleanup_version_def checked_add_def)
    ultimately have "cleanup_counterpart before account a k (cleanup_projection o' p old) tx = Inr ?t"
      unfolding cleanup_counterpart_def po Let_def t_def [symmetric] Some by simp
    then show thesis by (rule that) (use t in simp_all)
  qed
qed

lemma prepare_succeeds:
  fixes account
  defines "a \<equiv> key_text account"
  assumes key: "key_ok account" and accounts: "accounts_ok before"
    and other: "other_account before hosts account c = Inr counterpart"
    and item: "counterpart_item before a counterpart = Inr old"
    and room: "room before hosts account c tx"
    and own: "o' \<noteq> None \<Longrightarrow> roster_subscription (work tx) account c = Inr (Some s)"
      "o' \<noteq> None \<Longrightarrow> roster_version (work tx) account < max_of 64"
  obtains tx' where "prepare_cleanup before account a c (cleanup_projection o' p old) counterpart tx = Inr tx'"
    "framed before hosts account c tx tx'"
proof -
  have ok: "owner_ok a" using key by (simp add: key_ok_def a_def)
  obtain t where t: "(if o' \<noteq> None then ok_then (remove_roster_subscription account c tx) (\<lambda>(_, tx). Inr tx) else Inr tx) = Inr t"
    "ACCOUNTS (work t) = ACCOUNTS (work tx)"
    "\<And>j. j \<noteq> item_key account c \<Longrightarrow> fmlookup (ITEMS (work t)) j = fmlookup (ITEMS (work tx)) j"
    "\<And>j. j \<noteq> a \<Longrightarrow> fmlookup (VERSIONS (work t)) j = fmlookup (VERSIONS (work tx)) j"
    "roster_version (work t) account \<le> roster_version (work tx) account + 1"
  proof (cases "o' = None")
    case False
    then obtain row where row: "fmlookup (ITEMS (work tx)) (item_key account c) = Some row" "decode_subscription row = Inr s"
      using own(1) by (auto simp: roster_subscription_def split: option.splits)
    let ?t = "tx\<lparr>work := (work tx)\<lparr>ITEMS := fmdrop (item_key account c) (ITEMS (work tx)),
      VERSIONS := fmupd a (roster_version (work tx) account + 1) (VERSIONS (work tx))\<rparr>\<rparr>"
    have "remove_roster_subscription account c tx = Inr (Some \<lparr>version = roster_version (work tx) account + 1, mutated = s\<rparr>, ?t)"
      using row own(2) [OF False] by (simp add: remove_roster_subscription_def advance_version_Inr roster_version_def a_def)
    with False show thesis by (intro that [of ?t]) (simp_all add: roster_version_def a_def)
  qed (rule that [of tx], simp_all)
  define w where "w = snd (remove_pending_request account c t)"
  have w: "ACCOUNTS (work w) = ACCOUNTS (work t)" "ITEMS (work w) = ITEMS (work t)" "VERSIONS (work w) = VERSIONS (work t)"
    by (simp_all add: w_def remove_pending_request_def Let_def)
  have po: "proj_owner (cleanup_projection o' p old) = o'" by (simp add: cleanup_projection_def)
  have run: "prepare_cleanup before account a c (cleanup_projection o' p old) counterpart tx =
    map_err (roster_error ''roster_cleanup'') (case counterpart of None \<Rightarrow> Inr w
      | Some k \<Rightarrow> cleanup_counterpart before account a k (cleanup_projection o' p old) w)"
    unfolding prepare_cleanup_def po t(1) w_def by (simp add: Let_def)
  show thesis
  proof (cases counterpart)
    case None
    have "prepare_cleanup before account a c (cleanup_projection o' p old) counterpart tx = Inr w" unfolding run by (simp add: None)
    moreover have "framed before hosts account c tx w" using t(2-5) w by (simp add: framed_def a_def roster_version_def)
    ultimately show thesis by (rule that)
  next
    case (Some k)
    note k = other_account_cases(1) [OF other key Some]
    have neq: "c \<noteq> a" and okc: "owner_ok c" using k accounts by (auto simp: known_def a_def accounts_ok_def)
    have ik: "item_key k a = item_key_text c a" "item_key_text c a \<noteq> item_key account c"
      using k neq item_key_iff [OF okc ok] by (simp_all add: item_key_def a_def)
    have exists: "account_exists w c" using room k t(2) w by (simp add: room_def account_exists_def)
    have row: "fmlookup (ITEMS (work w)) (item_key k a) = fmlookup (ITEMS before) (item_key k a)"
      using room k t(3) ik w by (simp add: room_def a_def)
    have ver: "fmlookup (VERSIONS (work w)) c = fmlookup (VERSIONS before) c"
      using room k t(4) [OF neq] w by (simp add: room_def)
    have bound: "roster_version before k < max_of 64" using room k by (simp add: room_def roster_version_def)
    have read: "roster_subscription before k a = Inr old" using item Some by (simp add: counterpart_item_def)
    obtain tx' where tx': "cleanup_counterpart before account a k (cleanup_projection o' p old) w = Inr tx'"
      "ACCOUNTS (work tx') = ACCOUNTS (work w)"
      "\<And>j. j \<noteq> item_key k a \<Longrightarrow> fmlookup (ITEMS (work tx')) j = fmlookup (ITEMS (work w)) j"
      "\<And>j. j \<noteq> c \<Longrightarrow> fmlookup (VERSIONS (work tx')) j = fmlookup (VERSIONS (work w)) j"
      by (rule counterpart_succeeds [OF _ neq [unfolded a_def] exists row ver bound read]) (use k in auto)
    have "framed before hosts account c tx tx'"
      using tx'(2) tx'(3) [unfolded ik(1)] tx'(4) w t(2) t(3) t(4) t(5) k neq by (auto simp: framed_def a_def roster_version_def)
    moreover have "prepare_cleanup before account a c (cleanup_projection o' p old) counterpart tx = Inr tx'"
      unfolding run by (simp add: Some tx'(1))
    ultimately show thesis using that by blast
  qed
qed

lemma framed_room:
  assumes frame: "framed before hosts account c tx tx'" and key: "key_ok account" and accounts: "accounts_ok before" and neq: "c' \<noteq> c"
  shows "room before hosts account c' tx \<Longrightarrow> room before hosts account c' tx'"
    and "fmlookup (ITEMS (work tx')) (item_key account c') = fmlookup (ITEMS (work tx)) (item_key account c')"
proof -
  have ok: "owner_ok (key_text account)" using key by (simp add: key_ok_def)
  have okc: "owner_ok x" if "known before hosts account x" for x using that accounts by (auto simp: known_def accounts_ok_def)
  have own: "item_key_text x y = item_key account z \<longleftrightarrow> x = key_text account \<and> y = z" if "known before hosts account x" for x y z
    using item_key_iff [OF okc [OF that] ok] by (simp add: item_key_def)
  show "fmlookup (ITEMS (work tx')) (item_key account c') = fmlookup (ITEMS (work tx)) (item_key account c')"
  proof -
    have "item_key account c' \<noteq> item_key account c" using neq item_key_inject by (simp add: item_key_def)
    moreover have "\<not> (known before hosts account c \<and> item_key account c' = item_key_text c (key_text account))"
      using own [of c "key_text account" c'] by (auto simp: known_def)
    ultimately show ?thesis using frame unfolding framed_def by blast
  qed
  assume room: "room before hosts account c' tx"
  show "room before hosts account c' tx'" unfolding room_def
  proof
    assume k: "known before hosts account c'"
    then have k': "c' \<noteq> key_text account" by (simp add: known_def)
    have "item_key_text c' (key_text account) \<noteq> item_key account c" using own [OF k] k' by simp
    moreover have "known before hosts account c \<Longrightarrow> item_key_text c' (key_text account) \<noteq> item_key_text c (key_text account)"
      using item_key_iff [OF okc [OF k] okc] neq by simp
    ultimately show "account_exists tx' c' \<and> fmlookup (ITEMS (work tx')) (item_key_text c' (key_text account)) =
        fmlookup (ITEMS before) (item_key_text c' (key_text account)) \<and> fmlookup (VERSIONS (work tx')) c' = fmlookup (VERSIONS before) c' \<and>
      (case fmlookup (VERSIONS before) c' of None \<Rightarrow> 0 | Some n \<Rightarrow> n) < max_of 64"
      using room k k' neq frame unfolding room_def framed_def account_exists_def by simp
  qed
qed

lemma fold_succeeds:
  assumes key: "key_ok account" and accounts: "accounts_ok before"
    and decode: "\<And>row c x. decode row = Inr (c, x) \<Longrightarrow> decode_key u (key_text account) (fst row) = Inr c"
    and body: "\<And>c x tx. P c \<Longrightarrow> room before hosts account c tx \<Longrightarrow>
        (item \<Longrightarrow> fmlookup (ITEMS (work tx)) (item_key account c) = fmlookup (ITEMS before) (item_key account c) \<and>
          fmlookup (ITEMS before) (item_key account c) \<noteq> None \<and> roster_version (work tx) account < max_of 64) \<Longrightarrow>
        \<exists>tx'. body c x tx = Inr tx' \<and> framed before hosts account c tx tx'"
      "\<And>c x tx. \<not> P c \<Longrightarrow> body c x tx = Inr tx"
  shows "\<forall>row \<in> set rows. \<exists>p. decode row = Inr p \<Longrightarrow> distinct (map fst rows) \<Longrightarrow>
    list_all (in_owner_range (key_text account) \<circ> fst) rows \<Longrightarrow>
    \<forall>c \<in> jids account rows. P c \<longrightarrow> room before hosts account c tx \<Longrightarrow>
    (item \<Longrightarrow> roster_version (work tx) account + length rows \<le> max_of 64 \<and> (\<forall>c \<in> jids account rows.
      fmlookup (ITEMS (work tx)) (item_key account c) = fmlookup (ITEMS before) (item_key account c) \<and>
      fmlookup (ITEMS before) (item_key account c) \<noteq> None)) \<Longrightarrow>
    \<exists>tx'. fold_rows fail decode body rows tx = Inr tx' \<and>
      (\<forall>c'. c' \<notin> jids account rows \<longrightarrow> room before hosts account c' tx \<longrightarrow> room before hosts account c' tx')"
proof (induction rows arbitrary: tx)
  case (Cons row rows)
  from Cons.prems(1) obtain c x where t: "decode row = Inr (c, x)" by fastforce
  have key': "fst row = item_key account c"
    using decode [OF t] Cons.prems(3) by (auto simp: in_owner_range_iff item_key_def dest: decode_jid_text)
  have jids: "jids account (row # rows) = insert c (jids account rows)" "c \<notin> jids account rows"
    using Cons.prems(2) key' item_key_inject by (auto simp: jids_def item_key_def)
  obtain tx' where tx': "body c x tx = Inr tx'" "framed before hosts account c tx tx' \<or> tx' = tx"
  proof (cases "P c")
    case True
    have "\<exists>tx'. body c x tx = Inr tx' \<and> framed before hosts account c tx tx'"
      by (rule body(1) [OF True]) (use Cons.prems(4,5) True jids in auto)
    then show thesis using that by blast
  qed (use body(2) that in blast)
  have keep: "room before hosts account c' tx \<Longrightarrow> room before hosts account c' tx'"
    "fmlookup (ITEMS (work tx')) (item_key account c') = fmlookup (ITEMS (work tx)) (item_key account c')" if "c' \<noteq> c" for c'
    using tx'(2) framed_room [OF _ key accounts that, of hosts tx tx'] by auto
  have "roster_version (work tx') account \<le> roster_version (work tx) account + 1" using tx'(2) by (auto simp: framed_def)
  then have "\<exists>t. fold_rows fail decode body rows tx' = Inr t \<and>
      (\<forall>c'. c' \<notin> jids account rows \<longrightarrow> room before hosts account c' tx' \<longrightarrow> room before hosts account c' t)"
  proof (intro Cons.IH)
    have other: "c' \<noteq> c" if "c' \<in> jids account rows" for c' using that jids(2) by blast
    show "\<forall>c' \<in> jids account rows. P c' \<longrightarrow> room before hosts account c' tx'"
      using Cons.prems(4) jids(1) keep(1) [OF other] by blast
    show "item \<Longrightarrow> roster_version (work tx') account + length rows \<le> max_of 64 \<and> (\<forall>c \<in> jids account rows.
        fmlookup (ITEMS (work tx')) (item_key account c) = fmlookup (ITEMS before) (item_key account c) \<and>
        fmlookup (ITEMS before) (item_key account c) \<noteq> None)"
      using Cons.prems(5) jids(1) keep(2) [OF other] \<open>roster_version (work tx') account \<le> roster_version (work tx) account + 1\<close> by simp
  qed (use Cons.prems(1-3) in simp_all)
  then show ?case using t tx'(1) keep jids by auto
qed simp

text \<open>A store whose rows all decode and whose roster versions leave room for one change per item.\<close>

definition forgettable :: "UnicodeData \<Rightarrow> RosterQuota \<Rightarrow> nat \<Rightarrow> Tables \<Rightarrow> bool" where
  "forgettable u quota limit t \<longleftrightarrow> store_ok u quota limit t \<and> accounts_valid u t \<and> accounts_ok t \<and>
     (\<forall>k. (case fmlookup (VERSIONS t) k of None \<Rightarrow> 0 | Some n \<Rightarrow> n) + fcard (fmdom (ITEMS t)) < max_of 64)"

lemma length_range: "length (bt_range P t) \<le> fcard (fmdom t)"
proof -
  have "length (bt_range P t) \<le> length (bt_keys t)"
    unfolding bt_range_def by (metis bt_entries_fst length_filter_le length_map)
  also have "\<dots> = fcard (fmdom t)" by (simp add: bt_keys_def sorted_list_of_fset.rep_eq fcard.rep_eq)
  finally show ?thesis .
qed

lemma readable_account:
  assumes "accounts_valid u t"
  shows "\<exists>counterpart. other_account t hosts account c = Inr counterpart"
proof -
  have read: "\<exists>a. read_account t k = Inr a" for k
  proof (cases "fmlookup (ACCOUNTS t) (key_text k)")
    case (Some r)
    then obtain cr where "decode_credentials r = Inr cr" using assms unfolding accounts_valid_def by blast
    with Some show ?thesis by (simp add: read_account_def)
  qed (simp add: read_account_def)
  show ?thesis
  proof (cases "local_candidate c hosts")
    case (Some k)
    from read [of k] obtain r where "read_account t k = Inr r" by blast
    with Some show ?thesis by (simp add: other_account_def stored_local_account_def account_known_def)
  qed (simp add: other_account_def stored_local_account_def)
qed

lemma readable_item:
  assumes "items_ok u quota (ITEMS t)" and "owner_ok (key_text k)"
  shows "\<exists>s. roster_subscription t k c = Inr s"
    and "fmlookup (ITEMS t) (item_key k c) \<noteq> None \<Longrightarrow> \<exists>s. roster_subscription t k c = Inr (Some s)"
proof -
  have "\<exists>s. decode_subscription v = Inr s" if "fmlookup (ITEMS t) (item_key k c) = Some v" for v
    using items_okD(2) [OF assms, of "item_key k c" v] that by (auto simp: item_key_def stored_item_def)
  then show "\<exists>s. roster_subscription t k c = Inr s" "fmlookup (ITEMS t) (item_key k c) \<noteq> None \<Longrightarrow> \<exists>s. roster_subscription t k c = Inr (Some s)"
    by (auto simp: roster_subscription_def split: option.splits)
qed

lemma readable_counterpart:
  assumes "items_ok u quota (ITEMS t)" and "accounts_ok t" and "key_ok account" and "other_account t hosts account c = Inr counterpart"
  shows "\<exists>old. counterpart_item t a counterpart = Inr old"
proof (cases counterpart)
  case (Some k)
  from other_account_cases(1) [OF assms(4,3) Some] assms(2) have "owner_ok (key_text k)" by (auto simp: known_def accounts_ok_def)
  from readable_item(1) [OF assms(1) this] Some show ?thesis by (simp add: counterpart_item_def)
qed (simp add: counterpart_item_def)

lemma forget_account_succeeds:
  fixes account
  defines "a \<equiv> key_text account"
  assumes key: "key_ok account" and store: "forgettable u quota limit before"
    and start: "ITEMS (work tx) = ITEMS before" "VERSIONS (work tx) = VERSIONS before" "ACCOUNTS (work tx) = fmdrop a (ACCOUNTS before)"
  shows "\<exists>d tx'. forget_account u ro account before hosts tx = Some (Inr (d, tx'))"
proof -
  let ?items = "bt_range (in_owner_range a) (ITEMS before)" and ?senders = "bt_range (in_owner_range a) (PENDING before)"
  let ?fail = "\<lambda>e _. roster_error ''roster_cleanup'' e"
  have ok: "owner_ok a" using key by (simp add: key_ok_def a_def)
  have items: "items_ok u quota (ITEMS before)" and pending: "pending_ok u limit (PENDING before)"
    and valid: "accounts_valid u before" and accounts: "accounts_ok before"
    and bound: "(case fmlookup (VERSIONS before) k of None \<Rightarrow> 0 | Some n \<Rightarrow> n) + fcard (fmdom (ITEMS before)) < max_of 64" for k
    using store by (simp_all add: forgettable_def store_ok_def)
  have room: "room before hosts account c tx" for c
    using start bound [of c] by (auto simp: room_def known_def account_exists_def a_def item_key_def)
  have ver: "roster_version (work tx) account + length ?items \<le> max_of 64"
    using bound [of a] length_range [of "in_owner_range a" "ITEMS before"] start(2) by (simp add: roster_version_def a_def)
  have item_rows: "\<exists>p. decode_item_row u account row = Inr p" if "row \<in> set ?items" for row
    using items_okD(2) [OF items ok, of "fst row" "snd row"] that
    by (auto simp: table.set_scan decode_item_row_def a_def stored_item_def valid_item_def)
  have sender_rows: "\<exists>p. decode_sender_row u account row = Inr p" if "row \<in> set ?senders" for row
    using pending_okD(2) [OF pending ok] that
    by (auto simp: table.set_scan decode_sender_row_def a_def in_owner_range_iff)
  obtain t where t: "fold_rows ?fail (decode_item_row u account) (forget_item before hosts account) ?items tx = Inr t"
    "\<And>c'. c' \<notin> jids account ?items \<Longrightarrow> room before hosts account c' t"
  proof -
    have "\<exists>t. fold_rows ?fail (decode_item_row u account) (forget_item before hosts account) ?items tx = Inr t \<and>
      (\<forall>c'. c' \<notin> jids account ?items \<longrightarrow> room before hosts account c' tx \<longrightarrow> room before hosts account c' t)"
    proof (rule fold_succeeds [where P = "\<lambda>_. True" and item = True, OF key accounts])
      fix c s t
      assume r: "room before hosts account c t" and "True \<Longrightarrow> fmlookup (ITEMS (work t)) (item_key account c) = fmlookup (ITEMS before) (item_key account c) \<and>
          fmlookup (ITEMS before) (item_key account c) \<noteq> None \<and> roster_version (work t) account < max_of 64"
      then have own: "fmlookup (ITEMS (work t)) (item_key account c) = fmlookup (ITEMS before) (item_key account c)"
        "fmlookup (ITEMS before) (item_key account c) \<noteq> None" "roster_version (work t) account < max_of 64" by auto
      obtain counterpart where o: "other_account before hosts account c = Inr counterpart" using readable_account [OF valid] by blast
      obtain old where old: "counterpart_item before a counterpart = Inr old" using readable_counterpart [OF items accounts key o] by blast
      obtain s' where "roster_subscription before account c = Inr (Some s')" using readable_item(2) [OF items ok [unfolded a_def] own(2)] by blast
      then have own': "roster_subscription (work t) account c = Inr (Some s')" using own(1) by (simp add: roster_subscription_def)
      show "\<exists>t'. forget_item before hosts account c s t = Inr t' \<and> framed before hosts account c t t'"
        by (rule prepare_succeeds [OF key accounts o old [unfolded a_def] r own' own(3), of "Some s" "pending_request_exists before account c"])
          (auto simp: forget_item_def o old a_def [symmetric])
    qed (use item_rows range_ok [of a] room ver start(1) in \<open>auto simp: decode_item_row_def a_def jids_range\<close>)
    with room that show thesis by blast
  qed
  have "\<exists>t'. fold_rows ?fail (decode_sender_row u account) (\<lambda>c _. forget_sender before hosts account c) ?senders t = Inr t' \<and>
      (\<forall>c'. c' \<notin> jids account ?senders \<longrightarrow> room before hosts account c' t \<longrightarrow> room before hosts account c' t')"
  proof (rule fold_succeeds [where P = "\<lambda>c. fmlookup (ITEMS before) (item_key account c) = None" and item = False, OF key accounts])
    fix c t and x :: unit
    assume c: "fmlookup (ITEMS before) (item_key account c) = None" and r: "room before hosts account c t"
    obtain counterpart where o: "other_account before hosts account c = Inr counterpart" using readable_account [OF valid] by blast
    obtain old where old: "counterpart_item before a counterpart = Inr old" using readable_counterpart [OF items accounts key o] by blast
    show "\<exists>t'. forget_sender before hosts account c t = Inr t' \<and> framed before hosts account c t t'"
      by (rule prepare_succeeds [OF key accounts o old [unfolded a_def] r, of None undefined True])
        (use c in \<open>auto simp: forget_sender_def roster_subscription_def o old a_def [symmetric]\<close>)
  next
    fix c t and x :: unit
    assume "\<not> fmlookup (ITEMS before) (item_key account c) = None"
    then show "forget_sender before hosts account c t = Inr t"
      using readable_item(2) [OF items ok [unfolded a_def]] by (auto simp: forget_sender_def)
  qed (use sender_rows range_ok [of a] t(2) in \<open>auto simp: decode_sender_row_def a_def jids_range\<close>)
  then obtain t' where t': "fold_rows ?fail (decode_sender_row u account) (\<lambda>c _. forget_sender before hosts account c) ?senders t = Inr t'"
    by blast
  show ?thesis
    unfolding forget_account_def forget_items_def forget_senders_def item_cursor.while_rows sender_cursor.while_rows cursor_start a_def [symmetric] t(1)
    by (simp add: t')
qed

end
