(* ===== verification/Offline_Handlers.thy ===== *)
theory Offline_Handlers
  imports Extension
begin

text \<open>
  The offline extension (\<open>lonewolf-extension/src/offline/\<close> \<open>mod.rs\<close> and \<open>xml.rs\<close>): which undeliverable
  messages it stores and with what stamp, the backlog of a newly available resource, its acknowledgement,
  and what it forgets of a deleted account. A time is in nanoseconds from the epoch; \<open>rfc3339\<close> is the
  formatting of the \<open>time\<close> crate (\<open>None\<close> where it fails or the text takes more than 20 bytes), \<open>redb_max\<close> as
  in \<open>Content_Stores\<close>.
\<close>

section \<open>Definitions\<close>

record UndeliverableMessage =
  um_recipient :: AccountKey
  um_stanza :: Stanza
  um_received_at :: int

datatype StoreOutcome = Stored nat | Discarded | NoRecipient

record Backlog =
  backlog_messages :: "StoredMessage list"
  backlog_through :: nat

type_synonym Offline = "(string, nat) fmap"

definition DEFAULT_MAX_MESSAGES_PER_ACCOUNT :: nat where
  "DEFAULT_MAX_MESSAGES_PER_ACCOUNT = 100"

definition offline_limit :: "Offline \<Rightarrow> string \<Rightarrow> nat" where
  "offline_limit limits host = (case fmlookup limits host of None \<Rightarrow> DEFAULT_MAX_MESSAGES_PER_ACCOUNT | Some n \<Rightarrow> n)"

definition CHAT_STATES_NAMESPACE :: string where
  "CHAT_STATES_NAMESPACE = ''http://jabber.org/protocol/chatstates''"

definition DELAY_NAMESPACE :: string where
  "DELAY_NAMESPACE = ''urn:xmpp:delay''"

fun chat_state_children :: "Element list \<Rightarrow> bool \<Rightarrow> bool" where
  "chat_state_children [] has_chat_state = has_chat_state"
| "chat_state_children (child # rest) has_chat_state =
     (if el_namespace child = CHAT_STATES_NAMESPACE then chat_state_children rest True
      else if el_namespace child \<noteq> CLIENT_NAMESPACE \<or> el_name child \<noteq> ''thread'' then False
      else chat_state_children rest has_chat_state)"

definition chat_state_only :: "Stanza \<Rightarrow> bool" where
  "chat_state_only s = chat_state_children (children s) False"

definition own_delay :: "AccountKey \<Rightarrow> Element \<Rightarrow> bool" where
  "own_delay recipient child \<longleftrightarrow>
     el_name child = ''delay'' \<and> el_namespace child = DELAY_NAMESPACE \<and> ref_attribute child ''from'' '''' = Some (domain recipient)"

definition delay_element :: "AccountKey \<Rightarrow> string \<Rightarrow> (BuildError, Element) result" where
  "delay_element recipient stamp =
     ok_then (element_builder_in ''delay'' DELAY_NAMESPACE) (\<lambda>b.
     ok_then (element_attribute ''from'' '''' (domain recipient) b) (\<lambda>b.
     ok_then (element_attribute ''stamp'' '''' stamp b) element_build))"

definition stamped :: "(nat \<Rightarrow> string option) \<Rightarrow> UndeliverableMessage \<Rightarrow> (StanzaErrorCondition, nat \<times> string) result" where
  "stamped rfc3339 m =
     (if um_received_at m < 0 then Inl InternalServerError
      else
        (let at = nat (um_received_at m div 1000000000) in
         if max_of 63 < at then Inl InternalServerError
         else
           ok_then (ok_or InternalServerError (rfc3339 at)) (\<lambda>stamp.
           map_err (\<lambda>_. InternalServerError)
             (ok_then (delay_element (um_recipient m) stamp) (\<lambda>delay.
              ok_then (to_builder_in_filtered (um_stanza m) (\<lambda>child. \<not> own_delay (um_recipient m) child)) (\<lambda>b.
              ok_then (stanza_build (stanza_child delay b)) (\<lambda>s.
                Inr (at, stanza_write_xml s))))))))"

definition offline_error :: "string \<Rightarrow> OfflineError \<Rightarrow> HandlerError" where
  "offline_error operation e =
     (case e of
        OfflineNoAccount \<Rightarrow> StanzaFailed ServiceUnavailable
      | OfflineTooLarge \<Rightarrow> Described ResourceConstraint
          (StaticText ''The message exceeds the offline storage size limit. Send a smaller message.'')
      | OfflineStorage kind \<Rightarrow> Internal InternalServerError \<lparr>failure_kind = StorageFailure kind, failure_operation = operation\<rparr>)"

definition store_error :: "string \<Rightarrow> OfflineError \<Rightarrow> (HandlerError, StoreOutcome) result" where
  "store_error operation e = (if e = OfflineNoAccount then Inr NoRecipient else Inl (offline_error operation e))"

definition offline_store :: "nat \<Rightarrow> (nat \<Rightarrow> string option) \<Rightarrow> Offline \<Rightarrow> UndeliverableMessage \<Rightarrow> (HandlerError, StoreOutcome) txn" where
  "offline_store redb_max rfc3339 limits m tx =
     (if stanza_type (header (um_stanza m)) \<noteq> MessageStanza NormalMessage \<and> stanza_type (header (um_stanza m)) \<noteq> MessageStanza ChatMessage
      then Inl (StanzaFailed ServiceUnavailable)
      else if chat_state_only (um_stanza m) then Inr (Discarded, tx)
      else
        (let limit = offline_limit limits (domain (um_recipient m)) in
         if limit \<le> offline_count (work tx) (um_recipient m)
         then Inl (Described ResourceConstraint (Limit ''The offline message queue has reached its limit of '' limit
                '' messages. Retry after the recipient retrieves queued messages.''))
         else
           ok_then (map_err StanzaFailed (stamped rfc3339 m)) (\<lambda>(at, text).
             (case push_offline_message redb_max (um_recipient m) at (as_bytes text) tx of
                Inr (seq, tx) \<Rightarrow> Inr (Stored seq, tx)
              | Inl e \<Rightarrow> ok_then (store_error ''offline_push'' e) (\<lambda>out. Inr (out, tx))))))"

definition offline_backlog :: "AccountKey \<Rightarrow> Tables \<Rightarrow> (HandlerError, Backlog option) result" where
  "offline_backlog account t =
     ok_then (map_err (offline_error ''offline_backlog'') (offline_messages t account)) (\<lambda>messages.
       Inr (if messages = [] then None
            else Some \<lparr>backlog_messages = messages, backlog_through = sequence (List.last messages)\<rparr>))"

definition offline_acknowledge :: "AccountKey \<Rightarrow> nat \<Rightarrow> RedbWrite \<Rightarrow> RedbWrite" where
  "offline_acknowledge account through tx = snd (remove_offline_messages_through account through tx)"

definition offline_acknowledge_one :: "AccountKey \<Rightarrow> nat \<Rightarrow> RedbWrite \<Rightarrow> RedbWrite" where
  "offline_acknowledge_one account seq tx = snd (remove_offline_message account seq tx)"

end
