(* ===== verification/Account_Deletion.thy ===== *)
theory Account_Deletion
  imports Roster_Cleanup Offline_Handlers
begin

text \<open>
  Deletion of an account (\<open>lonewolf-core/src/account_deletion.rs\<close>): one transaction removes the record, lets
  every account handler of the host forget its state, clears the stores that have no handler and commits.
  The deliveries run after the commit; their failures, and a failure to end the account's sessions, do not
  change the answer. The account handlers of the server are the roster's and the offline extension's.
\<close>

section \<open>Definitions\<close>

type_synonym AccountHandler = "AccountKey \<Rightarrow> Tables \<Rightarrow> HostLookup \<Rightarrow> RedbWrite
  \<Rightarrow> (HandlerError, (HostLookup \<Rightarrow> Deliver option) \<times> RedbWrite) result option"

definition offline_forget_account :: AccountHandler where
  "offline_forget_account account before hosts tx =
     Some (Inr ((\<lambda>_. Some (deliver effects_none)), clear_offline_messages account tx))"

datatype BoxedError = BoxedAccount AccountError | BoxedText string

datatype DeleterError = DeleterStorage StorageErrorKind | DeleterOther BoxedError

definition deleter_of_account :: "AccountError \<Rightarrow> DeleterError" where
  "deleter_of_account e = (case e of AccountStorage kind \<Rightarrow> DeleterStorage kind | _ \<Rightarrow> DeleterOther (BoxedAccount e))"

definition deleter_error :: "string \<Rightarrow> DeleterError" where
  "deleter_error reason = DeleterOther (BoxedText reason)"

fun run_handlers :: "AccountHandler list \<Rightarrow> AccountKey \<Rightarrow> Tables \<Rightarrow> HostLookup \<Rightarrow> RedbWrite
    \<Rightarrow> (HandlerError, (HostLookup \<Rightarrow> Deliver option) list \<times> RedbWrite) result option" where
  "run_handlers [] account before hosts tx = Some (Inr ([], tx))"
| "run_handlers (handler # handlers) account before hosts tx =
     Option.bind (handler account before hosts tx) (\<lambda>r.
       (case r of
          Inl e \<Rightarrow> Some (Inl e)
        | Inr (d, tx) \<Rightarrow>
            Option.bind (run_handlers handlers account before hosts tx) (\<lambda>r.
              Some (ok_then r (\<lambda>(ds, tx). Inr (d # ds, tx))))))"

record Deletion =
  existed :: bool
  deliveries :: "(HostLookup \<Rightarrow> Deliver option) list"
  remaining :: Tables

definition remove_record :: "AccountKey \<Rightarrow> RedbWrite \<Rightarrow> (DeleterError, bool \<times> RedbWrite) result" where
  "remove_record account tx =
     (case delete_account account tx of
        Inr (_, tx) \<Rightarrow> Inr (True, tx)
      | Inl NotFound \<Rightarrow> Inr (False, tx)
      | Inl e \<Rightarrow> Inl (deleter_of_account e))"

definition clear_content :: "AccountKey \<Rightarrow> RedbWrite \<Rightarrow> RedbWrite" where
  "clear_content account tx = clear_private_xml account (delete_vcard account (clear_offline_messages account tx))"

definition delete :: "AccountHandler list \<Rightarrow> HostLookup \<Rightarrow> AccountKey \<Rightarrow> Tables \<Rightarrow> (DeleterError, Deletion) result option" where
  "delete handlers hosts account db =
     (case remove_record account (begin_write db) of
        Inl e \<Rightarrow> Some (Inl e)
      | Inr (found, tx) \<Rightarrow>
          map_option (\<lambda>r.
            (case r of
               Inl _ \<Rightarrow> Inl (deleter_error ''an extension could not forget the account'')
             | Inr (ds, tx) \<Rightarrow> Inr \<lparr>existed = found, deliveries = ds, remaining = commit (clear_content account tx)\<rparr>))
            (run_handlers handlers account (begin_read db) hosts tx))"

section \<open>Handlers\<close>

text \<open>The contract of an account handler: it returns, and leaves the accounts and the snapshot alone.\<close>

definition all_return :: "AccountHandler list \<Rightarrow> AccountKey \<Rightarrow> Tables \<Rightarrow> HostLookup \<Rightarrow> bool" where
  "all_return handlers account before hosts \<longleftrightarrow> (\<forall>tx. \<exists>r. run_handlers handlers account before hosts tx = Some r \<and>
     (\<forall>ds tx' d hosts'. r = Inr (ds, tx') \<longrightarrow> d \<in> set ds \<longrightarrow> (\<exists>rounds. d hosts' = Some rounds)))"

locale account_handler =
  fixes handler :: AccountHandler
  assumes returns: "\<exists>r. handler account before hosts tx = Some r"
    and accounts_kept: "handler account before hosts tx = Some (Inr (d, tx')) \<Longrightarrow>
      ACCOUNTS (work tx') = ACCOUNTS (work tx) \<and> committed tx' = committed tx"
    and delivers: "handler account before hosts tx = Some (Inr (d, tx')) \<Longrightarrow> \<exists>rounds. d hosts' = Some rounds"
begin

lemma run_Cons:
  assumes "all_return handlers account before hosts"
  shows "all_return (handler # handlers) account before hosts"
  unfolding all_return_def
proof
  fix tx
  obtain r where r: "handler account before hosts tx = Some r" using returns by blast
  show "\<exists>r. run_handlers (handler # handlers) account before hosts tx = Some r \<and>
    (\<forall>ds tx' d hosts'. r = Inr (ds, tx') \<longrightarrow> d \<in> set ds \<longrightarrow> (\<exists>rounds. d hosts' = Some rounds))"
  proof (cases r)
    case (Inr p)
    obtain d t where p: "p = (d, t)" by force
    have d: "\<exists>rounds. d hosts' = Some rounds" for hosts' using delivers r Inr p by blast
    from assms obtain q where q: "run_handlers handlers account before hosts t = Some q"
      "\<forall>ds tx' d hosts'. q = Inr (ds, tx') \<longrightarrow> d \<in> set ds \<longrightarrow> (\<exists>rounds. d hosts' = Some rounds)"
      unfolding all_return_def by blast
    show ?thesis using r Inr p d q by (cases q) auto
  qed (simp add: r)
qed

end

interpretation roster_handler: account_handler "forget_account u ro" for u ro
proof
  fix account before hosts hosts' tx d tx'
  show "\<exists>r. forget_account u ro account before hosts tx = Some r" by (rule forget_account_returns)
  assume run: "forget_account u ro account before hosts tx = Some (Inr (d, tx'))"
  have "roster_only tx tx'" by (rule forget_account_returns(2) [OF run])
  then show "ACCOUNTS (work tx') = ACCOUNTS (work tx) \<and> committed tx' = committed tx"
    by (simp add: roster_only_fields)
  show "\<exists>rounds. d hosts' = Some rounds" by (rule forget_account_returns(3) [OF run])
qed

interpretation offline_handler: account_handler offline_forget_account
  by unfold_locales (auto simp: offline_forget_account_def clear_offline_messages_def Let_def)

section \<open>What a deletion does\<close>

definition rosters_in_step :: "HostLookup \<Rightarrow> Tables \<Rightarrow> bool" where
  "rosters_in_step hosts t \<longleftrightarrow> accounts_ok t \<and> redb.mirror (local_jid hosts) (begin_write t)"

text \<open>The orders in which a host with the roster extension may run its handlers.\<close>

definition handler_lists :: "UnicodeData \<Rightarrow> Roster \<Rightarrow> AccountHandler list set" where
  "handler_lists u ro =
     {[forget_account u ro], [forget_account u ro, offline_forget_account], [offline_forget_account, forget_account u ro]}"

lemma run_handlers_returns:
  assumes "handlers \<in> handler_lists u ro"
  shows "all_return handlers account before hosts"
proof -
  have nil: "all_return [] account before hosts" by (simp add: all_return_def)
  note roster = roster_handler.run_Cons and offline = offline_handler.run_Cons
  show ?thesis using assms roster [OF nil] roster [OF offline [OF nil]] offline [OF roster [OF nil]]
    unfolding handler_lists_def by blast
qed

lemma retain_twice: "retain_in P (retain_in P t) = retain_in P (t :: ('k::linorder, 'v) fmap)"
  by (rule fmap_ext) (simp add: table.get_keep)

lemma clear_offline_twice: "clear_offline_messages k (clear_offline_messages k tx) = clear_offline_messages k tx"
  by (simp add: clear_offline_messages_def Let_def retain_twice fmap_ext)

lemma run_handlers_effect:
  assumes "handlers \<in> handler_lists u ro" and "run_handlers handlers account before hosts tx = Some (Inr (ds, tx'))"
  obtains d t t' where "forget_account u ro account before hosts t = Some (Inr (d, t'))"
    "t = tx \<or> t = clear_offline_messages account tx" "clear_offline_messages account tx' = clear_offline_messages account t'"
proof -
  let ?R = "\<lambda>t. forget_account u ro account before hosts t"
  have off: "offline_forget_account account before hosts t = Some (Inr ((\<lambda>_. Some (deliver effects_none)), clear_offline_messages account t))" for t
    by (simp add: offline_forget_account_def)
  obtain r where r: "?R tx = Some r" using forget_account_returns(1) by blast
  obtain q where q: "?R (clear_offline_messages account tx) = Some q" using forget_account_returns(1) by blast
  from assms(1) consider "handlers = [forget_account u ro]" | "handlers = [forget_account u ro, offline_forget_account]"
    | "handlers = [offline_forget_account, forget_account u ro]" by (auto simp: handler_lists_def)
  then show thesis
  proof cases
    case 1
    with assms(2) r obtain d where "r = Inr (d, tx')" by (cases r) auto
    with r that [of tx d tx'] show thesis by simp
  next
    case 2
    with assms(2) r off obtain d t' where "r = Inr (d, t')" "tx' = clear_offline_messages account t'" by (cases r) auto
    with r that [of tx d t'] show thesis by (simp add: clear_offline_twice)
  next
    case 3
    with assms(2) q off obtain d where "q = Inr (d, tx')" by (cases q) auto
    with q that [of "clear_offline_messages account tx" d tx'] show thesis by simp
  qed
qed

definition without_record :: "AccountKey \<Rightarrow> Tables \<Rightarrow> RedbWrite" where
  "without_record account db = \<lparr>committed = db, work = db\<lparr>ACCOUNTS := fmdrop (key_text account) (ACCOUNTS db)\<rparr>\<rparr>"

lemma remove_record_Inr:
  assumes "remove_record account (begin_write db) = Inr (found, tx)"
  shows "found \<longleftrightarrow> fmlookup (ACCOUNTS db) (key_text account) \<noteq> None" and "tx = without_record account db"
proof -
  have "found = (fmlookup (ACCOUNTS db) (key_text account) \<noteq> None) \<and> tx = without_record account db"
  proof (cases "fmlookup (ACCOUNTS db) (key_text account)")
    case None
    then have "fmdrop (key_text account) (ACCOUNTS db) = ACCOUNTS db" by (auto intro: fmap_ext)
    with None assms show ?thesis
      by (auto simp: remove_record_def delete_account_def begin_write_def without_record_def)
  next
    case (Some row)
    with assms show ?thesis
      by (cases "decode_credentials row") (auto simp: remove_record_def delete_account_def begin_write_def without_record_def)
  qed
  then show "found \<longleftrightarrow> fmlookup (ACCOUNTS db) (key_text account) \<noteq> None" "tx = without_record account db" by blast+
qed

lemma deletion_cases:
  assumes handlers: "handlers \<in> handler_lists u ro" and run: "delete handlers hosts account db = Some (Inr out)"
  obtains d t t' where "forget_account u ro account db hosts t = Some (Inr (d, t'))"
    "existed out \<longleftrightarrow> fmlookup (ACCOUNTS db) (key_text account) \<noteq> None"
    "t = without_record account db \<or> t = clear_offline_messages account (without_record account db)"
    "remaining out = work (clear_content account t')"
proof -
  from run obtain found tx ds tx' where r: "remove_record account (begin_write db) = Inr (found, tx)"
    "run_handlers handlers account db hosts tx = Some (Inr (ds, tx'))"
    "out = \<lparr>existed = found, deliveries = ds, remaining = work (clear_content account tx')\<rparr>"
    by (auto simp: delete_def begin_read_def commit_def split: sum.splits)
  note found = remove_record_Inr [OF r(1)]
  obtain d t t' where f: "forget_account u ro account db hosts t = Some (Inr (d, t'))"
    "t = tx \<or> t = clear_offline_messages account tx" "clear_offline_messages account tx' = clear_offline_messages account t'"
    by (rule run_handlers_effect [OF handlers r(2)])
  show thesis by (rule that [OF f(1) _ f(2) [unfolded found(2)]]) (simp_all add: r(3) found(1) f(3) clear_content_def)
qed

lemma run_handlers_succeeds:
  assumes handlers: "handlers \<in> handler_lists u ro"
    and roster: "\<And>t. t = tx \<or> t = clear_offline_messages account tx \<Longrightarrow>
      \<exists>d t'. forget_account u ro account before hosts t = Some (Inr (d, t'))"
  shows "\<exists>ds tx'. run_handlers handlers account before hosts tx = Some (Inr (ds, tx'))"
proof -
  obtain d t' where "forget_account u ro account before hosts tx = Some (Inr (d, t'))" using roster by blast
  moreover obtain d t' where "forget_account u ro account before hosts (clear_offline_messages account tx) = Some (Inr (d, t'))"
    using roster by blast
  ultimately show ?thesis using handlers by (auto simp: handler_lists_def offline_forget_account_def)
qed

lemma clear_content_fields:
  "ACCOUNTS (work (clear_content k tx)) = ACCOUNTS (work tx)" "ITEMS (work (clear_content k tx)) = ITEMS (work tx)"
  "PENDING (work (clear_content k tx)) = PENDING (work tx)" "VERSIONS (work (clear_content k tx)) = VERSIONS (work tx)"
  by (simp_all add: clear_content_def clear_private_xml_def delete_vcard_def clear_offline_messages_def Let_def)

lemma content_rows:
  "offline_rows (work (clear_content k tx)) = offline_rows (work (clear_offline_messages k tx))"
  "vcard_row (work (clear_content k tx)) = vcard_row (work (delete_vcard k tx))"
  "private_rows (work (clear_content k tx)) = private_rows (work (clear_private_xml k tx))"
  by (simp_all add: fun_eq_iff clear_content_def clear_private_xml_def delete_vcard_def clear_offline_messages_def Let_def
      offline_rows_def vcard_row_def private_rows_def)

lemma clear_content_kept:
  assumes "owner_ok (key_text k)" and "owner_ok b" and "b \<noteq> key_text k"
  shows "offline_rows (work (clear_content k tx)) b = offline_rows (work tx) b"
    "vcard_row (work (clear_content k tx)) b = vcard_row (work tx) b"
    "private_rows (work (clear_content k tx)) b = private_rows (work tx) b"
  unfolding content_rows by (rule offline_store.kept vcard_store.kept private_store.kept, fact+)+

lemma deletion_rosters:
  assumes key: "key_ok account" and handlers: "handlers \<in> handler_lists u ro" and step: "rosters_in_step hosts db"
    and run: "delete handlers hosts account db = Some (Inr out)"
  shows "ACCOUNTS (remaining out) = fmdrop (key_text account) (ACCOUNTS db)"
    and "rosters_in_step hosts (remaining out)"
    and "roster_rows (remaining out) (key_text account) = ([], [], None)"
    and "\<And>b. owner_ok b \<Longrightarrow> b \<noteq> key_text account \<Longrightarrow>
      offline_rows (remaining out) b = offline_rows db b \<and> vcard_row (remaining out) b = vcard_row db b \<and>
      private_rows (remaining out) b = private_rows db b"
proof -
  let ?a = "key_text account"
  have ok: "owner_ok ?a" using key by (simp add: key_ok_def)
  obtain d t t' where t: "forget_account u ro account db hosts t = Some (Inr (d, t'))"
    "t = without_record account db \<or> t = clear_offline_messages account (without_record account db)"
    "remaining out = work (clear_content account t')"
    by (rule deletion_cases [OF handlers run])
  have same: "ITEMS (work t) = ITEMS db" "PENDING (work t) = PENDING db" "ACCOUNTS (work t) = fmdrop ?a (ACCOUNTS db)"
    "VCARDS (work t) = VCARDS db" "ELEMENTS (work t) = ELEMENTS db"
    using t(2) by (auto simp: without_record_def clear_offline_messages_def Let_def)
  have acc: "accounts_ok db" and mirror: "redb.mirror (local_jid hosts) (begin_write db)" using step by (simp_all add: rosters_in_step_def)
  note e = forget_account_effect [OF key acc t(1) same(1,2)]
  note f = roster_only_fields [OF e(3)]
  show accounts: "ACCOUNTS (remaining out) = fmdrop ?a (ACCOUNTS db)" using f(1) same(3) by (simp add: t(3) clear_content_fields)
  have views: "redb_view (begin_write (remaining out)) = redb_view t'" "redb_waits (begin_write (remaining out)) = redb_waits t'"
    by (rule redb_view_same redb_waits_same; simp add: begin_write_def t(3) clear_content_fields)+
  have "redb.mirror (local_jid hosts) (begin_write (remaining out))"
  proof (rule forgotten_in_step [OF mirror])
    show "redb_live (begin_write (remaining out)) x \<longleftrightarrow> redb_live (begin_write db) x \<and> x \<noteq> ?a" for x
      using accounts by (auto simp: redb_live_def account_exists_def begin_write_def)
  qed (unfold views, rule e(1), rule e(2))
  then show "rosters_in_step hosts (remaining out)" using acc accounts by (simp add: rosters_in_step_def accounts_ok_def)
  have "\<exists>t0. t' = clear_roster account t0"
    by (rule forget_account_parts [OF t(1)]) blast
  then show "roster_rows (remaining out) ?a = ([], [], None)"
    using roster_store.forgotten [of account] by (auto simp: t(3) roster_rows_def clear_content_fields)
  fix b assume b: "owner_ok b" "b \<noteq> ?a"
  have "offline_rows (work t') b = offline_rows db b"
    using t(2) f(2,3) offline_store.kept [OF ok b, of "without_record account db"] by (auto simp: offline_rows_def without_record_def)
  moreover have "vcard_row (work t') b = vcard_row db b" "private_rows (work t') b = private_rows db b"
    using f(4,5) same(4,5) by (simp_all add: vcard_row_def private_rows_def)
  ultimately show "offline_rows (remaining out) b = offline_rows db b \<and> vcard_row (remaining out) b = vcard_row db b \<and>
      private_rows (remaining out) b = private_rows db b"
    using clear_content_kept [OF ok b, of t'] by (simp add: t(3))
qed

lemma forgotten_by_others:
  assumes key: "key_ok account" and step: "rosters_in_step hosts t" and gone: "fmlookup (ACCOUNTS t) (key_text account) = None"
    and b: "owner_ok (key_text b)" "local_jid hosts (key_text b)" "local_jid hosts (key_text account)"
  shows "\<not> pending_request_exists t b (key_text account) \<and>
    (\<forall>s. roster_subscription t b (key_text account) = Inr (Some s) \<longrightarrow> state s = SubNone \<and> \<not> pending_out s)"
proof -
  let ?t = "begin_write t" and ?a = "key_text account" and ?b = "key_text b"
  have mirror: "mirrored (local_jid hosts) (redb.sub ?t) (redb_waits ?t)" and housed: "redb.housed ?t"
    using step by (simp_all add: rosters_in_step_def redb.mirror_def)
  have a: "redb.sub ?t ?a y = default_subscription" "\<not> redb_waits ?t ?a y" "redb_view ?t ?a y = None" for y
    using redb.absent_sub [OF housed, of ?a] housed gone
    by (auto simp: redb_live_def account_exists_def begin_write_def redb.housed_def)
  have waits: "pending_request_exists t b ?a \<longleftrightarrow> redb_waits ?t ?b ?a" using b(1)
    by (simp add: pending_request_exists_def redb_waits_def begin_write_def item_key_def)
  show ?thesis
  proof (cases "?b = ?a")
    case True
    then show ?thesis using a waits before_view [OF b(1), of t ?a] by auto
  next
    case False
    then have "in_step (redb.sub ?t ?a ?b) (redb.sub ?t ?b ?a) (redb_waits ?t ?b ?a)" "in_step (redb.sub ?t ?b ?a) (redb.sub ?t ?a ?b) (redb_waits ?t ?a ?b)"
      using mirror b(2,3) unfolding mirrored_def by metis+
    then have no: "\<not> redb_waits ?t ?b ?a" "\<not> grants (state (redb.sub ?t ?b ?a))" "\<not> subscribed_to (state (redb.sub ?t ?b ?a))"
      "\<not> pending_out (redb.sub ?t ?b ?a)"
      unfolding a(1) using a(2) by (simp_all add: state_defs)
    then have "state (redb.sub ?t ?b ?a) = SubNone" by (cases "state (redb.sub ?t ?b ?a)") (simp_all add: state_defs)
    moreover have "redb.sub ?t ?b ?a = s" if "roster_subscription t b ?a = Inr (Some s)" for s
      using before_view [OF b(1) that, symmetric] by (simp add: redb.sub_def)
    ultimately show ?thesis using no waits by auto
  qed
qed

lemma delete_succeeds:
  assumes "key_ok account" and "handlers \<in> handler_lists u ro" and "forgettable u quota limit db"
  shows "\<exists>out. delete handlers hosts account db = Some (Inr out)"
proof -
  have "\<exists>r. remove_record account (begin_write db) = Inr r"
  proof (cases "fmlookup (ACCOUNTS db) (key_text account)")
    case (Some row)
    then obtain c where "decode_credentials row = Inr c" using assms(3) unfolding forgettable_def accounts_valid_def by blast
    with Some show ?thesis by (auto simp: remove_record_def delete_account_def begin_write_def)
  qed (auto simp: remove_record_def delete_account_def begin_write_def)
  then obtain found tx where tx: "remove_record account (begin_write db) = Inr (found, tx)" by fastforce
  have "\<exists>ds tx'. run_handlers handlers account db hosts tx = Some (Inr (ds, tx'))"
  proof (rule run_handlers_succeeds [OF assms(2)])
    fix t assume "t = tx \<or> t = clear_offline_messages account tx"
    then show "\<exists>d t'. forget_account u ro account db hosts t = Some (Inr (d, t'))"
      using remove_record_Inr(2) [OF tx]
      by (intro forget_account_succeeds [OF assms(1,3)]) (auto simp: without_record_def clear_offline_messages_def Let_def)
  qed
  then show ?thesis by (auto simp: delete_def tx begin_read_def)
qed

section \<open>Sample data\<close>

definition key_b :: AccountKey where
  "key_b = \<lparr>key_text = ''b@x'', username_len = 1\<rparr>"

definition sample_hosts :: HostLookup where
  "sample_hosts = \<lparr>is_local_host = (\<lambda>d. d = ''x''), federates = (\<lambda>_. False)\<rparr>"

definition friend :: "SubscriptionState \<Rightarrow> RosterJid \<Rightarrow> RosterItem" where
  "friend st jid = (bare_item jid)\<lparr>subscription := default_subscription\<lparr>state := st\<rparr>\<rparr>"

text \<open>Two accounts, the first subscribed to the second.\<close>

definition friends :: Tables where
  "friends = two_accounts\<lparr>ITEMS := fmupd (item_key_text ''a@x'' ''b@x'') (item_bytes (friend To ''b@x''))
     (fmupd (item_key_text ''b@x'' ''a@x'') (item_bytes (friend From ''a@x'')) fmempty)\<rparr>"

lemma sample_keys: "owner_ok ''a@x''" "owner_ok ''b@x''" "key_ok key_a"
  by (simp_all add: owner_ok_def key_ok_def key_a_def account_key_of_roster_jid_def)

lemma sample_local: "local_jid sample_hosts ''a@x''" "local_jid sample_hosts ''b@x''"
  by (simp_all add: local_jid_def sample_hosts_def local_candidate_def account_key_of_roster_jid_def domain_def)

lemma friends_accounts: "accounts_ok friends" "accounts_valid ascii_tables friends"
  using sample_keys(1,2) two_accounts_valid
  by (auto simp: friends_def two_accounts_def accounts_ok_def accounts_valid_def split: if_splits)

lemma friends_view:
  "redb_view (begin_write friends) x y = (if x = ''a@x'' \<and> y = ''b@x'' then Some (default_subscription\<lparr>state := To\<rparr>)
     else if x = ''b@x'' \<and> y = ''a@x'' then Some (default_subscription\<lparr>state := From\<rparr>) else None)"
  "\<not> redb_waits (begin_write friends) x y"
proof -
  show "\<not> redb_waits (begin_write friends) x y"
    by (simp add: redb_waits_def begin_write_def friends_def two_accounts_def empty_tables_def)
  show "redb_view (begin_write friends) x y = (if x = ''a@x'' \<and> y = ''b@x'' then Some (default_subscription\<lparr>state := To\<rparr>)
     else if x = ''b@x'' \<and> y = ''a@x'' then Some (default_subscription\<lparr>state := From\<rparr>) else None)"
  proof (cases "owner_ok x")
    case True
    note keys = item_key_iff [OF sample_keys(1) True] item_key_iff [OF sample_keys(2) True]
    have sub: "subscription (friend st j) = default_subscription\<lparr>state := st\<rparr>" for st j by (simp add: friend_def)
    have items: "ITEMS (work (begin_write friends)) = fmupd (item_key_text ''a@x'' ''b@x'') (item_bytes (friend To ''b@x''))
     (fmupd (item_key_text ''b@x'' ''a@x'') (item_bytes (friend From ''a@x'')) fmempty)" by (simp add: begin_write_def friends_def)
    have look: "fmlookup (ITEMS (work (begin_write friends))) (item_key_text x y) = (if ''a@x'' = x \<and> ''b@x'' = y then Some (item_bytes (friend To ''b@x''))
      else if ''b@x'' = x \<and> ''a@x'' = y then Some (item_bytes (friend From ''a@x'')) else None)"
      by (simp only: items fmupd_lookup fmempty_lookup keys)
    show ?thesis unfolding redb_view_def look by (simp only: True if_True eq_commute [of _ x] eq_commute [of _ y] split: if_split) (simp add: sub)
  next
    case False
    with sample_keys(1,2) have "x \<noteq> ''a@x''" "x \<noteq> ''b@x''" by metis+
    with False show ?thesis by (simp add: redb_view_def)
  qed
qed

lemma friends_in_step: "rosters_in_step sample_hosts friends"
proof -
  let ?f = "begin_write friends"
  have live: "redb_live ?f ''a@x''" "redb_live ?f ''b@x''"
    by (simp_all add: redb_live_def account_exists_def begin_write_def friends_def two_accounts_def)
  have sub: "redb.sub ?f x y = (if x = ''a@x'' \<and> y = ''b@x'' then default_subscription\<lparr>state := To\<rparr>
     else if x = ''b@x'' \<and> y = ''a@x'' then default_subscription\<lparr>state := From\<rparr> else default_subscription)" for x y
    by (simp add: redb.sub_def friends_view)
  have "redb.housed ?f" using live by (auto simp: redb.housed_def friends_view)
  moreover have "in_step (redb.sub ?f x y) (redb.sub ?f y x) (redb_waits ?f y x)" for x y
    unfolding sub by (simp add: state_defs friends_view(2))
  ultimately show ?thesis by (simp add: rosters_in_step_def redb.mirror_def mirrored_def friends_accounts)
qed

lemma sample_jids: "decode_jid ascii_tables ''a@x'' = Inr ''a@x''" "decode_jid ascii_tables ''b@x'' = Inr ''b@x''"
  using bare_ascii_key [of "CHR ''a''"] bare_ascii_key [of "CHR ''b''"]
  by (auto simp: decode_account_key_def decode_jid_def with_canonical_jid_def MAX_JID_LEN_def MAX_PART_LEN_def split: sum.splits if_splits)

lemma friends_store: "forgettable ascii_tables default_quota 1 friends"
proof -
  let ?i1 = "friend To ''b@x''" and ?i2 = "friend From ''a@x''"
  have stored: "stored_item ascii_tables ''a@x'' ?i1 (item_key_text ''a@x'' ''b@x'') (item_bytes ?i1)"
    "stored_item ascii_tables ''b@x'' ?i2 (item_key_text ''b@x'' ''a@x'') (item_bytes ?i2)"
    using sample_jids
    by (simp_all add: stored_item_def friend_def bare_item_def valid_item_def item_strs_def item_fits_def item_bytes_def
        name_bytes_def encode_subscription_def U32_MAX_def max_of_def MAX_GROUPS_PER_ITEM_def)
  let ?m = "fmupd (item_key_text ''b@x'' ''a@x'') (item_bytes ?i2) fmempty"
  have bytes: "length (item_bytes (friend st j)) = 10" for st j
    by (simp add: friend_def bare_item_def item_bytes_def name_bytes_def encode_subscription_def)
  have len: "length (item_key_text ''a@x'' ''b@x'') = 7" "length (item_key_text ''b@x'' ''a@x'') = 7" by (simp_all add: item_key_text_def)
  have "items_ok ascii_tables default_quota fmempty" by (simp add: items_ok_def within_quota_def)
  moreover have "within_quota default_quota ''b@x'' ?m"
    by (simp add: within_quota_def owner_usage_put [OF item_key_in_range] bytes len default_quota_def)
  ultimately have m: "items_ok ascii_tables default_quota ?m" using items_ok_upd sample_keys(2) stored(2) by blast
  have "\<not> in_owner_range ''a@x'' (item_key_text ''b@x'' ''a@x'')"
    using item_key_owner [of "''a@x''" "''b@x''"] sample_keys(1,2) by (simp add: owner_ok_def)
  then have "fmlookup ?m key = fmlookup fmempty key" if "in_owner_range ''a@x'' key" for key using that by auto
  from owner_usage_cong [OF this] have "owner_rows ''a@x'' ?m = 0" "owner_bytes ''a@x'' ?m = 0" by simp_all
  moreover have "fmlookup ?m (item_key_text ''a@x'' ''b@x'') = None" by (simp add: item_key_text_def)
  note absent = owner_usage_absent [OF this]
  ultimately have "within_quota default_quota ''a@x'' (fmupd (item_key_text ''a@x'' ''b@x'') (item_bytes ?i1) ?m)"
    by (simp only: within_quota_def owner_usage_put [OF item_key_in_range] absent) (simp add: bytes len default_quota_def)
  then have "items_ok ascii_tables default_quota (ITEMS friends)"
    using items_ok_upd [OF m sample_keys(1) stored(1)] by (simp add: friends_def)
  moreover have "pending_ok ascii_tables 1 (PENDING friends)" by (simp add: pending_ok_def friends_def two_accounts_def empty_tables_def)
  ultimately show ?thesis using friends_accounts
    by (simp add: forgettable_def store_ok_def) (simp add: friends_def two_accounts_def empty_tables_def max_of_def fcard_finsert_if fcard_fempty)
qed

section \<open>Properties\<close>

text \<open>
  C17. Deleting an account always returns, whatever the database holds and in whatever order the host runs
  its handlers: the two cursor loops over the account's roster end. So does every delivery it leaves for
  after the commit.
\<close>

theorem deletion_returns:
  assumes "handlers \<in> handler_lists u ro"
  shows "\<exists>r. delete handlers hosts account db = Some r \<and>
    (\<forall>out d hosts'. r = Inr out \<longrightarrow> d \<in> set (deliveries out) \<longrightarrow> (\<exists>rounds. d hosts' = Some rounds))"
proof (cases "remove_record account (begin_write db)")
  case (Inr p)
  obtain found tx where p: "p = (found, tx)" by force
  from run_handlers_returns [OF assms, of account db hosts] obtain r where "run_handlers handlers account db hosts tx = Some r"
    "\<forall>ds tx' d hosts'. r = Inr (ds, tx') \<longrightarrow> d \<in> set ds \<longrightarrow> (\<exists>rounds. d hosts' = Some rounds)"
    unfolding all_return_def by blast
  then show ?thesis by (cases r) (auto simp: delete_def Inr p begin_read_def)
qed (simp add: delete_def)

theorem deletion_returns_witness:
  "\<exists>r. delete [offline_forget_account, forget_account ascii_tables fmempty] sample_hosts key_a friends = Some r"
  using deletion_returns [of "[offline_forget_account, forget_account ascii_tables fmempty]" ascii_tables fmempty sample_hosts key_a friends]
  by (auto simp: handler_lists_def)



text \<open>
  C16. A deletion succeeds on every readable store: where the rows of the accounts and rosters decode, as
  all operations keep it, and no roster is within one change per stored item of the last version number,
  no step of the cleanup fails and the version of every counterpart's roster is the one it expects.
\<close>

theorem deletion_succeeds:
  assumes "key_ok account" and "handlers \<in> handler_lists u ro" and "forgettable u quota limit db"
  shows "\<exists>out. delete handlers hosts account db = Some (Inr out)"
  by (rule delete_succeeds [OF assms])

theorem deletion_succeeds_witness:
  "\<exists>out. delete [forget_account ascii_tables fmempty, offline_forget_account] sample_hosts key_a friends = Some (Inr out)"
  using deletion_succeeds [OF sample_keys(3) _ friends_store, of "[forget_account ascii_tables fmempty, offline_forget_account]" fmempty sample_hosts]
  by (auto simp: handler_lists_def)

end
