(* ===== verification/Roster_Steps.thy ===== *)
theory Roster_Steps
  imports Account_Deletion
begin

text \<open>
  What the roster handlers of \<open>Roster_Handlers\<close> do to the rosters of the server as a whole: every query and
  every subscription request, local or federated, keeps the rosters of the local accounts in step, and the
  presence a handler sends or withdraws is what the rosters grant once the transaction is done.
  The locale \<open>roster_writes\<close> carries the proofs, so they hold of any store with its laws; the properties state them for redb.
\<close>

section \<open>Addresses\<close>

text \<open>
  The Unicode libraries return no NUL: the PRECIS username profile forbids control characters (RFC 8264),
  IDNA processing runs with the STD3 rules, which leave letters, digits and hyphens of ASCII, and a
  printed IPv6 address has hexadecimal digits, colons and dots.
\<close>

definition control_free :: "UnicodeData \<Rightarrow> bool" where
  "control_free u \<longleftrightarrow>
     (\<forall>s t. enforce_username u s = Some t \<longrightarrow> CHR 0x00 \<notin> set t) \<and>
     (\<forall>s a. uts46_process u s = Some (Passthrough, a) \<longrightarrow> CHR 0x00 \<notin> set s) \<and>
     (\<forall>s t a. uts46_process u s = Some (WroteToSink t, a) \<longrightarrow> CHR 0x00 \<notin> set t) \<and>
     (\<forall>s t. canonical_ipv6 u s = Some t \<longrightarrow> CHR 0x00 \<notin> set t)"

lemma control_freeD:
  assumes "control_free u"
  shows "enforce_username u s = Some t \<Longrightarrow> CHR 0x00 \<notin> set t" and "uts46_process u s = Some (Passthrough, a) \<Longrightarrow> CHR 0x00 \<notin> set s"
    and "uts46_process u s = Some (WroteToSink t, a) \<Longrightarrow> CHR 0x00 \<notin> set t" and "canonical_ipv6 u s = Some t \<Longrightarrow> CHR 0x00 \<notin> set t"
  using assms unfolding control_free_def by blast+

lemma prepare_localpart_clean: "control_free u \<Longrightarrow> prepare_localpart u s = Inr t \<Longrightarrow> CHR 0x00 \<notin> set t"
  by (auto simp: prepare_localpart_def control_free_def split: if_splits)

lemma ip_literal_clean: "control_free u \<Longrightarrow> ip_literal u s = Inr t \<Longrightarrow> CHR 0x00 \<notin> set t"
  by (fastforce simp: ip_literal_def control_free_def split: if_splits)

lemma prepare_domainpart_clean: "control_free u \<Longrightarrow> prepare_domainpart u s = Inr t \<Longrightarrow> CHR 0x00 \<notin> set t"
  by (auto simp: prepare_domainpart_def Let_def dest: ip_literal_clean [rotated] control_freeD(2,3)
      split: if_splits ProcessingSuccess.splits)

text \<open>An address as the server holds one: composed of checked parts, and free of NUL.\<close>

definition jid_ok :: "JidRef \<Rightarrow> bool" where
  "jid_ok r \<longleftrightarrow> (\<exists>l d rp j. from_trusted_parts_in l d rp = Inr j \<and> resolve j = r) \<and> owner_ok (ref_text (bare r))"

lemma parsed_jid_ok:
  assumes "control_free u" and "parse_in u s = Inr j"
  shows "jid_ok (resolve j)"
proof -
  obtain l0 d0 r0 where "from_parts_in u l0 d0 r0 = Inr j"
    using assms(2) unfolding parse_in_def Let_def split_beta by blast
  then obtain l d r where l: "transpose_map (prepare_localpart u) l0 = Inr l" and d: "prepare_domainpart u d0 = Inr d"
    and t: "from_trusted_parts_in l d r = Inr j"
    by (elim from_parts_trusted)
  have "owner_ok (ref_text (bare (resolve j)))"
    using prepare_domainpart_clean [OF assms(1) d] l prepare_localpart_clean [OF assms(1)]
    by (cases l0) (auto simp: bare_resolved [OF t] jid_string_def owner_ok_def transpose_map_def)
  with t show ?thesis unfolding jid_ok_def by blast
qed

text \<open>The account key of an address is the one its bare text gives, as rosters store it.\<close>

lemma jid_ok_key:
  assumes "jid_ok r"
  shows "account_key_of_jid (bare r) = account_key_of_roster_jid (ref_text (bare r))"
    and "account_key_of_jid (bare r) = Inr k \<Longrightarrow> key_ok k \<and> key_text k = ref_text (bare r) \<and> domain k = domainpart r"
    and "resourcepart r = None \<Longrightarrow> bare r = r"
proof -
  obtain l d rp j where t: "from_trusted_parts_in l d rp = Inr j" and r: "r = resolve j" and ok: "owner_ok (ref_text (bare r))"
    using assms unfolding jid_ok_def by blast
  note b = bare_resolved [OF t, folded r] and p = resolved_parts [OF t, folded r] and o = from_trusted_parts_ok(2-5) [OF t]
  show eq: "account_key_of_jid (bare r) = account_key_of_roster_jid (ref_text (bare r))"
  proof (cases l)
    case None
    then show ?thesis using o(3)
      by (auto simp: b account_key_of_jid_def is_full_def localpart_def account_key_of_roster_jid_def jid_string_def separators_free_def
          find_char_None [THEN iffD2])
  next
    case (Some x)
    with o show ?thesis
      by (auto simp: b account_key_of_jid_def is_full_def localpart_def account_key_of_roster_jid_def jid_string_def separators_free_def
          part_ok_def find_char_append)
  qed
  show "key_ok k \<and> key_text k = ref_text (bare r) \<and> domain k = domainpart r" if k: "account_key_of_jid (bare r) = Inr k"
  proof -
    from k obtain x where x: "l = Some x" "k = \<lparr>key_text = x @ CHR ''@'' # d, username_len = length x\<rparr>"
      by (cases l) (auto simp: b account_key_of_jid_def is_full_def localpart_def jid_string_def)
    then have "key_text k = ref_text (bare r)" "domain k = domainpart r" by (simp_all add: b jid_string_def p domain_def)
    with k eq ok show ?thesis by (simp add: key_ok_def)
  qed
  show "bare r = r" if "resourcepart r = None"
    using that p(3) from_trusted_parts_ok(1) [OF t, folded r] by (simp add: bare_def bare_len_def)
qed

lemma remote_jid:
  assumes "jid_ok r" and "\<not> is_local_host hosts (domainpart r)"
  shows "\<not> local_jid hosts (ref_text (bare r))"
  using assms jid_ok_key(1,2) [OF assms(1)] by (auto simp: local_jid_def local_candidate_def split: sum.splits)

section \<open>Presence in deliveries\<close>

text \<open>
  A delivery is sound for rosters \<open>S\<close> when it sends one account's current presence only to an account it
  grants it to, and tells an account that another is unavailable only where there is no grant.
\<close>

fun sound :: "(string \<Rightarrow> RosterJid \<Rightarrow> RosterSubscription) \<Rightarrow> (DeliveryError, Call) result \<Rightarrow> bool" where
  "sound S (Inr (CurrentPresence a b)) \<longleftrightarrow> grants (state (S (key_text a) (key_text b)))"
| "sound S (Inr (UnavailablePresence a b)) \<longleftrightarrow> \<not> grants (state (S (key_text a) (key_text b)))"
| "sound S _ \<longleftrightarrow> True"

definition honest :: "(string \<Rightarrow> RosterJid \<Rightarrow> RosterSubscription) \<Rightarrow> Deliver \<Rightarrow> bool" where
  "honest S d \<longleftrightarrow> list_all (list_all (sound S)) d"

lemma sound_step [simp]:
  "sound S (step ToRemote r)" "sound S (step (ToTagged t) r)" "sound S (step (ToRemote \<circ> snd) q)" "sound S (step (ToTagged t \<circ> snd) q)"
  by (simp_all add: step_def split: sum.splits)

lemma sound_push [simp]:
  "list_all (sound S) (push_mutation owner m)" "list_all (sound S) (push_roster owner i)" "list_all (sound S) (push_removal owner c v)"
  by (simp_all add: push_mutation_def push_change_def push_roster_def push_removal_def split: option.splits ItemChange.splits)

lemma sound_only_if [simp]: "list_all (sound S) (only_if c steps) \<longleftrightarrow> (c \<longrightarrow> list_all (sound S) steps)"
  by (simp add: only_if_def)

lemma honest_retirements [simp]: "honest S (retirements_finish steps accounts) \<longleftrightarrow> list_all (sound S) steps"
  by (simp add: honest_def retirements_finish_def list_all_iff)

lemma honest_one [simp]: "honest S [steps] \<longleftrightarrow> list_all (sound S) steps" "honest S []"
  by (simp_all add: honest_def)

lemma honest_request:
  "(\<And>m. out = AutoApproved m \<Longrightarrow> grants (state (S (key_text (p_target p)) (key_text (p_sender p))))) \<Longrightarrow>
   (\<And>g r. out = PreApproved g r \<Longrightarrow> grants (state (S (key_text (p_target p)) (key_text (p_sender p))))) \<Longrightarrow>
   honest S (request_effects p s out)"
  by (simp add: request_effects_def Let_def split: RequestOutcome.split prod.split)

lemma honest_approve:
  "(on_sender \<noteq> None \<Longrightarrow> grants (state (S (key_text (p_sender p)) (key_text (p_target p))))) \<Longrightarrow>
   honest S (approve_effects p s on_target on_sender pre)"
  by (simp add: approve_effects_def Let_def split: prod.split)

lemma honest_cancel:
  "(cancel_unavailable out \<Longrightarrow> \<not> grants (state (S (key_text (p_sender p)) (key_text (p_target p))))) \<Longrightarrow>
   honest S (cancel_effects p s out)"
  by (simp add: cancel_effects_def Let_def split: prod.split)

lemma honest_withdraw:
  "(withdraw_unavailable out \<Longrightarrow> \<not> grants (state (S (key_text (p_target p)) (key_text (p_sender p))))) \<Longrightarrow>
   honest S (withdraw_effects p s out)"
  by (simp add: withdraw_effects_def Let_def split: prod.split)

lemma honest_remote:
  "(out_current out \<Longrightarrow> grants (state (S (key_text owner) contact))) \<Longrightarrow>
   (out_unavailable out \<Longrightarrow> \<not> grants (state (S (key_text owner) contact))) \<Longrightarrow>
   honest S (remote_effects u kind owner contact s out)"
  by (auto simp: remote_effects_def dest: roster_jid_key split: sum.split)

lemma sound_removed_remote:
  "\<not> grants (state (S (key_text owner) (key_text contact))) \<Longrightarrow>
   list_all (sound S) (notify_removed_remote_contact u owner contact s pending)"
  by (simp add: notify_removed_remote_contact_def Let_def split: sum.split)

lemma sound_removed:
  "\<not> grants (state (S (key_text owner) (key_text contact))) \<Longrightarrow> list_all (sound S) (fst (notify_removed_contact u owner contact removal))"
  by (simp add: notify_removed_contact_def Let_def split: sum.split)

lemma removed_granted:
  "snd (notify_removed_contact u owner contact removal) \<longleftrightarrow> some_and (\<lambda>s. grants (state s)) (contact_before removal)"
  by (simp add: notify_removed_contact_def Let_def some_and_def split: option.split)

lemma honest_removal:
  assumes "\<not> grants (state (S (key_text owner) contact))"
    and "\<And>account. contact_account = Some account \<Longrightarrow> some_and (\<lambda>s. grants (state s)) (contact_before removal) \<Longrightarrow>
      \<not> grants (state (S (key_text account) (key_text owner)))"
    and "\<And>account. contact_account = Some account \<or> remote = Some account \<Longrightarrow> key_text account = contact"
  shows "honest S (removal_effects u owner contact contact_account remote removal)"
proof -
  have remote: "list_all (sound S) (case remote of None \<Rightarrow> [] | Some r \<Rightarrow> notify_removed_remote_contact u owner r s pending)" for s pending
    using assms(1,3) sound_removed_remote by (cases remote) auto
  show ?thesis
  proof (cases contact_account)
    case None
    then show ?thesis using remote by (simp add: removal_effects_def Let_def)
  next
    case (Some account)
    then have "list_all (sound S) (fst (notify_removed_contact u owner account r))" for r
      using assms(1,3) sound_removed by auto
    moreover have "snd (notify_removed_contact u owner account (removal\<lparr>removal_contact := x\<rparr>)) \<Longrightarrow>
      \<not> grants (state (S (key_text account) (key_text owner)))" for x
      using assms(2) [OF Some] by (simp add: removed_granted)
    ultimately show ?thesis using remote Some by (simp add: removal_effects_def Let_def split_beta)
  qed
qed

section \<open>What the transitions do to a grant\<close>

lemma settle_keeps_grant [simp]:
  "grants (state (settle approve_pending_out s)) \<longleftrightarrow> grants (state s)" "grants (state (settle set_pending_out s)) \<longleftrightarrow> grants (state s)"
  "grants (state (settle pre_approve s)) \<longleftrightarrow> grants (state s)" "grants (state (settle subscribe_granted s)) \<longleftrightarrow> grants (state s)"
  "grants (state (settle withdraw_outbound s)) \<longleftrightarrow> grants (state s)"
  by (cases "state s"; simp add: settled)+

lemma settle_grant [simp]: "grants (state (settle grant s))" "grants (state (settle grant_approved s))"
  by (cases "state s"; simp add: settled)+

lemma settle_then_some: "f s = then_some s n \<Longrightarrow> settle f s = n"
  by (simp add: settle_def then_some_def)

lemma without_grant [simp]: "\<not> grants (without_from st)" "\<not> grants (without_to (without_from st))" "\<not> grants (without_from (without_to st))"
  "\<not> grants SubNone"
  by (cases st; simp add: grants_def)+

lemma settle_revokes [simp]:
  "\<not> grants (state (settle (cancel_grant both) s))" "\<not> grants (state (settle drop_grant s))"
  "\<not> grants (state (settle clear_contact s))" "\<not> grants (state (settle revoke_grant s))"
  "\<not> grants (state (settle (withdraw_own True) s))"
  by (simp_all add: settle_then_some [OF cancel_grant_def [unfolded Let_def]] settle_then_some [OF drop_grant_def]
      settle_then_some [OF clear_contact_def] settle_then_some [OF withdraw_own_def [unfolded Let_def]])
    (simp_all add: settle_def revoke_grant_def)

lemma paired_revoke_approval: "paired x y w v \<Longrightarrow> paired (settle revoke_approval x) y w v"
  by (auto simp: settled revoke_approval_def)

context roster_writes
begin

section \<open>Transitions\<close>

lemma request_grants:
  fixes requester contact
  defines "a \<equiv> key_text requester" and "b \<equiv> key_text contact"
  assumes ok: "owner_ok a" "owner_ok b"
    and run: "request_subscription W ro requester a contact b body limit tx = Inr (out, tx')"
    and out: "out = AutoApproved m \<or> out = PreApproved g r"
  shows "grants (state (sub tx' b a))"
proof -
  have view: "some_and p (view tx b a) \<Longrightarrow> p (sub tx b a) \<and> view tx b a \<noteq> None" for p
    by (auto simp: some_and_def sub_def split: option.splits)
  show ?thesis
  proof (cases rule: request_cases [OF ok(2) [unfolded b_def] run [unfolded a_def b_def], folded a_def b_def,
      case_names granted approved missing asked])
    case granted
    from existing_effect(1) [OF ok(1) [unfolded a_def] granted(3), folded a_def] view [OF granted(1)]
    show ?thesis by (cases "b = a") simp_all
  next
    case (approved _ _ t)
    have "sub t b a = settle grant_approved (sub tx b a)"
      using existing_effect(1) [OF ok(2) [unfolded b_def] approved(4), folded b_def] view [OF approved(2)] by simp
    with update_effect(1) [OF ok(1) [unfolded a_def] approved(5), folded a_def] show ?thesis by (cases "b = a") simp_all
  qed (use out in simp_all)
qed

lemma cancel_revokes:
  fixes grantor
  defines "a \<equiv> key_text grantor"
  assumes ok: "owner_ok a" and peer: "peer_ok loc tx a b peer"
    and run: "cancel_subscription W ro grantor b peer tx = Inr (out, tx')"
  shows "\<not> grants (state (sub tx' a b))"
proof -
  from run obtain p t1 both m t2 m' where t: "update_existing_subscription W ro grantor b (cancel_grant both) t1 = Inr (m, t2)"
    "tx' = t2 \<or> (\<exists>account jid. peer = Some (account, jid) \<and> update_existing_subscription W ro account jid withdraw_outbound t2 = Inr (m', tx'))"
    by (fastforce simp: cancel_subscription_def Let_def split: option.splits if_splits)
  have t2: "\<not> grants (state (sub t2 a b))" using existing_effect(1) [OF ok [unfolded a_def] t(1)] by (simp add: a_def)
  from t(2) show ?thesis
  proof (elim disjE exE conjE)
    fix account jid assume w: "peer = Some (account, jid)" "update_existing_subscription W ro account jid withdraw_outbound t2 = Inr (m', tx')"
    with peer have o: "owner_ok (key_text account)" by (simp add: peer_ok_def)
    from existing_effect(1) [OF o w(2)] t2 show ?thesis
      by (cases "a = key_text account \<and> b = jid") auto
  qed (simp add: t2)
qed

lemma unsubscribe_revokes:
  fixes subscriber
  defines "a \<equiv> key_text subscriber"
  assumes ok: "owner_ok a" and peer: "peer_ok loc tx a b (Some (account, a))"
    and run: "unsubscribe W ro subscriber b (Some (account, a)) tx = Inr (out, tx')" and out: "withdraw_unavailable out"
  shows "\<not> grants (state (sub tx' b a))"
proof -
  have b: "key_text account = b" "owner_ok (key_text account)" using peer by (auto simp: peer_ok_def)
  from run out obtain t m m' t2 where t: "update_existing_subscription W ro subscriber b (withdraw_own (account = subscriber)) t = Inr (m, t2)"
    "account = subscriber \<and> tx' = t2 \<or> account \<noteq> subscriber \<and> update_existing_subscription W ro account a drop_grant t2 = Inr (m', tx')"
    by (fastforce simp: unsubscribe_def Let_def split: if_splits)
  from t(2) show ?thesis
  proof (elim disjE conjE)
    assume s: "account = subscriber" "tx' = t2"
    then have "a = b" using b by (simp add: a_def)
    with existing_effect(1) [OF ok [unfolded a_def] t(1)] s show ?thesis by (simp add: a_def)
  next
    assume "update_existing_subscription W ro account a drop_grant t2 = Inr (m', tx')"
    from existing_effect(1) [OF b(2) this] b show ?thesis by simp
  qed
qed

lemma unsubscribe_alone: "unsubscribe W ro subscriber b None tx = Inr (out, tx') \<Longrightarrow> \<not> withdraw_unavailable out"
  by (auto simp: unsubscribe_def)

lemma removal_revokes:
  fixes owner
  defines "a \<equiv> key_text owner"
  assumes ok: "owner_ok a" and peer: "peer_ok loc tx a b (map_option (\<lambda>k. (k, a)) contact)"
    and run: "state_remove_item W ro owner a b contact tx = Inr (Some out, tx')"
  shows "\<not> grants (state (sub tx' a b))"
    and "contact = Some account \<Longrightarrow> some_and (\<lambda>s. grants (state s)) (contact_before out) \<Longrightarrow> \<not> grants (state (sub tx' b a))"
proof -
  from run obtain m p t1 t2 where t: "tx_remove_subscription W owner b tx = Inr (Some m, t1)" "tx_remove_pending W owner b t1 = Inr (p, t2)"
    by (auto simp: state_remove_item_def split: option.splits)
  have t2: "sub t2 a b = default_subscription"
    using remove_effect(1) [OF ok [unfolded a_def] t(1)] remove_pending_effect(3) [OF ok [unfolded a_def] t(2)] by (simp add: a_def)
  have "\<not> grants (state (sub tx' a b)) \<and>
    (contact = Some account \<longrightarrow> some_and (\<lambda>s. grants (state s)) (contact_before out) \<longrightarrow> \<not> grants (state (sub tx' b a)))"
  proof (cases "contact = None \<or> contact = Some owner")
    case True
    with run t have "tx' = t2 \<and> contact_before out = None" by (auto simp: state_remove_item_def)
    with t2 show ?thesis by (simp add: some_and_def)
  next
    case False
    then obtain k where k: "contact = Some k" "k \<noteq> owner" by (cases contact) auto
    with peer have b: "key_text k = b" "owner_ok (key_text k)" by (auto simp: peer_ok_def)
    from run t k obtain q t3 c where t3: "tx_remove_pending W k a t2 = Inr (q, t3)" "update_existing_subscription W ro k a clear_contact t3 = Inr (c, tx')"
      by (auto simp: state_remove_item_def)
    have "sub tx' = (sub t2)(b := (sub t2 b)(a := settle clear_contact (sub t2 b a)))"
      using existing_effect(1) [OF b(2) t3(2)] remove_pending_effect(3) [OF b(2) t3(1)] b(1) by simp
    with t2 show ?thesis by simp
  qed
  then show "\<not> grants (state (sub tx' a b))"
    "contact = Some account \<Longrightarrow> some_and (\<lambda>s. grants (state s)) (contact_before out) \<Longrightarrow> \<not> grants (state (sub tx' b a))"
    by blast+
qed

section \<open>Handlers\<close>

text \<open>
  The contract of a roster handler between two parties: it keeps the rosters in step, changes nothing outside the rows the
  parties hold for each other, and its deliveries are sound for the rosters it leaves.
\<close>

definition proper :: "(string \<Rightarrow> bool) \<Rightarrow> string \<Rightarrow> string \<Rightarrow> 'w \<Rightarrow> Effects \<Rightarrow> 'w \<Rightarrow> bool" where
  "proper loc a b tx ef tx' \<longleftrightarrow> mirror loc tx' \<and> only_between a b tx tx' \<and> honest (sub tx') (deliver ef)"

lemma proper_unchanged: "mirror loc tx \<Longrightarrow> proper loc a b tx effects_none tx"
  by (simp add: proper_def effects_none_def effects_new_def)

lemma known_live: "account_known (tx_account W tx) k op = Inr found \<Longrightarrow> found \<longleftrightarrow> live tx (key_text k)"
  by (auto simp: account_known_def dest: account_law)

definition parties_ok :: "Parties \<Rightarrow> bool" where
  "parties_ok p \<longleftrightarrow> p_sender_jid p = key_text (p_sender p) \<and> p_target_jid p = key_text (p_target p) \<and>
     owner_ok (key_text (p_sender p)) \<and> owner_ok (key_text (p_target p))"

lemma parties_new_ok:
  "jid_ok (request_sender request) \<Longrightarrow> jid_ok (request_target request) \<Longrightarrow> parties_new request = Inr p \<Longrightarrow>
   parties_ok p \<and> key_text (p_sender p) = ref_text (bare (request_sender request)) \<and>
   key_text (p_target p) = ref_text (bare (request_target request))"
  by (auto simp: parties_new_def parties_ok_def key_ok_def Let_def dest: jid_ok_key(2))

lemma handle_request_proper:
  assumes "mirror loc tx" and p: "parties_ok p" and run: "handle_request W ro p s limit tx = Inr (ef, tx')"
  shows "proper loc (key_text (p_sender p)) (key_text (p_target p)) tx ef tx'"
proof -
  note p = p [unfolded parties_ok_def]
  from run p obtain out where r: "request_subscription W ro (p_sender p) (key_text (p_sender p)) (p_target p) (key_text (p_target p))
      (as_bytes (stanza_write_xml s)) limit tx = Inr (out, tx')" and ef: "ef = effects_new (parties_accounts p) (request_effects p s out)"
    by (auto simp: handle_request_def split: if_splits)
  have "honest (sub tx') (request_effects p s out)"
    using request_grants [OF _ _ r] p by (intro honest_request) auto
  with request_mirror [OF assms(1) _ _ r] p show ?thesis by (simp add: proper_def ef effects_new_def)
qed

lemma handle_approve_proper:
  assumes "mirror loc tx" and p: "parties_ok p" and run: "handle_approve W ro p s tx = Inr (ef, tx')"
  shows "proper loc (key_text (p_sender p)) (key_text (p_target p)) tx ef tx'"
proof -
  let ?a = "key_text (p_sender p)" and ?b = "key_text (p_target p)"
  have p': "p_sender_jid p = ?a" "p_target_jid p = ?b" "owner_ok ?a" "owner_ok ?b" using p by (simp_all add: parties_ok_def)
  obtain found where found: "check_parties W tx p = Inr found" using run by (auto simp: handle_approve_def)
  note run = run [unfolded handle_approve_def found ok_then_simps p'(1,2)]
  show ?thesis
  proof (cases found)
    case False
    with run assms(1) show ?thesis by (auto intro: proper_unchanged)
  next
    case True
    with run obtain m1 t1 where r1: "update_subscription W ro (p_target p) ?a approve_pending_out tx = Inr (m1, t1)" by auto
    with run True obtain m2 t2 where r2: "resolve_pending W ro (p_sender p) ?b grant t1 = Inr (m2, t2)" by auto
    note run = run [unfolded r1 r2 map_err_simps ok_then_simps prod.case]
    obtain m3 where r3: "m2 \<noteq> None \<and> tx' = t2 \<or> m2 = None \<and> update_subscription W ro (p_sender p) ?b pre_approve t2 = Inr (m3, tx')"
      and ef: "ef = effects_new (parties_accounts p) (approve_effects p s m1 m2 m3)"
      using run True by (cases m2) auto
    have "honest (sub tx') (approve_effects p s m1 m2 m3)"
    proof (rule honest_approve)
      assume "m2 \<noteq> None"
      with r3 have "tx' = t2" by blast
      with resolve_effect(1,4) [OF p'(3) r2] \<open>m2 \<noteq> None\<close> show "grants (state (sub tx' ?a ?b))" by simp
    qed
    with approve_mirror [OF assms(1) p'(3,4) r1 r2 r3] show ?thesis by (simp add: proper_def ef effects_new_def)
  qed
qed

lemma check_parties_live:
  "check_parties W tx p = Inr found \<Longrightarrow> live tx (key_text (p_sender p)) \<and> (found \<longleftrightarrow> live tx (key_text (p_target p)))"
  by (auto simp: check_parties_def require_account_def dest: known_live split: if_splits)

lemma parties_peer:
  "parties_ok p \<Longrightarrow> check_parties W tx p = Inr found \<Longrightarrow>
   peer_ok loc tx (key_text (p_sender p)) (key_text (p_target p)) (if found then Some (p_target p, p_sender_jid p) else None)"
  using check_parties_live by (simp add: peer_ok_def parties_ok_def)

lemma handle_cancel_proper:
  assumes "mirror loc tx" and p: "parties_ok p" and run: "handle_cancel W ro p s tx = Inr (ef, tx')"
  shows "proper loc (key_text (p_sender p)) (key_text (p_target p)) tx ef tx'"
proof -
  let ?a = "key_text (p_sender p)" and ?b = "key_text (p_target p)"
  have p': "p_target_jid p = ?b" "owner_ok ?a" using p by (simp_all add: parties_ok_def)
  obtain found where found: "check_parties W tx p = Inr found" using run by (auto simp: handle_cancel_def)
  with run obtain out where r: "cancel_subscription W ro (p_sender p) ?b (if found then Some (p_target p, p_sender_jid p) else None) tx = Inr (out, tx')"
    and ef: "ef = effects_new (parties_accounts p) (cancel_effects p s out)"
    by (auto simp: handle_cancel_def p'(1))
  note peer = parties_peer [OF p found]
  have "honest (sub tx') (cancel_effects p s out)"
    by (rule honest_cancel) (rule cancel_revokes [OF p'(2) peer r])
  with cancel_mirror [OF assms(1) p'(2) peer r] show ?thesis by (simp add: proper_def ef effects_new_def)
qed

lemma handle_withdraw_proper:
  assumes "mirror loc tx" and p: "parties_ok p" and run: "handle_withdraw W ro p s tx = Inr (ef, tx')"
  shows "proper loc (key_text (p_sender p)) (key_text (p_target p)) tx ef tx'"
proof -
  let ?a = "key_text (p_sender p)" and ?b = "key_text (p_target p)"
  have p': "p_target_jid p = ?b" "owner_ok ?a" "p_sender_jid p = ?a" using p by (simp_all add: parties_ok_def)
  obtain found where found: "check_parties W tx p = Inr found" using run by (auto simp: handle_withdraw_def)
  with run obtain out where r: "unsubscribe W ro (p_sender p) ?b (if found then Some (p_target p, p_sender_jid p) else None) tx = Inr (out, tx')"
    and ef: "ef = effects_new (parties_accounts p) (withdraw_effects p s out)"
    by (auto simp: handle_withdraw_def p'(1))
  note peer = parties_peer [OF p found]
  have "honest (sub tx') (withdraw_effects p s out)"
  proof (rule honest_withdraw)
    assume out: "withdraw_unavailable out"
    show "\<not> grants (state (sub tx' ?b ?a))"
    proof (cases found)
      case True
      show ?thesis
        by (rule unsubscribe_revokes [OF p'(2) _ _ out]) (use True peer r p'(3) in simp_all)
    next
      case False
      then show ?thesis using unsubscribe_alone r out by auto
    qed
  qed
  with unsubscribe_mirror [OF assms(1) p'(2) peer r] show ?thesis by (simp add: proper_def ef effects_new_def)
qed

text \<open>A party that is not a local account has no roster here to be in step with.\<close>

lemma mirror_outside: "mirror loc tx \<Longrightarrow> only_between a b tx tx' \<Longrightarrow> \<not> loc b \<Longrightarrow> mirror loc tx'"
  using mirror_between [of loc tx a b tx'] by simp

lemma existing_between:
  assumes "owner_ok (key_text owner)" and "update_existing_subscription W ro owner jid f tx = Inr (m, tx')"
  shows "only_between (key_text owner) jid tx tx'"
    and "view tx (key_text owner) jid \<noteq> None \<Longrightarrow> sub tx' (key_text owner) jid = settle f (sub tx (key_text owner) jid)"
proof -
  show "only_between (key_text owner) jid tx tx'"
  proof (cases "view tx (key_text owner) jid")
    case None
    then have "tx' = tx" using assms subscription_law by (fastforce simp: update_existing_subscription_def)
    then show ?thesis by simp
  next
    case (Some s)
    then show ?thesis using existing_effect(3) [OF assms] by simp
  qed
  show "sub tx' (key_text owner) jid = settle f (sub tx (key_text owner) jid)" if "view tx (key_text owner) jid \<noteq> None"
    using existing_effect(1) [OF assms] that by simp
qed

lemma apply_remote_proper:
  assumes mirror: "mirror loc tx" and ok: "owner_ok (key_text owner)" and out: "\<not> loc contact"
    and cur: "current = sub tx (key_text owner) contact"
    and run: "apply_remote W ro kind owner contact current s tx = Inr (r, tx')"
  shows "proper loc (key_text owner) contact tx (effects_new accounts (remote_effects u kind owner contact s r)) tx'"
proof -
  let ?k = "key_text owner"
  have view: "view tx ?k contact \<noteq> None" if "grants (state current) \<or> approved current"
    using that cur by (cases "view tx ?k contact") (auto simp: sub_def default_subscription_def grants_def)
  have "only_between ?k contact tx tx' \<and> (out_current r \<longrightarrow> grants (state (sub tx' ?k contact))) \<and>
    (out_unavailable r \<longrightarrow> \<not> grants (state (sub tx' ?k contact)))"
  proof (cases kind)
    case SubscribeRequest
    consider "grants (state current)" | "\<not> grants (state current)" "approved current" | "\<not> grants (state current)" "\<not> approved current" by blast
    then show ?thesis
    proof cases
      case 1
      with run show ?thesis by (auto simp: apply_remote_def SubscribeRequest quiet_outcome_def)
    next
      case 2
      with run obtain m where u: "update_existing_subscription W ro owner contact grant_approved tx = Inr (m, tx')" and "\<not> out_unavailable r"
        by (auto simp: apply_remote_def SubscribeRequest quiet_outcome_def)
      with existing_between [OF ok u] view 2 show ?thesis by simp
    next
      case 3
      with run obtain x where "tx' = tx \<or> tx_put_pending W owner \<lparr>sender = contact, stanza = as_bytes (stanza_write_xml s)\<rparr>
          (max_pending_subscription_requests (limits_of ro (domain owner))) tx = Inr (x, tx')" and q: "\<not> out_unavailable r" "\<not> out_current r"
        by (auto simp: apply_remote_def SubscribeRequest quiet_outcome_def split: if_splits)
      then have "only_between ?k contact tx tx'" using put_pending_effect(3) [OF ok] by fastforce
      with q show ?thesis by simp
    qed
  next
    case UnsubscribeRequest
    from run obtain q t m where t: "tx_remove_pending W owner contact tx = Inr (q, t)" "out_unavailable r = grants (state current)" "\<not> out_current r"
      "grants (state current) \<and> update_existing_subscription W ro owner contact revoke_grant t = Inr (m, tx') \<or> \<not> grants (state current) \<and> tx' = t"
      by (auto simp: apply_remote_def UnsubscribeRequest quiet_outcome_def Let_def split: if_splits)
    note e = remove_pending_effect [OF ok t(1)]
    have "only_between ?k contact tx tx'"
      using t(4) e(5) existing_between(1) [OF ok, of ro contact revoke_grant t m tx'] only_between_trans by blast
    moreover have "\<not> grants (state (sub tx' ?k contact))" if "grants (state current)"
      using t(4) that existing_between(2) [OF ok, of ro contact revoke_grant t m tx'] view by (simp add: e(2))
    ultimately show ?thesis using t(2,3) by simp
  qed (use run existing_between(1) [OF ok] in \<open>fastforce simp: apply_remote_def quiet_outcome_def\<close>)+
  then show ?thesis
    using mirror_outside [OF mirror _ out] by (auto simp: proper_def effects_new_def intro: honest_remote)
qed

lemma receive_remote_proper:
  assumes mirror: "mirror loc tx" and jids: "jid_ok (request_sender request)" "jid_ok (request_target request)"
    and out: "\<not> loc (ref_text (bare (request_sender request)))"
    and run: "receive_remote W u ro request tx = Inr (ef, tx')"
  shows "proper loc (ref_text (bare (request_target request))) (ref_text (bare (request_sender request))) tx ef tx'"
proof (cases "\<exists>owner. localpart (bare (request_sender request)) \<noteq> None \<and> account_key_of_jid (request_target request) = Inr owner \<and>
    account_known (tx_account W tx) owner ''roster_write'' = Inr True")
  case False
  with run have "ef = effects_none" "tx' = tx" by (auto simp: receive_remote_def split: if_splits)
  with mirror proper_unchanged show ?thesis by blast
next
  case True
  let ?c = "ref_text (bare (request_sender request))"
  from True obtain owner where o: "localpart (bare (request_sender request)) \<noteq> None" "account_key_of_jid (request_target request) = Inr owner"
    "account_known (tx_account W tx) owner ''roster_write'' = Inr True" by blast
  then have "bare (request_target request) = request_target request"
    by (simp add: account_key_of_jid_def is_full_def bare_def bare_len_def split: if_splits)
  with jid_ok_key(2) [OF jids(2)] o(2) have k: "key_text owner = ref_text (bare (request_target request))" "owner_ok (key_text owner)"
    by (auto simp: key_ok_def)
  note run = run [unfolded receive_remote_def Let_def o(2,3) map_err_simps ok_then_simps]
  from run o(1) obtain cur where cur: "tx_subscription W tx owner ?c = Inr cur" by auto
  from run o(1) cur obtain r where r: "apply_remote W ro (request_kind request) owner ?c
      (case cur of None \<Rightarrow> default_subscription | Some c \<Rightarrow> c) (request_stanza request) tx = Inr (r, tx')"
    and ef: "ef = effects_new [owner] (remote_effects u (request_kind request) owner ?c (request_stanza request) r)" by auto
  have "(case cur of None \<Rightarrow> default_subscription | Some c \<Rightarrow> c) = sub tx (key_text owner) ?c"
    using subscription_law [OF k(2) cur] by (simp add: sub_def)
  from apply_remote_proper [OF mirror k(2) out this r, of "[owner]" u] show ?thesis by (simp add: ef k(1))
qed

lemma roster_receive_proper:
  assumes mirror: "mirror (local_jid hosts) tx" and jids: "jid_ok (request_sender request)" "jid_ok (request_target request)"
    and run: "roster_receive W u ro hosts request tx = Inr (ef, tx')"
  shows "proper (local_jid hosts) (ref_text (bare (request_sender request))) (ref_text (bare (request_target request))) tx ef tx'"
proof (cases "federates hosts (domainpart (request_target request)) \<and> \<not> is_local_host hosts (domainpart (request_sender request)) \<and>
    request_kind request \<in> {SubscribeRequest, SubscribedRequest, UnsubscribeRequest, UnsubscribedRequest}")
  case True
  then have "receive_remote W u ro request tx = Inr (ef, tx')" using run unfolding roster_receive_def Let_def by (metis (no_types, lifting))
  from receive_remote_proper [OF mirror jids _ this] remote_jid [OF jids(1)] True show ?thesis
    by (simp add: proper_def only_between_sym)
next
  case False
  let ?s = "request_stanza request"
  note run = run [unfolded roster_receive_def Let_def if_not_P [OF False]]
  from run obtain p where p: "parties_new request = Inr p" by auto
  have ok: "parties_ok p" and eq: "ref_text (bare (request_sender request)) = key_text (p_sender p)"
    "ref_text (bare (request_target request)) = key_text (p_target p)"
    using parties_new_ok [OF jids p] by simp_all
  note run = run [unfolded p map_err_simps ok_then_simps]
  show ?thesis unfolding eq
  proof (cases "request_kind request")
    case SubscribeRequest
    with run have "handle_request W ro p ?s (max_pending_subscription_requests (limits_of ro (domainpart (request_target request)))) tx = Inr (ef, tx')"
      by simp
    then show "proper (local_jid hosts) (key_text (p_sender p)) (key_text (p_target p)) tx ef tx'" by (rule handle_request_proper [OF mirror ok])
  next
    case SubscribedRequest
    with run have "handle_approve W ro p ?s tx = Inr (ef, tx')" by simp
    then show "proper (local_jid hosts) (key_text (p_sender p)) (key_text (p_target p)) tx ef tx'" by (rule handle_approve_proper [OF mirror ok])
  next
    case UnsubscribeRequest
    with run have "handle_withdraw W ro p ?s tx = Inr (ef, tx')" by simp
    then show "proper (local_jid hosts) (key_text (p_sender p)) (key_text (p_target p)) tx ef tx'" by (rule handle_withdraw_proper [OF mirror ok])
  next
    case UnsubscribedRequest
    with run have "handle_cancel W ro p ?s tx = Inr (ef, tx')" by simp
    then show "proper (local_jid hosts) (key_text (p_sender p)) (key_text (p_target p)) tx ef tx'" by (rule handle_cancel_proper [OF mirror ok])
  qed (use run in simp_all)
qed

lemma remote_mutation_effect:
  assumes mirror: "mirror loc tx" and ok: "owner_ok (key_text owner)" and out: "\<not> loc jid"
    and run: "remote_mutation W ro kind granting owner jid tx = Inr (m, tx')"
  shows "only_between (key_text owner) jid tx tx'"
    and "kind = SubscribedRequest \<Longrightarrow> granting \<Longrightarrow> waits tx (key_text owner) jid \<Longrightarrow> grants (state (sub tx' (key_text owner) jid))"
    and "kind = UnsubscribedRequest \<Longrightarrow> \<not> grants (state (sub tx' (key_text owner) jid))"
proof -
  have peer: "peer_ok loc tx (key_text owner) jid None" using out by (simp add: peer_ok_def)
  show "only_between (key_text owner) jid tx tx'"
  proof (cases kind)
    case SubscribeRequest
    with run update_effect(3) [OF ok] show ?thesis by (auto simp: remote_mutation_def)
  next
    case UnsubscribeRequest
    with run existing_between(1) [OF ok] show ?thesis by (auto simp: remote_mutation_def)
  next
    case SubscribedRequest
    with run update_effect(3) [OF ok] resolve_effect(3) [OF ok] show ?thesis by (auto simp: remote_mutation_def split: if_splits)
  qed (use run cancel_mirror(2) [OF mirror ok peer] in \<open>auto simp: remote_mutation_def\<close>)
  show "kind = SubscribedRequest \<Longrightarrow> granting \<Longrightarrow> waits tx (key_text owner) jid \<Longrightarrow> grants (state (sub tx' (key_text owner) jid))"
    using run resolve_effect(1) [OF ok, of ro jid grant_approved tx m tx'] by (auto simp: remote_mutation_def)
  show "kind = UnsubscribedRequest \<Longrightarrow> \<not> grants (state (sub tx' (key_text owner) jid))"
    using run cancel_revokes [OF ok peer] by (auto simp: remote_mutation_def)
qed

text \<open>Sending either hands the stanza on, with nothing changed, or handles it.\<close>

definition sent :: "(string \<Rightarrow> bool) \<Rightarrow> string \<Rightarrow> string \<Rightarrow> 'w \<Rightarrow> PresenceSend \<Rightarrow> 'w \<Rightarrow> bool" where
  "sent loc a b tx result tx' \<longleftrightarrow>
     (case result of Continue \<Rightarrow> tx' = tx | Handled ef \<Rightarrow> proper loc a b tx ef tx')"

lemma send_remote_sent:
  assumes mirror: "mirror loc tx" and jids: "jid_ok (request_sender request)" "jid_ok (request_target request)"
    and out: "\<not> loc (ref_text (bare (request_target request)))"
    and run: "send_remote_subscription W u ro request tx = Inr (result, tx')"
  shows "sent loc (ref_text (bare (request_sender request))) (ref_text (bare (request_target request))) tx result tx'"
proof -
  let ?kind = "request_kind request"
  from run obtain owner contact where k: "account_key_of_jid (bare (request_sender request)) = Inr owner"
    "account_key_of_jid (bare (request_target request)) = Inr contact" by (auto simp: send_remote_subscription_def Let_def)
  have ok: "owner_ok (key_text owner)" and a: "ref_text (bare (request_sender request)) = key_text owner"
    and b: "ref_text (bare (request_target request)) = key_text contact"
    using jid_ok_key(2) [OF jids(1) k(1)] jid_ok_key(2) [OF jids(2) k(2)] by (auto simp: key_ok_def)
  note run = run [unfolded send_remote_subscription_def k map_err_simps ok_then_simps Let_def]
  from run obtain cur pending where cur: "tx_subscription W tx owner (key_text contact) = Inr cur"
    and pending: "tx_pending_exists W tx owner (key_text contact) = Inr pending" by auto
  define granted where "granted = grants (state (case cur of None \<Rightarrow> default_subscription | Some s \<Rightarrow> s))"
  define route where "route \<longleftrightarrow> (case ?kind of SubscribedRequest \<Rightarrow> pending \<and> \<not> granted | UnsubscribedRequest \<Rightarrow> pending \<or> granted | _ \<Rightarrow> True)"
  note run = run [unfolded cur pending map_err_simps ok_then_simps, folded granted_def, folded route_def]
  show ?thesis
  proof (cases "?kind \<in> {SubscribeRequest, SubscribedRequest, UnsubscribeRequest, UnsubscribedRequest}")
    case False
    with run have "result = Continue \<and> tx' = tx" by auto
    then show ?thesis by (simp add: sent_def)
  next
    case True
    from run True obtain m where m: "remote_mutation W ro ?kind (?kind = SubscribedRequest \<and> route) owner (key_text contact) tx = Inr (m, tx')"
      and result: "result = Handled (effects_new [owner] (retirements_finish
          (only_if route [step ToRemote (outbound_presence u owner (request_stanza request))] @
           push_mutation owner (fst (retire_extract owner m [])) @
           only_if (?kind = SubscribedRequest \<and> route) [Inr (CurrentPresence owner contact)] @
           only_if (?kind = UnsubscribedRequest \<and> granted) [Inr (UnavailablePresence owner contact)])
          (snd (retire_extract owner m []))))"
      by (auto simp: split_beta)
    note e = remote_mutation_effect [OF mirror ok out [unfolded b] m]
    have "waits tx (key_text owner) (key_text contact)" if "?kind = SubscribedRequest" route
      using that pending_law [OF ok pending] by (simp add: route_def)
    with e(2,3) have "honest (sub tx') (deliver (effects_new [owner] (retirements_finish
          (only_if route [step ToRemote (outbound_presence u owner (request_stanza request))] @
           push_mutation owner (fst (retire_extract owner m [])) @
           only_if (?kind = SubscribedRequest \<and> route) [Inr (CurrentPresence owner contact)] @
           only_if (?kind = UnsubscribedRequest \<and> granted) [Inr (UnavailablePresence owner contact)])
          (snd (retire_extract owner m [])))))"
      by (simp add: effects_new_def)
    with e(1) mirror_outside [OF mirror e(1) out [unfolded b]] show ?thesis
      by (simp add: sent_def proper_def result a b)
  qed
qed

lemma send_subscription_sent:
  assumes mirror: "mirror (local_jid hosts) tx" and jids: "jid_ok (request_sender request)" "jid_ok (request_target request)"
    and run: "send_subscription W u ro hosts request tx = Inr (result, tx')"
  shows "sent (local_jid hosts) (ref_text (bare (request_sender request))) (ref_text (bare (request_target request))) tx result tx'"
proof (cases "federates hosts (domainpart (request_sender request)) \<and> \<not> is_local_host hosts (domainpart (request_target request))")
  case True
  with run have "send_remote_subscription W u ro request tx = Inr (result, tx')" by (simp add: send_subscription_def Let_def)
  from send_remote_sent [OF mirror jids remote_jid [OF jids(2)] this] True show ?thesis by blast
next
  case not_remote: False
  let ?t = "request_target request" and ?kind = "request_kind request"
  show ?thesis
  proof (cases "?kind \<notin> {SubscribedRequest, UnsubscribedRequest} \<or> localpart ?t = None \<or> resourcepart ?t \<noteq> None")
    case True
    with run not_remote have "result = Continue \<and> tx' = tx" by (auto simp: send_subscription_def Let_def)
    then show ?thesis by (simp add: sent_def)
  next
    case False
    then have b: "ref_text ?t = ref_text (bare ?t)" using jid_ok_key(3) [OF jids(2)] by simp
    note run = run [unfolded send_subscription_def Let_def if_not_P [OF not_remote] if_not_P [OF False]]
    from run obtain owner where k: "account_key_of_jid (bare (request_sender request)) = Inr owner" by auto
    have ok: "owner_ok (key_text owner)" and a: "ref_text (bare (request_sender request)) = key_text owner"
      using jid_ok_key(2) [OF jids(1) k] by (auto simp: key_ok_def)
    note run = run [unfolded k map_err_simps ok_then_simps b]
    from run obtain cur pending where cur: "tx_subscription W tx owner (ref_text (bare ?t)) = Inr cur"
      and pending: "tx_pending_exists W tx owner (ref_text (bare ?t)) = Inr pending" by auto
    note run = run [unfolded cur pending map_err_simps ok_then_simps]
    from run consider "result = Continue" "tx' = tx"
      | m where "tx' = tx \<or> \<not> pending \<and> update_subscription W ro owner (ref_text (bare ?t)) pre_approve tx = Inr (m, tx') \<or>
          update_existing_subscription W ro owner (ref_text (bare ?t)) revoke_approval tx = Inr (m, tx')"
        "result = Handled (effects_new [owner] (retirements_finish (push_mutation owner (fst (retire_extract owner m []))) (snd (retire_extract owner m []))))"
      by (fastforce simp: split_beta split: if_splits)
    then show ?thesis
    proof cases
      case 1
      then show ?thesis by (simp add: sent_def)
    next
      case 2
      from 2(1) consider "tx' = tx" | "\<not> pending" "update_subscription W ro owner (ref_text (bare ?t)) pre_approve tx = Inr (m, tx')"
        | "update_existing_subscription W ro owner (ref_text (bare ?t)) revoke_approval tx = Inr (m, tx')" by blast
      then have "only_between (key_text owner) (ref_text (bare ?t)) tx tx' \<and> mirror (local_jid hosts) tx'"
      proof cases
        case 1
        with mirror show ?thesis by simp
      next
        case 2
        note e = update_effect [OF ok 2(2)]
        have "\<not> waits tx (key_text owner) (ref_text (bare ?t))" using pending_law [OF ok pending] 2(1) by simp
        with mirror_between [OF mirror e(3)] e paired_pre_approval show ?thesis by simp
      next
        case 3
        have none: "revoke_approval default_subscription = None" by (simp add: revoke_approval_def default_subscription_def)
        note e = existing_effect [OF ok 3 none]
        with mirror_between [OF mirror e(3)] paired_revoke_approval show ?thesis by simp
      qed
      then show ?thesis by (simp add: sent_def proper_def 2(2) effects_new_def a)
    qed
  qed
qed

lemma stored_local_peer:
  assumes "stored_local_account (tx_account W tx) b hosts = Inr contact" and "owner_ok b"
  shows "peer_ok (local_jid hosts) tx a b (map_option (\<lambda>k. (k, a)) contact)"
    and "contact = Some k \<Longrightarrow> key_text k = b"
proof -
  show k: "key_text k = b" if "contact = Some k" for k
    using assms(1) that by (auto simp: stored_local_account_def dest: local_candidate_text split: option.splits if_splits)
  have "\<not> live tx b" if none: "contact = None" and l: "local_jid hosts b"
  proof -
    from l obtain c where c: "local_candidate b hosts = Some c" by (auto simp: local_jid_def)
    with assms(1) none obtain found where "account_known (tx_account W tx) c ''roster_write'' = Inr found" "\<not> found"
      by (auto simp: stored_local_account_def split: if_splits)
    with known_live local_candidate_text [OF c] show ?thesis by blast
  qed
  with k assms(2) show "peer_ok (local_jid hosts) tx a b (map_option (\<lambda>k. (k, a)) contact)"
    by (cases contact) (simp_all add: peer_ok_def)
qed

lemma federated_contact_text: "federated_contact owner jid hosts = Some r \<Longrightarrow> key_text r = jid"
  by (auto simp: federated_contact_def roster_jid_key split: if_splits option.splits sum.splits)

lemma remove_item_proper:
  assumes mirror: "mirror (local_jid hosts) tx" and ok: "owner_ok (key_text owner)" "owner_ok b"
    and run: "remove_item W u ro hosts owner b (key_text owner) tx = Inr (ef, tx')"
  shows "proper (local_jid hosts) (key_text owner) b tx ef tx'"
proof -
  from run obtain contact removal where c: "stored_local_account (tx_account W tx) b hosts = Inr contact"
    and r: "state_remove_item W ro owner (key_text owner) b contact tx = Inr (Some removal, tx')"
    and ef: "deliver ef = removal_effects u owner b contact (federated_contact owner b hosts) removal"
    by (auto simp: remove_item_def effects_new_def)
  note peer = stored_local_peer(1) [OF c ok(2), of "key_text owner"] and key = stored_local_peer(2) [OF c ok(2)]
  have "honest (sub tx') (deliver ef)" unfolding ef
    using removal_revokes [OF ok(1) peer r] key federated_contact_text by (intro honest_removal) auto
  with remove_mirror [OF mirror ok(1) peer r] show ?thesis by (simp add: proper_def)
qed

lemma roster_set_proper:
  assumes mirror: "mirror (local_jid hosts) tx" and jid: "jid_ok (iq_sender request)" and u: "control_free u"
    and run: "roster_set W u ro hosts request tx = Inr (reply, tx')"
  shows "\<exists>b. proper (local_jid hosts) (ref_text (bare (iq_sender request))) b tx (reply_effects reply) tx'"
proof -
  from run obtain owner parsed where k: "owner_of request = Inr owner" and parsed: "parse_set u (iq_payload request) = Inr parsed"
    by (auto simp: roster_set_def)
  from k have "account_key_of_jid (bare (iq_sender request)) = Inr owner" by (simp add: owner_of_def split: if_splits)
  from jid_ok_key(2) [OF jid this] have ok: "owner_ok (key_text owner)" and a: "ref_text (bare (iq_sender request)) = key_text owner"
    by (auto simp: key_ok_def)
  note run = run [unfolded roster_set_def k parsed map_err_simps ok_then_simps a]
  show ?thesis unfolding a
  proof (cases parsed)
    case (RosterUpdate update)
    let ?b = "up_jid update"
    from run RosterUpdate obtain cur v where cur: "tx_subscription W tx owner ?b = Inr cur"
      and put: "tx_put_item W owner \<lparr>item_jid = ?b, item_name = up_name update, item_groups = up_groups update,
          subscription = (case cur of None \<Rightarrow> default_subscription | Some s \<Rightarrow> s)\<rparr> (quota_of ro owner) tx = Inr (v, tx')"
      and ef: "honest (sub tx') (deliver (reply_effects reply))"
      by (auto simp: Let_def iq_reply_new_def effects_new_def split: if_splits)
    have same: "(case cur of None \<Rightarrow> default_subscription | Some s \<Rightarrow> s) = sub tx (key_text owner) ?b"
      using subscription_law [OF ok cur] by (simp add: sub_def)
    note e = put_law [OF ok put, simplified same, simplified]
    have "sub tx' = sub tx" using e sub_upd [of tx' tx] by simp
    moreover have between: "only_between (key_text owner) ?b tx tx'" using e by (auto simp: only_between_def housed_def)
    ultimately have "mirror (local_jid hosts) tx'" using mirror_between [OF mirror between] e by simp
    with between ef show "\<exists>b. proper (local_jid hosts) (key_text owner) b tx (reply_effects reply) tx'" unfolding proper_def by blast
  next
    case (RosterRemove b)
    then obtain s j where "parse_in u s = Inr j" "b = ref_text (resolve j)" "\<not> is_full (resolve j)"
      using parsed by (auto simp: parse_set_def Let_def split: if_splits)
    with parsed_jid_ok [OF u] jid_ok_key(3) have b: "owner_ok b"
      by (metis jid_ok_def is_full_def option.map_disc_iff resourcepart_def)
    from run RosterRemove obtain ef where "remove_item W u ro hosts owner b (key_text owner) tx = Inr (ef, tx')" "reply_effects reply = ef"
      by (auto simp: iq_reply_new_def)
    with remove_item_proper [OF mirror ok b] show "\<exists>b. proper (local_jid hosts) (key_text owner) b tx (reply_effects reply) tx'" by blast
  qed
qed

end

section \<open>Events\<close>

text \<open>
  The transactions the server opens for the roster extension: a roster set query, a subscription stanza an account sends, and one that
  reaches an account. The server commits the transaction of a handler that returns and
  then runs its deliveries; it drops the transaction of one that fails.
\<close>

datatype RosterEvent = RosterQuery IqRequest | SendPresence PresenceRequest | ReceivePresence PresenceRequest

definition run_event :: "UnicodeData \<Rightarrow> Roster \<Rightarrow> HostLookup \<Rightarrow> RosterEvent \<Rightarrow> Tables \<Rightarrow> (Effects \<times> Tables) option" where
  "run_event u ro hosts event db =
     (let tx = begin_write db in
      case event of
        RosterQuery request \<Rightarrow>
          (case roster_set redb_writes u ro hosts request tx of
             Inr (reply, tx) \<Rightarrow> Some (reply_effects reply, commit tx) | Inl _ \<Rightarrow> None)
      | SendPresence request \<Rightarrow>
          (case send_subscription redb_writes u ro hosts request tx of
             Inr (Handled effects, tx) \<Rightarrow> Some (effects, commit tx) | Inr (Continue, tx) \<Rightarrow> None | Inl _ \<Rightarrow> None)
      | ReceivePresence request \<Rightarrow>
          (case roster_receive redb_writes u ro hosts request tx of
             Inr (effects, tx) \<Rightarrow> Some (effects, commit tx) | Inl _ \<Rightarrow> None))"

definition event_ok :: "RosterEvent \<Rightarrow> bool" where
  "event_ok event \<longleftrightarrow>
     (case event of
        RosterQuery request \<Rightarrow> jid_ok (iq_sender request)
      | SendPresence request \<Rightarrow> jid_ok (request_sender request) \<and> jid_ok (request_target request)
      | ReceivePresence request \<Rightarrow> jid_ok (request_sender request) \<and> jid_ok (request_target request))"

text \<open>The account that asked, whose address the server itself put on the request.\<close>

definition asker :: "RosterEvent \<Rightarrow> string" where
  "asker event =
     (case event of
        RosterQuery request \<Rightarrow> ref_text (bare (iq_sender request))
      | SendPresence request \<Rightarrow> ref_text (bare (request_sender request))
      | ReceivePresence request \<Rightarrow> ref_text (bare (request_sender request)))"

text \<open>What the roster of one account says of another.\<close>

definition held :: "Tables \<Rightarrow> string \<Rightarrow> RosterJid \<Rightarrow> RosterSubscription" where
  "held db = redb.sub (begin_write db)"

lemma begin_commit:
  "redb.sub (begin_write (commit tx)) = redb.sub tx" "redb.only_between a b t (begin_write (commit tx)) = redb.only_between a b t tx"
  "redb.mirror loc (begin_write (commit tx)) = redb.mirror loc tx"
proof -
  have "redb_view (begin_write (commit tx)) = redb_view tx" "redb_waits (begin_write (commit tx)) = redb_waits tx"
    "redb_live (begin_write (commit tx)) = redb_live tx"
    by (simp_all add: redb_view_def redb_waits_def redb_live_def account_exists_def begin_write_def commit_def fun_eq_iff)
  then show "redb.sub (begin_write (commit tx)) = redb.sub tx" "redb.only_between a b t (begin_write (commit tx)) = redb.only_between a b t tx"
    "redb.mirror loc (begin_write (commit tx)) = redb.mirror loc tx"
    by (simp_all add: redb.sub_def redb.only_between_def redb.mirror_def redb.housed_def fun_eq_iff mirrored_def)
qed

lemma event_proper:
  assumes "event_ok event" and "control_free u" and step: "rosters_in_step hosts db"
    and run: "run_event u ro hosts event db = Some (ef, db')"
  shows "\<exists>b. redb.proper (local_jid hosts) (asker event) b (begin_write db) ef (begin_write db')"
proof -
  have mirror: "redb.mirror (local_jid hosts) (begin_write db)" using step by (simp add: rosters_in_step_def)
  have "\<exists>b tx. db' = commit tx \<and> redb.proper (local_jid hosts) (asker event) b (begin_write db) ef tx"
  proof (cases event)
    case (RosterQuery request)
    with run obtain reply tx where "roster_set redb_writes u ro hosts request (begin_write db) = Inr (reply, tx)" "ef = reply_effects reply" "db' = commit tx"
      by (auto simp: run_event_def split: sum.splits)
    with redb.roster_set_proper [OF mirror _ assms(2) this(1)] assms(1) RosterQuery show ?thesis
      by (auto simp: event_ok_def asker_def)
  next
    case (SendPresence request)
    with run obtain tx where "send_subscription redb_writes u ro hosts request (begin_write db) = Inr (Handled ef, tx)" "db' = commit tx"
      by (auto simp: run_event_def split: sum.splits PresenceSend.splits)
    with redb.send_subscription_sent [OF mirror _ _ this(1)] assms(1) SendPresence show ?thesis
      by (auto simp: event_ok_def asker_def redb.sent_def)
  next
    case (ReceivePresence request)
    with run obtain tx where "roster_receive redb_writes u ro hosts request (begin_write db) = Inr (ef, tx)" "db' = commit tx"
      by (auto simp: run_event_def split: sum.splits)
    with redb.roster_receive_proper [OF mirror _ _ this(1)] assms(1) ReceivePresence show ?thesis
      by (auto simp: event_ok_def asker_def)
  qed
  then show ?thesis by (auto simp: redb.proper_def begin_commit)
qed

lemma event_accounts:
  assumes "\<exists>b. redb.proper loc a b (begin_write db) ef (begin_write db')"
  shows "fmlookup (ACCOUNTS db') k \<noteq> None \<longleftrightarrow> fmlookup (ACCOUNTS db) k \<noteq> None"
proof -
  have "redb_live (begin_write db') k = redb_live (begin_write db) k"
    using assms by (auto simp: redb.proper_def redb.only_between_def)
  then show ?thesis by (simp add: redb_live_def account_exists_def begin_write_def)
qed

section \<open>The server\<close>

text \<open>
  Everything that changes the stored accounts, rosters, offline messages, private XML and vCards: account administration,
  the roster events, the offline queue and the content stores, in any order and for any accounts.
\<close>

inductive server_step :: "UnicodeData \<Rightarrow> Roster \<Rightarrow> HostLookup \<Rightarrow> nat \<Rightarrow> Tables \<Rightarrow> Tables \<Rightarrow> bool"
  for u ro hosts redb_max where
  create: "server_step u ro hosts redb_max db (commit tx)"
    if "owner_ok (key_text (new_key account))" "create_account account (begin_write db) = Some (Inr ((), tx))"
| credentials: "server_step u ro hosts redb_max db (commit tx)"
    if "owner_ok (key_text key)" "replace_credentials key c (begin_write db) = Some (Inr ((), tx))"
| delete: "server_step u ro hosts redb_max db (remaining out)"
    if "key_ok account" "handlers \<in> handler_lists u ro" "delete handlers hosts account db = Some (Inr out)"
| event: "server_step u ro hosts redb_max db db'" if "event_ok event" "run_event u ro hosts event db = Some (effects, db')"
| store_message: "server_step u ro hosts redb_max db (commit tx)"
    if "offline_store redb_max rfc3339 limits m (begin_write db) = Inr (outcome, tx)"
| acknowledge: "server_step u ro hosts redb_max db (commit (offline_acknowledge key through (begin_write db)))"
| acknowledge_one: "server_step u ro hosts redb_max db (commit (offline_acknowledge_one key seq (begin_write db)))"
| private_xml: "server_step u ro hosts redb_max db (commit tx)"
    if "update_private_xml key changes quota (begin_write db) = Inr ((), tx)"
| vcard: "server_step u ro hosts redb_max db (commit tx)"
    if "replace_vcard redb_max key content limit (begin_write db) = Inr ((), tx)"

inductive reachable_db :: "UnicodeData \<Rightarrow> Roster \<Rightarrow> HostLookup \<Rightarrow> nat \<Rightarrow> Tables \<Rightarrow> bool" for u ro hosts redb_max where
  empty: "reachable_db u ro hosts redb_max empty_tables"
| more: "reachable_db u ro hosts redb_max db \<Longrightarrow> server_step u ro hosts redb_max db db' \<Longrightarrow> reachable_db u ro hosts redb_max db'"

lemma rosters_kept_in_step:
  assumes step: "rosters_in_step hosts db" and same: "ITEMS db' = ITEMS db" "PENDING db' = PENDING db"
    and more: "\<forall>k. fmlookup (ACCOUNTS db) k \<noteq> None \<longrightarrow> fmlookup (ACCOUNTS db') k \<noteq> None" and ok: "accounts_ok db'"
  shows "rosters_in_step hosts db'"
proof -
  have view: "redb_view (begin_write db') = redb_view (begin_write db)" "redb_waits (begin_write db') = redb_waits (begin_write db)"
    by (rule redb_view_same redb_waits_same, simp add: begin_write_def same)+
  moreover have "\<forall>a. redb_live (begin_write db) a \<longrightarrow> redb_live (begin_write db') a"
    using more by (simp add: redb_live_def account_exists_def begin_write_def)
  moreover have "redb.housed (begin_write db)" "mirrored (local_jid hosts) (redb.sub (begin_write db)) (redb_waits (begin_write db))"
    using step by (simp_all add: rosters_in_step_def redb.mirror_def)
  ultimately have "redb.housed (begin_write db')" "mirrored (local_jid hosts) (redb.sub (begin_write db')) (redb_waits (begin_write db'))"
    unfolding redb.housed_def mirrored_def redb.sub_def view by blast+
  with ok show ?thesis by (simp add: rosters_in_step_def redb.mirror_def)
qed

lemma create_account_tables:
  assumes "create_account account (begin_write db) = Some (Inr ((), tx))"
  shows "\<exists>r. commit tx = db\<lparr>ACCOUNTS := fmupd (key_text (new_key account)) r (ACCOUNTS db)\<rparr>"
  using assms by (auto simp: create_account_def Let_def put_record_def begin_write_def commit_def split: if_splits sum.splits)

lemma replace_credentials_tables:
  assumes "replace_credentials key c (begin_write db) = Some (Inr ((), tx))"
  shows "\<exists>r. commit tx = db\<lparr>ACCOUNTS := fmupd (key_text key) r (ACCOUNTS db)\<rparr>"
  using assms by (auto simp: replace_credentials_def put_record_def begin_write_def commit_def split: option.splits sum.splits)

text \<open>The content stores leave the accounts and the rosters alone.\<close>

definition content_only :: "RedbWrite \<Rightarrow> RedbWrite \<Rightarrow> bool" where
  "content_only tx tx' \<longleftrightarrow> ACCOUNTS (work tx') = ACCOUNTS (work tx) \<and> ITEMS (work tx') = ITEMS (work tx) \<and>
     PENDING (work tx') = PENDING (work tx)"

lemma content_writes:
  "push_offline_message redb_max owner at body tx = Inr (n, tx') \<Longrightarrow> content_only tx tx'"
  "content_only tx (offline_acknowledge owner through tx)" "content_only tx (offline_acknowledge_one owner seq tx)"
  "update_private_xml owner changes quota tx = Inr (x, tx') \<Longrightarrow> content_only tx tx'"
  "replace_vcard redb_max owner content limit tx = Inr (x, tx') \<Longrightarrow> content_only tx tx'"
  by (auto simp: content_only_def push_offline_message_def offline_acknowledge_def offline_acknowledge_one_def
      remove_offline_messages_through_def remove_offline_message_def update_private_xml_def replace_vcard_def Let_def
      split: if_splits option.splits)

lemma offline_store_Inr:
  assumes "offline_store redb_max rfc3339 limits m tx = Inr (outcome, tx')"
  obtains "tx' = tx" "\<And>seq. outcome \<noteq> Stored seq"
    | at body seq where "stamped rfc3339 m = Inr (at, body)" "outcome = Stored seq"
      "offline_count (work tx) (um_recipient m) < offline_limit limits (domain (um_recipient m))"
      "push_offline_message redb_max (um_recipient m) at (as_bytes body) tx = Inr (seq, tx')"
proof (cases "chat_state_only (um_stanza m)")
  case True
  with assms show thesis by (intro that(1)) (auto simp: offline_store_def split: if_splits)
next
  case False
  with assms obtain at body where st: "stamped rfc3339 m = Inr (at, body)"
    and room: "offline_count (work tx) (um_recipient m) < offline_limit limits (domain (um_recipient m))"
    by (auto simp: offline_store_def Let_def split: if_splits)
  show thesis
  proof (cases "push_offline_message redb_max (um_recipient m) at (as_bytes body) tx")
    case (Inl e)
    with assms st False room have "tx' = tx" "store_error ''offline_push'' e = Inr outcome"
      by (auto simp: offline_store_def Let_def split: if_splits)
    then show thesis by (intro that(1)) (auto simp: store_error_def split: if_splits)
  next
    case (Inr r)
    with assms st False room show thesis
      by (intro that(2) [OF st _ room, of "fst r"]) (auto simp: offline_store_def Let_def split: if_splits prod.splits)
  qed
qed

lemma offline_store_content: "offline_store redb_max rfc3339 limits m tx = Inr (outcome, tx') \<Longrightarrow> content_only tx tx'"
  by (erule offline_store_Inr) (auto simp: content_only_def dest: content_writes(1) [unfolded content_only_def])

lemma content_step:
  assumes "rosters_in_step hosts db" and "content_only (begin_write db) tx"
  shows "rosters_in_step hosts (commit tx)"
  using assms by (intro rosters_kept_in_step [OF assms(1)]) (auto simp: content_only_def commit_def begin_write_def rosters_in_step_def accounts_ok_def)

lemma server_step_in_step:
  assumes "server_step u ro hosts redb_max db db'" and u: "control_free u" and step: "rosters_in_step hosts db"
  shows "rosters_in_step hosts db'"
  using assms(1)
proof cases
  case (create account tx)
  then show ?thesis using create_account_tables step
    by (intro rosters_kept_in_step [OF step]) (fastforce simp: accounts_ok_def rosters_in_step_def split: if_splits)+
next
  case (credentials key c tx)
  then show ?thesis using replace_credentials_tables step
    by (intro rosters_kept_in_step [OF step]) (fastforce simp: accounts_ok_def rosters_in_step_def split: if_splits)+
next
  case (delete account handlers out)
  then show ?thesis using deletion_rosters(2) [OF _ _ step] by blast
next
  case (event e effects)
  note proper = event_proper [OF event(1) u step event(2)]
  then show ?thesis using step event_accounts [OF proper]
    by (auto simp: rosters_in_step_def redb.proper_def accounts_ok_def)
qed (auto intro: content_step [OF step] content_writes offline_store_content)

lemma reachable_in_step:
  assumes u: "control_free u" and db: "reachable_db u ro hosts redb_max db"
  shows "rosters_in_step hosts db"
  using db
proof induction
  case empty
  show ?case
    by (simp add: rosters_in_step_def accounts_ok_def redb.mirror_def mirrored_def redb.housed_def redb.sub_def redb_view_def redb_waits_def
        begin_write_def empty_tables_def state_defs)
next
  case (more db db')
  then show ?case using server_step_in_step [OF _ u] by blast
qed

section \<open>Sample data\<close>

definition clean_tables :: UnicodeData where
  "clean_tables = ascii_tables\<lparr>enforce_username := (\<lambda>s. if CHR 0x00 \<in> set s then None else Some s),
     uts46_process := (\<lambda>s. if CHR 0x00 \<in> set s then None else Some (Passthrough, [])),
     canonical_ipv6 := (\<lambda>s. if CHR 0x00 \<in> set s then None else Some s)\<rparr>"

lemma clean_control_free: "control_free clean_tables"
  by (simp add: control_free_def clean_tables_def ascii_tables_def)

definition addr :: "string \<Rightarrow> JidRef" where
  "addr name = \<lparr>ref_text = name @ ''@x'', localpart_end = Some 1, resourcepart_start = None\<rparr>"

definition asking :: RosterEvent where
  "asking = ReceivePresence \<lparr>request_kind = SubscribeRequest, request_sender = addr ''a'', request_target = addr ''b'',
     request_stanza = stanza_builder_in (PresenceStanza Subscribe) Client\<rparr>"

lemma addr_ok: "jid_ok (addr ''a'')" "jid_ok (addr ''b'')"
proof -
  have "jid_ok (addr [c])" if c: "c \<in> {CHR ''a'', CHR ''b''}" for c
  proof -
    obtain j where j: "from_trusted_parts_in (Some [c]) ''x'' None = Inr j"
      using c by (auto simp: from_trusted_parts_in_def compose_parts_ok part_ok_def separators_free_def
          MAX_PART_LEN_def jid_string_def is_str_def as_bytes_def byte_of_char_def)
    moreover have "resolve j = addr [c]" using from_trusted_parts_ok(1) [OF j] by (simp add: addr_def jid_string_def)
    moreover have "owner_ok (ref_text (bare (addr [c])))"
      using c by (auto simp: owner_ok_def addr_def bare_def bare_len_def)
    ultimately show ?thesis unfolding jid_ok_def by blast
  qed
  then show "jid_ok (addr ''a'')" "jid_ok (addr ''b'')" by simp_all
qed

lemma asking_ok: "event_ok asking" "asker asking = ''a@x''"
  using addr_ok by (simp_all add: event_ok_def asking_def asker_def addr_def bare_def bare_len_def)

lemma accounts_reachable: "reachable_db clean_tables fmempty sample_hosts 4096 two_accounts"
proof -
  obtain r where r: "encode_credentials sample_credentials = Some r"
    using encode_credentials_holds [OF sample_credentials_ok] by blast
  have v: "validate_iterations sample_credentials = Inr ()"
    by (simp add: validate_iterations_def sample_credentials_def sample_verifier_def SCRAM_POLICY_ITERATIONS_def)
  let ?db = "empty_tables\<lparr>ACCOUNTS := fmupd ''b@x'' sample_record fmempty\<rparr>"
  have "create_account \<lparr>new_key = key_b, new_credentials = sample_credentials\<rparr> (begin_write empty_tables) =
      Some (Inr ((), (begin_write empty_tables)\<lparr>work := ?db\<rparr>))"
    by (simp add: create_account_def put_record_def r v key_b_def begin_write_def empty_tables_def sample_record_def)
  from server_step.create [OF _ this] have "server_step clean_tables fmempty sample_hosts 4096 empty_tables ?db"
    using sample_keys(2) by (simp add: key_b_def commit_def begin_write_def)
  then have "reachable_db clean_tables fmempty sample_hosts 4096 ?db" by (rule reachable_db.more [OF reachable_db.empty])
  moreover have "create_account \<lparr>new_key = key_a, new_credentials = sample_credentials\<rparr> (begin_write ?db) =
      Some (Inr ((), (begin_write ?db)\<lparr>work := two_accounts\<rparr>))"
    by (simp add: create_account_def put_record_def r v key_a_def begin_write_def empty_tables_def sample_record_def two_accounts_def)
  from server_step.create [OF _ this] have "server_step clean_tables fmempty sample_hosts 4096 ?db two_accounts"
    using sample_keys(1) by (simp add: key_a_def commit_def begin_write_def)
  ultimately show ?thesis by (rule reachable_db.more)
qed

lemma asking_runs: "\<exists>ef db'. run_event clean_tables fmempty sample_hosts asking two_accounts = Some (ef, db')"
proof -
  let ?tx = "begin_write two_accounts" and ?body = "as_bytes (stanza_write_xml (stanza_builder_in (PresenceStanza Subscribe) Client))"
  let ?item = "(bare_item ''b@x'')\<lparr>subscription := default_subscription\<lparr>pending_out := True\<rparr>\<rparr>"
  define t where "t = ?tx\<lparr>work := two_accounts\<lparr>PENDING := fmupd (item_key key_b ''a@x'') ?body fmempty\<rparr>\<rparr>"
  have limits: "quota_of fmempty k = default_quota" "max_pending_subscription_requests (limits_of fmempty h) = 100" for k h
    by (simp_all add: quota_of_def limits_of_def default_limits_def)
  have pending: "put_pending_request key_b \<lparr>sender = ''a@x'', stanza = ?body\<rparr> 100 ?tx = Inr ((), t)"
    by (simp add: put_pending_request_Inr t_def begin_write_def two_accounts_def empty_tables_def account_exists_def key_b_def)
  have fits: "item_fits ?item" by (simp add: item_fits_def bare_item_def U32_MAX_def max_of_def item_bytes_def name_bytes_def encode_subscription_def)
  have put: "\<exists>t'. put_roster_item key_a ?item default_quota t = Inr (1, t')"
  proof -
    let ?key = "item_key key_a ''b@x''"
    have range: "in_owner_range ''a@x'' ?key" by (simp add: item_key_def key_a_def)
    have len: "length ?key + length (item_bytes ?item) \<le> 30"
      by (simp add: item_key_def key_a_def item_key_text_def bare_item_def item_bytes_def name_bytes_def encode_subscription_def)
    have "within_quota default_quota ''a@x'' (fmupd ?key (item_bytes ?item) fmempty)"
      using len by (simp add: within_quota_def owner_usage_put [OF range] default_quota_def)
    then have "admit_item fmempty ''a@x'' ?key (length (item_bytes ?item)) default_quota = Inr ()"
      using len by (simp add: admit_item_exact [OF default_quota_usize range] max_of_def)
    then show ?thesis using fits
      by (simp add: put_roster_item_Inr t_def begin_write_def two_accounts_def empty_tables_def account_exists_def key_a_def
          roster_version_def MAX_GROUPS_PER_ITEM_def max_of_def bare_item_def)
  qed
  have parties: "parties_new \<lparr>request_kind = SubscribeRequest, request_sender = addr ''a'', request_target = addr ''b'',
      request_stanza = stanza_builder_in (PresenceStanza Subscribe) Client\<rparr> =
      Inr \<lparr>p_sender = key_a, p_target = key_b, p_sender_jid = ''a@x'', p_target_jid = ''b@x''\<rparr>"
    by (simp add: parties_new_def addr_def bare_def bare_len_def account_key_of_jid_def is_full_def localpart_def key_a_def key_b_def)
  have known: "read_account two_accounts key_a = Inr (Some \<lparr>account_key = key_a\<rparr>)" "read_account two_accounts key_b = Inr (Some \<lparr>account_key = key_b\<rparr>)"
    by (simp_all add: read_account_def two_accounts_def key_a_def key_b_def sample_record_decodes)
  from put obtain t' where put: "put_roster_item key_a ?item default_quota t = Inr (1, t')" by blast
  have "write_subscription redb_writes fmempty key_a ''b@x'' None set_pending_out t = Inr (Some (PushItem \<lparr>version = 1, mutated = ?item\<rparr>), t')"
    using put by (simp add: write_subscription_def set_pending_out_def limits redb_writes_def default_subscription_def subscribed_to_def)
  moreover have "roster_subscription (work t) key_a ''b@x'' = Inr None" "roster_subscription two_accounts key_b ''a@x'' = Inr None"
    by (simp_all add: roster_subscription_def t_def two_accounts_def empty_tables_def)
  moreover have "tx_subscription redb_writes tx = roster_subscription (work tx)" "tx_put_pending redb_writes = put_pending_request"
    "work ?tx = two_accounts" for tx
    by (simp_all add: redb_writes_def begin_write_def)
  ultimately have "request_subscription redb_writes fmempty key_a ''a@x'' key_b ''b@x'' ?body 100 ?tx =
      Inr (PendingRequest (Some (PushItem \<lparr>version = 1, mutated = ?item\<rparr>)), t')"
    by (simp only: request_subscription_def update_subscription_def pending some_and_def ok_then_simps option.case if_False sum.case prod.case unit.case)
  moreover have "check_parties redb_writes ?tx \<lparr>p_sender = key_a, p_target = key_b, p_sender_jid = ''a@x'', p_target_jid = ''b@x''\<rparr> = Inr True"
    by (simp add: check_parties_def require_account_def account_known_def redb_writes_def known begin_write_def)
  ultimately have "\<exists>ef. handle_request redb_writes fmempty \<lparr>p_sender = key_a, p_target = key_b, p_sender_jid = ''a@x'', p_target_jid = ''b@x''\<rparr>
      (stanza_builder_in (PresenceStanza Subscribe) Client) 100 ?tx = Inr (ef, t')"
    by (simp add: handle_request_def)
  then obtain ef where "roster_receive redb_writes clean_tables fmempty sample_hosts \<lparr>request_kind = SubscribeRequest, request_sender = addr ''a'',
      request_target = addr ''b'', request_stanza = stanza_builder_in (PresenceStanza Subscribe) Client\<rparr> ?tx = Inr (ef, t')"
    by (auto simp: roster_receive_def parties limits sample_hosts_def)
  then show ?thesis by (simp add: run_event_def asking_def)
qed

section \<open>Properties\<close>

text \<open>
  C1. In every database the server can reach, by creating, changing and deleting accounts, roster queries,
  subscription stanzas between local and federated accounts, offline messages and the content stores in any order,
  the rosters of the local accounts agree: one is subscribed to another exactly where the other grants it, one is
  asking exactly where the other has its request pending, and deleted accounts leave nothing behind.
\<close>

theorem rosters_always_in_step:
  assumes "control_free u" and "reachable_db u ro hosts redb_max db"
    and "local_jid hosts a" and "local_jid hosts b" and "a \<noteq> b"
  shows "(subscribed_to (state (held db a b)) \<longleftrightarrow> grants (state (held db b a))) \<and>
    (pending_out (held db a b) \<longleftrightarrow> redb_waits (begin_write db) b a) \<and>
    (fmlookup (ACCOUNTS db) a = None \<longrightarrow> held db a b = default_subscription \<and> \<not> redb_waits (begin_write db) a b)"
proof -
  have "rosters_in_step hosts db" by (rule reachable_in_step [OF assms(1,2)])
  then have m: "mirrored (local_jid hosts) (held db) (redb_waits (begin_write db))" and h: "redb.housed (begin_write db)"
    by (simp_all add: rosters_in_step_def redb.mirror_def held_def)
  have "in_step (held db a b) (held db b a) (redb_waits (begin_write db) b a)" using m assms(3-5) by (simp add: mirrored_def)
  moreover have "held db a b = default_subscription \<and> \<not> redb_waits (begin_write db) a b" if "fmlookup (ACCOUNTS db) a = None"
    using redb.absent_sub [OF h] that by (simp add: redb_live_def account_exists_def begin_write_def held_def)
  ultimately show ?thesis by (simp add: in_step_def)
qed

theorem rosters_always_in_step_witness:
  "\<exists>ef db. run_event clean_tables fmempty sample_hosts asking two_accounts = Some (ef, db) \<and>
    (pending_out (held db ''a@x'' ''b@x'') \<longleftrightarrow> redb_waits (begin_write db) ''b@x'' ''a@x'')"
proof -
  obtain ef db where run: "run_event clean_tables fmempty sample_hosts asking two_accounts = Some (ef, db)" using asking_runs by blast
  have "reachable_db clean_tables fmempty sample_hosts 4096 db"
    by (rule reachable_db.more [OF accounts_reachable server_step.event [OF asking_ok(1) run]])
  from rosters_always_in_step [OF clean_control_free this sample_local]
  have "pending_out (held db ''a@x'' ''b@x'') \<longleftrightarrow> redb_waits (begin_write db) ''b@x'' ''a@x''" by simp
  with run show ?thesis by blast
qed

text \<open>
  C2. Presence follows the rosters. When the rosters are in step and a roster query or a subscription stanza, local or
  federated, is handled, then by the time its deliveries run, the server has one account's presence sent only to accounts it grants it to, and
  an account told that another is unavailable is one with no grant. The rosters stay in step, and no row changes
  but those the account that asked and one other hold for each other.
\<close>

theorem presence_follows_rosters:
  assumes "event_ok event" and "control_free u" and "rosters_in_step hosts db"
    and "run_event u ro hosts event db = Some (ef, db')"
  shows "(\<forall>steps \<in> set (deliver ef). \<forall>a b.
      (Inr (CurrentPresence a b) \<in> set steps \<longrightarrow> grants (state (held db' (key_text a) (key_text b)))) \<and>
      (Inr (UnavailablePresence a b) \<in> set steps \<longrightarrow> \<not> grants (state (held db' (key_text a) (key_text b))))) \<and>
    rosters_in_step hosts db' \<and>
    (\<exists>other. \<forall>a b. {a, b} \<noteq> {asker event, other} \<longrightarrow>
      held db' a b = held db a b \<and> redb_waits (begin_write db') a b = redb_waits (begin_write db) a b)"
proof -
  note proper = event_proper [OF assms]
  have "honest (held db') (deliver ef)" using proper by (auto simp: redb.proper_def held_def)
  then have "\<forall>steps \<in> set (deliver ef). \<forall>a b.
      (Inr (CurrentPresence a b) \<in> set steps \<longrightarrow> grants (state (held db' (key_text a) (key_text b)))) \<and>
      (Inr (UnavailablePresence a b) \<in> set steps \<longrightarrow> \<not> grants (state (held db' (key_text a) (key_text b))))"
    unfolding honest_def list_all_iff by (metis sound.simps(1,2))
  moreover have "rosters_in_step hosts db'"
    using proper assms(3) event_accounts [OF proper] by (auto simp: rosters_in_step_def redb.proper_def accounts_ok_def)
  moreover obtain other where "redb.only_between (asker event) other (begin_write db) (begin_write db')"
    using proper by (auto simp: redb.proper_def)
  then have "{a, b} \<noteq> {asker event, other} \<longrightarrow>
      held db' a b = held db a b \<and> redb_waits (begin_write db') a b = redb_waits (begin_write db) a b" for a b
    by (auto simp: redb.only_between_def held_def redb.sub_def)
  ultimately show ?thesis by blast
qed

theorem presence_follows_rosters_witness:
  "\<exists>ef db. run_event clean_tables fmempty sample_hosts asking two_accounts = Some (ef, db) \<and> rosters_in_step sample_hosts db"
proof -
  obtain ef db where run: "run_event clean_tables fmempty sample_hosts asking two_accounts = Some (ef, db)" using asking_runs by blast
  from presence_follows_rosters [OF asking_ok(1) clean_control_free reachable_in_step [OF clean_control_free accounts_reachable] run]
  have "rosters_in_step sample_hosts db" by (elim conjE)
  with run show ?thesis by (intro exI conjI)
qed

end
