(* ===== verification/Scram.thy ===== *)
theory Scram
  imports Xml_Tree
begin

text \<open>
  SCRAM credentials and the server side of a SCRAM exchange (\<open>lonewolf-auth/src/\<close> \<open>scram/mod.rs\<close> and
  \<open>server/mod.rs\<close>): derivation of verifiers from a password, the parsing of the client's two messages, the proof
  check, and the decoy verifiers of unknown accounts.

  The cryptographic hashes, SASLprep and Base64 are libraries: the record \<open>ScramLib\<close>. \<open>crypto_ok\<close> and
  \<open>base64_ok\<close> state what the code relies on: output lengths, that HMAC takes a key of any length, and that
  Base64 decodes what it encoded. Nothing is assumed about collisions or preimages.
\<close>

section \<open>Definitions\<close>

record ScramLib =
  hash_digest :: "ScramHash \<Rightarrow> bytes \<Rightarrow> bytes"
  hash_hmac :: "ScramHash \<Rightarrow> bytes \<Rightarrow> bytes \<Rightarrow> bytes option"
  pbkdf2_hmac :: "ScramHash \<Rightarrow> bytes \<Rightarrow> bytes \<Rightarrow> nat \<Rightarrow> bytes"
  saslprep :: "string \<Rightarrow> string option"
  unassigned_code_point :: "nat \<Rightarrow> bool"
  base64_encode :: "bytes \<Rightarrow> string"
  base64_decode :: "string \<Rightarrow> bytes option"

subsection \<open>Verifiers\<close>

datatype ScramError = InvalidIterations | InvalidPassword | RandomFailed | DerivationFailed

datatype ProvisioningError = WeakPassword | ScramFailed ScramError

definition MIN_ITERATIONS :: nat where
  "MIN_ITERATIONS = 4096"

definition iterations_new :: "nat \<Rightarrow> (ScramError, nat) result" where
  "iterations_new n = (if n \<noteq> 0 \<and> MIN_ITERATIONS \<le> n then Inr n else Inl InvalidIterations)"

definition minimum_iterations :: "ScramHash \<Rightarrow> nat" where
  "minimum_iterations h = (case h of Sha512 \<Rightarrow> 10000 | _ \<Rightarrow> MIN_ITERATIONS)"

definition check_iterations :: "ScramHash \<Rightarrow> nat \<Rightarrow> (ScramError, unit) result" where
  "check_iterations h n = (if n < minimum_iterations h then Inl InvalidIterations else Inr ())"

definition scram_keyed_hash :: "ScramLib \<Rightarrow> ScramHash \<Rightarrow> bytes \<Rightarrow> bytes \<Rightarrow> (ScramError, bytes) result" where
  "scram_keyed_hash lib h key data = ok_or DerivationFailed (hash_hmac lib h key data)"

definition derive_keys :: "ScramLib \<Rightarrow> ScramHash \<Rightarrow> bytes \<Rightarrow> bytes \<Rightarrow> nat \<Rightarrow> (ScramError, bytes \<times> bytes) result" where
  "derive_keys lib h password s16 n =
     (let salted_password = pbkdf2_hmac lib h password s16 n in
      ok_then (scram_keyed_hash lib h salted_password (as_bytes ''Client Key'')) (\<lambda>client_key.
      (let stored_key = hash_digest lib h client_key in
      ok_then (scram_keyed_hash lib h salted_password (as_bytes ''Server Key'')) (\<lambda>server_key.
        Inr (stored_key, server_key)))))"

definition verifier_of :: "ScramHash \<Rightarrow> ScramVerifierData \<Rightarrow> ScramVerifier" where
  "verifier_of h v = (case h of Sha1 \<Rightarrow> Sha1Verifier v | Sha256 \<Rightarrow> Sha256Verifier v | Sha512 \<Rightarrow> Sha512Verifier v)"

definition derive_prepared :: "ScramLib \<Rightarrow> ScramHash \<Rightarrow> bytes \<Rightarrow> bytes \<Rightarrow> nat \<Rightarrow> (ScramError, ScramVerifier) result" where
  "derive_prepared lib h password s16 n =
     ok_then (check_iterations h n) (\<lambda>_.
     ok_then (derive_keys lib h password s16 n) (\<lambda>(stored, server).
       Inr (verifier_of h \<lparr>salt = s16, iterations = n, stored_key = stored, server_key = server\<rparr>)))"

definition prepare_password :: "ScramLib \<Rightarrow> string \<Rightarrow> (ScramError, string) result" where
  "prepare_password lib password =
     (if list_ex (unassigned_code_point lib) (str_chars password) then Inl InvalidPassword
      else ok_then (ok_or InvalidPassword (saslprep lib password)) (\<lambda>prepared.
        if prepared = [] then Inl InvalidPassword else Inr prepared))"

definition derive :: "ScramLib \<Rightarrow> ScramHash \<Rightarrow> string \<Rightarrow> bytes \<Rightarrow> nat \<Rightarrow> (ScramError, ScramVerifier) result" where
  "derive lib h password s16 n =
     ok_then (prepare_password lib password) (\<lambda>password. derive_prepared lib h (as_bytes password) s16 n)"

definition generate_with_salt_source :: "ScramLib \<Rightarrow> ScramHash \<Rightarrow> string \<Rightarrow> nat \<Rightarrow> bytes option \<Rightarrow> (ScramError, ScramVerifier) result" where
  "generate_with_salt_source lib h password n fill =
     ok_then (prepare_password lib password) (\<lambda>password.
     ok_then (check_iterations h n) (\<lambda>_.
     ok_then (ok_or RandomFailed fill) (\<lambda>salt. derive_prepared lib h (as_bytes password) salt n)))"

definition verifier_hash :: "ScramVerifier \<Rightarrow> ScramHash" where
  "verifier_hash v = (case v of Sha1Verifier _ \<Rightarrow> Sha1 | Sha256Verifier _ \<Rightarrow> Sha256 | Sha512Verifier _ \<Rightarrow> Sha512)"

definition verifier_data_of :: "ScramVerifier \<Rightarrow> ScramVerifierData" where
  "verifier_data_of v = (case v of Sha1Verifier d \<Rightarrow> d | Sha256Verifier d \<Rightarrow> d | Sha512Verifier d \<Rightarrow> d)"

definition verifier_iterations :: "ScramVerifier \<Rightarrow> nat" where
  "verifier_iterations v = iterations (verifier_data_of v)"

subsection \<open>Credentials\<close>

definition with_verifier :: "ScramVerifier \<Rightarrow> ScramCredentials \<Rightarrow> ScramCredentials" where
  "with_verifier v c =
     (case v of
        Sha1Verifier d \<Rightarrow> c\<lparr>sha1 := Some d\<rparr>
      | Sha256Verifier d \<Rightarrow> c\<lparr>sha256 := Some d\<rparr>
      | Sha512Verifier d \<Rightarrow> c\<lparr>sha512 := Some d\<rparr>)"

definition credentials_new :: "ScramVerifier \<Rightarrow> ScramCredentials" where
  "credentials_new v = with_verifier v \<lparr>sha1 = None, sha256 = None, sha512 = None\<rparr>"

definition credentials_both :: "ScramVerifierData \<Rightarrow> ScramVerifierData \<Rightarrow> ScramCredentials" where
  "credentials_both v1 v256 = \<lparr>sha1 = Some v1, sha256 = Some v256, sha512 = None\<rparr>"

definition credentials_all :: "ScramVerifierData \<Rightarrow> ScramVerifierData \<Rightarrow> ScramVerifierData \<Rightarrow> ScramCredentials" where
  "credentials_all v1 v256 v512 = \<lparr>sha1 = Some v1, sha256 = Some v256, sha512 = Some v512\<rparr>"

text \<open>The first three distinct scalars of a password, and how many it has.\<close>

fun scan_password :: "nat list \<Rightarrow> nat list \<Rightarrow> nat \<Rightarrow> nat list \<times> nat" where
  "scan_password [] seen count = (seen, count)"
| "scan_password (c # cs) seen count =
     scan_password cs (if length seen < 3 \<and> c \<notin> set seen then seen @ [c] else seen) (count + 1)"

text \<open>\<open>fill\<close> gives the result of each call of the random source.\<close>

definition provision_with_salt_source :: "ScramLib \<Rightarrow> string \<Rightarrow> nat \<Rightarrow> (nat \<Rightarrow> bytes option)
    \<Rightarrow> (ProvisioningError, ScramCredentials) result" where
  "provision_with_salt_source lib password n fill =
     ok_then (map_err ScramFailed (prepare_password lib password)) (\<lambda>password.
     (let (seen, count) = scan_password (str_chars password) [] 0 in
      if count < 15 \<or> length seen < 3 then Inl WeakPassword
      else map_err ScramFailed
        (ok_then (check_iterations Sha512 n) (\<lambda>_.
         ok_then (ok_or RandomFailed (fill 0)) (\<lambda>sha1_salt.
         ok_then (ok_or RandomFailed (fill 1)) (\<lambda>sha256_salt.
         ok_then (ok_or RandomFailed (fill 2)) (\<lambda>sha512_salt.
         ok_then (derive_prepared lib Sha1 (as_bytes password) sha1_salt n) (\<lambda>v1.
         ok_then (derive_prepared lib Sha256 (as_bytes password) sha256_salt n) (\<lambda>v256.
         ok_then (derive_prepared lib Sha512 (as_bytes password) sha512_salt n) (\<lambda>v512.
           (case (v1, v256, v512) of
              (Sha1Verifier d1, Sha256Verifier d256, Sha512Verifier d512) \<Rightarrow> Inr (credentials_all d1 d256 d512)
            | _ \<Rightarrow> Inl DerivationFailed)))))))))))"

subsection \<open>Mechanisms\<close>

datatype Mechanism = ScramSha1 | ScramSha1Plus | ScramSha256 | ScramSha256Plus | ScramSha512 | ScramSha512Plus

definition mechanism_name :: "Mechanism \<Rightarrow> string" where
  "mechanism_name m =
     (case m of
        ScramSha1 \<Rightarrow> ''SCRAM-SHA-1''
      | ScramSha1Plus \<Rightarrow> ''SCRAM-SHA-1-PLUS''
      | ScramSha256 \<Rightarrow> ''SCRAM-SHA-256''
      | ScramSha256Plus \<Rightarrow> ''SCRAM-SHA-256-PLUS''
      | ScramSha512 \<Rightarrow> ''SCRAM-SHA-512''
      | ScramSha512Plus \<Rightarrow> ''SCRAM-SHA-512-PLUS'')"

definition mechanism_from_name :: "string \<Rightarrow> Mechanism option" where
  "mechanism_from_name name =
     (if name = ''SCRAM-SHA-1'' then Some ScramSha1
      else if name = ''SCRAM-SHA-1-PLUS'' then Some ScramSha1Plus
      else if name = ''SCRAM-SHA-256'' then Some ScramSha256
      else if name = ''SCRAM-SHA-256-PLUS'' then Some ScramSha256Plus
      else if name = ''SCRAM-SHA-512'' then Some ScramSha512
      else if name = ''SCRAM-SHA-512-PLUS'' then Some ScramSha512Plus
      else None)"

definition mechanism_hash :: "Mechanism \<Rightarrow> ScramHash" where
  "mechanism_hash m =
     (case m of
        ScramSha1 \<Rightarrow> Sha1 | ScramSha1Plus \<Rightarrow> Sha1
      | ScramSha256 \<Rightarrow> Sha256 | ScramSha256Plus \<Rightarrow> Sha256
      | ScramSha512 \<Rightarrow> Sha512 | ScramSha512Plus \<Rightarrow> Sha512)"

definition is_plus :: "Mechanism \<Rightarrow> bool" where
  "is_plus m \<longleftrightarrow> m = ScramSha1Plus \<or> m = ScramSha256Plus \<or> m = ScramSha512Plus"

datatype BindingType = TlsExporter | TlsServerEndPoint

datatype ServerError = Malformed | InvalidProof | ChannelBindingMismatch | UnsupportedBinding | HashMismatch | RandomUnavailable

subsection \<open>Text\<close>

definition MAX_SCRAM_BYTES :: nat where
  "MAX_SCRAM_BYTES = 4096"

definition starts_with :: "string \<Rightarrow> string \<Rightarrow> bool" where
  "starts_with p s \<longleftrightarrow> strip_prefix p s \<noteq> None"

text \<open>\<open>str::rfind\<close>: where the last occurrence of a pattern begins.\<close>

fun rfind :: "string \<Rightarrow> string \<Rightarrow> nat option" where
  "rfind p [] = (if p = [] then Some 0 else None)"
| "rfind p (x # xs) =
     (case rfind p xs of
        Some i \<Rightarrow> Some (i + 1)
      | None \<Rightarrow> if take (length p) (x # xs) = p then Some 0 else None)"

text \<open>
  \<open>rest.get(index..index + 3)\<close> has no value beyond the end and inside a character; neither is one
  of the two escapes, so both are malformed as any other text.
\<close>

function unescape :: "string \<Rightarrow> (ServerError, string) result" where
  "unescape rest =
     (case find_char (CHR ''='') rest of
        None \<Rightarrow> Inr rest
      | Some index \<Rightarrow>
          (let escape = take 3 (drop index rest) in
           if escape = ''=2C'' then ok_then (unescape (drop (index + 3) rest)) (\<lambda>r. Inr (take index rest @ CHR '','' # r))
           else if escape = ''=3D'' then ok_then (unescape (drop (index + 3) rest)) (\<lambda>r. Inr (take index rest @ CHR ''='' # r))
           else Inl Malformed))"
  by auto
termination
proof (relation "measure length")
  show "(drop (index + 3) rest, rest) \<in> measure length" if "find_char (CHR ''='') rest = Some index" for rest index
    using that by (cases rest) auto
  show "(drop (index + 3) rest, rest) \<in> measure length" if "find_char (CHR ''='') rest = Some index" for rest index
    using that by (cases rest) auto
qed simp

declare unescape.simps [simp del]

definition valid_nonce :: "string \<Rightarrow> bool" where
  "valid_nonce s \<longleftrightarrow> s \<noteq> [] \<and> list_all (\<lambda>c. 0x21 \<le> (of_char c :: nat) \<and> of_char c \<le> (0x7e :: nat) \<and> c \<noteq> CHR '','') s"

definition is_ascii_alphabetic :: "char \<Rightarrow> bool" where
  "is_ascii_alphabetic c \<longleftrightarrow> in_range 0x41 0x5A (of_char c) \<or> in_range 0x61 0x7A (of_char c)"

definition valid_extension :: "string \<Rightarrow> bool" where
  "valid_extension s \<longleftrightarrow> 2 < length s \<and> is_ascii_alphabetic (s ! 0) \<and> s ! 0 \<notin> set ''nrcpm'' \<and> s ! 1 = CHR ''='' \<and>
     list_all (\<lambda>c. c \<noteq> CHR 0x00 \<and> c \<noteq> CHR '','') (drop 2 s)"

definition check_extensions :: "string list \<Rightarrow> (ServerError, unit) result" where
  "check_extensions es = (if list_ex (\<lambda>e. starts_with ''m='' e \<or> \<not> valid_extension e) es then Inl Malformed else Inr ())"

subsection \<open>The client's first message\<close>

record ClientFirst =
  cf_mechanism :: Mechanism
  cf_binding :: "BindingType option"
  cf_gs2_header :: string
  cf_bare :: string
  cf_username :: string
  cf_authzid :: "string option"
  cf_nonce :: string

definition gs2_binding :: "Mechanism \<Rightarrow> bool \<Rightarrow> string \<Rightarrow> (ServerError, BindingType option) result" where
  "gs2_binding m offered flag =
     (if flag = ''n'' \<and> \<not> is_plus m then Inr None
      else if flag = ''p=tls-exporter'' \<and> is_plus m then Inr (Some TlsExporter)
      else if flag = ''p=tls-server-end-point'' \<and> is_plus m then Inr (Some TlsServerEndPoint)
      else if flag = ''y'' \<and> \<not> is_plus m \<and> \<not> offered then Inr None
      else if flag = ''y'' \<and> \<not> is_plus m then Inl ChannelBindingMismatch
      else if starts_with ''p='' flag then Inl UnsupportedBinding
      else Inl Malformed)"

definition gs2_authzid :: "string \<Rightarrow> (ServerError, string option) result" where
  "gs2_authzid s =
     (if s = [] then Inr None
      else if starts_with ''a='' s then ok_then (unescape (drop 2 s)) (\<lambda>a. Inr (Some a))
      else Inl Malformed)"

definition next_attribute :: "string \<Rightarrow> string list \<Rightarrow> (ServerError, string \<times> string list) result" where
  "next_attribute p attributes =
     (case attributes of
        [] \<Rightarrow> Inl Malformed
      | v # rest \<Rightarrow> ok_then (ok_or Malformed (strip_prefix p v)) (\<lambda>v. Inr (v, rest)))"

definition client_first_parse :: "ScramLib \<Rightarrow> Mechanism \<Rightarrow> bytes \<Rightarrow> bool \<Rightarrow> (ServerError, ClientFirst) result" where
  "client_first_parse lib m input offered =
     (if MAX_SCRAM_BYTES < length input then Inl Malformed
      else
        ok_then (ok_or Malformed (from_utf8 input)) (\<lambda>input.
        ok_then (ok_or Malformed (find_char (CHR '','') input)) (\<lambda>first_comma.
        ok_then (ok_or Malformed (map_option (\<lambda>offset. first_comma + 1 + offset)
            (find_char (CHR '','') (drop (first_comma + 1) input)))) (\<lambda>second_comma.
        ok_then (gs2_binding m offered (take first_comma input)) (\<lambda>binding.
        ok_then (gs2_authzid (drop (first_comma + 1) (take second_comma input))) (\<lambda>authzid.
        (let bare = drop (second_comma + 1) input in
        ok_then (next_attribute ''n='' (split_on (CHR '','') bare)) (\<lambda>(username, attributes).
        ok_then (unescape username) (\<lambda>username.
          if username = [] then Inl Malformed
          else
            ok_then (ok_or Malformed (saslprep lib username)) (\<lambda>username.
            ok_then (next_attribute ''r='' attributes) (\<lambda>(nonce, attributes).
              if \<not> valid_nonce nonce then Inl Malformed
              else
                ok_then (check_extensions attributes) (\<lambda>_.
                  Inr \<lparr>cf_mechanism = m, cf_binding = binding, cf_gs2_header = take (second_comma + 1) input, cf_bare = bare,
                    cf_username = username, cf_authzid = authzid, cf_nonce = nonce\<rparr>))))))))))))"

subsection \<open>The exchange\<close>

record ScramServer =
  sv_verifier :: ScramVerifier
  sv_binding :: "BindingType option"
  sv_gs2_header :: string
  client_first_bare :: string
  server_first :: string
  sv_nonce :: string

definition start :: "ScramLib \<Rightarrow> ClientFirst \<Rightarrow> ScramVerifier \<Rightarrow> string \<Rightarrow> (ServerError, ScramServer \<times> string) result" where
  "start lib cf verifier server_nonce =
     (if verifier_hash verifier \<noteq> mechanism_hash (cf_mechanism cf) then Inl HashMismatch
      else if \<not> valid_nonce server_nonce then Inl Malformed
      else
        (let nonce = cf_nonce cf @ server_nonce;
             first = ''r='' @ nonce @ '',s='' @ base64_encode lib (salt (verifier_data_of verifier)) @
               '',i='' @ decimal (verifier_iterations verifier)
         in Inr (\<lparr>sv_verifier = verifier, sv_binding = cf_binding cf, sv_gs2_header = cf_gs2_header cf,
              client_first_bare = cf_bare cf, server_first = first, sv_nonce = nonce\<rparr>, first)))"

definition same_verifier :: "ScramVerifierData \<Rightarrow> ScramVerifierData \<Rightarrow> bool" where
  "same_verifier a b \<longleftrightarrow> iterations a = iterations b \<and> salt a = salt b \<and> stored_key a = stored_key b \<and> server_key a = server_key b"

definition credential_is_current :: "ScramServer \<Rightarrow> ScramVerifier \<Rightarrow> bool" where
  "credential_is_current s current \<longleftrightarrow>
     (case (sv_verifier s, current) of
        (Sha1Verifier a, Sha1Verifier b) \<Rightarrow> same_verifier a b
      | (Sha256Verifier a, Sha256Verifier b) \<Rightarrow> same_verifier a b
      | (Sha512Verifier a, Sha512Verifier b) \<Rightarrow> same_verifier a b
      | _ \<Rightarrow> False)"

definition hash_len :: "ScramHash \<Rightarrow> nat" where
  "hash_len h = (case h of Sha1 \<Rightarrow> 20 | Sha256 \<Rightarrow> 32 | Sha512 \<Rightarrow> 64)"

definition keyed_hash :: "ScramLib \<Rightarrow> ScramHash \<Rightarrow> bytes \<Rightarrow> bytes \<Rightarrow> (ServerError, bytes) result" where
  "keyed_hash lib h key data = ok_or Malformed (hash_hmac lib h key data)"

definition xor_bytes :: "bytes \<Rightarrow> bytes \<Rightarrow> bytes" where
  "xor_bytes a b = map2 xor a b"

definition verify :: "ScramLib \<Rightarrow> ScramHash \<Rightarrow> ScramVerifierData \<Rightarrow> bytes \<Rightarrow> bytes \<Rightarrow> (ServerError, bytes) result" where
  "verify lib h verifier message proof =
     (if length proof \<noteq> hash_len h then Inl Malformed
      else
        ok_then (keyed_hash lib h (stored_key verifier) message) (\<lambda>signature.
        (let client_key = xor_bytes proof signature in
         if hash_digest lib h client_key \<noteq> stored_key verifier then Inl InvalidProof
         else keyed_hash lib h (server_key verifier) message)))"

definition finish :: "ScramLib \<Rightarrow> ScramServer \<Rightarrow> bytes \<Rightarrow> bytes \<Rightarrow> (ServerError, string) result" where
  "finish lib s input binding_data =
     (if MAX_SCRAM_BYTES < length input then Inl Malformed
      else
        ok_then (ok_or Malformed (from_utf8 input)) (\<lambda>input.
        ok_then (ok_or Malformed (rfind '',p='' input)) (\<lambda>proof_start.
        (let without_proof = take proof_start input; proof_text = drop (proof_start + 3) input in
         if CHR '','' \<in> set proof_text then Inl Malformed
         else
           ok_then (next_attribute ''c='' (split_on (CHR '','') without_proof)) (\<lambda>(channel, attributes).
           ok_then (next_attribute ''r='' attributes) (\<lambda>(nonce, attributes).
             if nonce \<noteq> sv_nonce s then Inl Malformed
             else
               ok_then (check_extensions attributes) (\<lambda>_.
               ok_then (ok_or Malformed (base64_decode lib channel)) (\<lambda>decoded_channel.
                 (let header = as_bytes (sv_gs2_header s) in
                  if length decoded_channel \<noteq> length header + length binding_data \<or>
                     take (length header) decoded_channel \<noteq> header \<or> drop (length header) decoded_channel \<noteq> binding_data
                  then Inl ChannelBindingMismatch
                  else
                    ok_then (ok_or Malformed (base64_decode lib proof_text)) (\<lambda>proof.
                    (let auth_message = client_first_bare s @ '','' @ server_first s @ '','' @ without_proof;
                         verifier = sv_verifier s
                     in ok_then (verify lib (verifier_hash verifier) (verifier_data_of verifier) (as_bytes auth_message) proof) (\<lambda>signature.
                          Inr (''v='' @ base64_encode lib signature)))))))))))))"

subsection \<open>Decoys\<close>

definition decoy_derive :: "ScramLib \<Rightarrow> bytes \<Rightarrow> ScramHash \<Rightarrow> string \<Rightarrow> string \<Rightarrow> string \<Rightarrow> (ServerError, bytes) result" where
  "decoy_derive lib secret h label purpose account =
     ok_or Malformed (hash_hmac lib h secret (as_bytes label @ [0] @ as_bytes purpose @ [0] @ as_bytes account))"

definition decoy_data :: "ScramLib \<Rightarrow> bytes \<Rightarrow> ScramHash \<Rightarrow> nat \<Rightarrow> string \<Rightarrow> string \<Rightarrow> (ServerError, ScramVerifierData) result" where
  "decoy_data lib secret h n label account =
     ok_then (decoy_derive lib secret h label ''salt'' account) (\<lambda>salt.
     ok_then (decoy_derive lib secret h label ''stored'' account) (\<lambda>stored.
     ok_then (decoy_derive lib secret h label ''server'' account) (\<lambda>server.
       Inr \<lparr>salt = take 16 salt, iterations = SCRAM_POLICY_ITERATIONS, stored_key = take n stored, server_key = take n server\<rparr>)))"

definition decoy_verifier :: "ScramLib \<Rightarrow> bytes \<Rightarrow> ScramHash \<Rightarrow> string \<Rightarrow> (ServerError, ScramVerifier) result" where
  "decoy_verifier lib secret h account =
     (case h of
        Sha1 \<Rightarrow> ok_then (decoy_data lib secret Sha256 20 ''sha1'' account) (\<lambda>d. Inr (Sha1Verifier d))
      | Sha256 \<Rightarrow> ok_then (decoy_data lib secret Sha256 32 ''sha256'' account) (\<lambda>d. Inr (Sha256Verifier d))
      | Sha512 \<Rightarrow> ok_then (decoy_data lib secret Sha512 64 ''sha512'' account) (\<lambda>d. Inr (Sha512Verifier d)))"

section \<open>Text lemmas\<close>

lemma rfind_absent: "c \<notin> set s \<Longrightarrow> rfind (c # p) s = None"
  by (induction s) auto

lemma rfind_found: "c \<notin> set p \<Longrightarrow> c \<notin> set b \<Longrightarrow> rfind (c # p) (a @ (c # p) @ b) = Some (length a)"
  by (induction a) (simp_all add: rfind_absent)

lemma rfind_Some: "rfind p s = Some i \<Longrightarrow> s = take i s @ p @ drop (i + length p) s \<and> i \<le> length s"
proof (induction s arbitrary: i)
  case (Cons x xs)
  show ?case
  proof (cases "rfind p xs")
    case None
    with Cons.prems have "take (length p) (x # xs) = p" "i = 0" by (auto split: if_splits)
    then show ?thesis using append_take_drop_id [of "length p" "x # xs"] by simp
  next
    case (Some j)
    with Cons show ?thesis by auto
  qed
qed (simp split: if_splits)

lemma split_on_append: "c \<notin> set a \<Longrightarrow> split_on c (a @ c # b) = a # split_on c b"
  by (induction a) auto

lemma split_on_single: "c \<notin> set a \<Longrightarrow> split_on c a = [a]"
  by (induction a) auto

lemma strip_prefix_Some: "strip_prefix p s = Some t \<longleftrightarrow> s = p @ t"
  by (auto simp: strip_prefix_def) (metis append_take_drop_id)

lemma starts_with_append [simp]: "starts_with p (p @ s)"
  by (simp add: starts_with_def strip_prefix_def)

lemma next_attribute_Inr: "next_attribute p attributes = Inr (v, rest) \<longleftrightarrow> attributes = (p @ v) # rest"
  by (auto simp: next_attribute_def ok_or_def strip_prefix_Some split: list.splits option.splits)
    (auto simp: strip_prefix_def)

subsection \<open>Escaping\<close>

definition escape_char :: "char \<Rightarrow> string" where
  "escape_char c = (if c = CHR '','' then ''=2C'' else if c = CHR ''='' then ''=3D'' else [c])"

definition sasl_escape :: "string \<Rightarrow> string" where
  "sasl_escape s = concat (map escape_char s)"

lemma unescape_plain: "c \<noteq> CHR ''='' \<Longrightarrow> unescape (c # s) = ok_then (unescape s) (\<lambda>r. Inr (c # r))"
proof -
  assume c: "c \<noteq> CHR ''=''"
  show ?thesis
  proof (cases "find_char (CHR ''='') s")
    case None
    with c show ?thesis by (simp add: unescape.simps)
  next
    case (Some n)
    have d: "drop (Suc n + 3) (c # s) = drop (n + 3) s" by (simp only: add_Suc drop_Suc_Cons)
    have f: "find_char (CHR ''='') (c # s) = Some (Suc n)" using c Some by simp
    note e = unescape.simps [of "c # s", unfolded f option.case Let_def d drop_Suc_Cons take_Suc_Cons]
      unescape.simps [of s, unfolded Some option.case Let_def]
    show ?thesis by (cases "unescape (drop (n + 3) s)") (simp_all add: e)
  qed
qed

lemma unescape_escape: "unescape (sasl_escape s) = Inr s"
proof (induction s)
  case Nil
  show ?case by (simp add: sasl_escape_def unescape.simps)
next
  case (Cons c s)
  have e: "sasl_escape (c # s) = escape_char c @ sasl_escape s" by (simp add: sasl_escape_def)
  consider "c = CHR '',''" | "c = CHR ''=''" | "c \<noteq> CHR '',''" "c \<noteq> CHR ''=''" by blast
  then show ?case
  proof cases
    case 1
    then show ?thesis unfolding e by (subst unescape.simps) (simp add: escape_char_def Cons.IH)
  next
    case 2
    then show ?thesis unfolding e by (subst unescape.simps) (simp add: escape_char_def Cons.IH)
  next
    case 3
    then show ?thesis unfolding e using Cons.IH unescape_plain by (simp add: escape_char_def)
  qed
qed

lemma escape_comma_free: "CHR '','' \<notin> set (sasl_escape s)"
  by (induction s) (simp_all add: sasl_escape_def escape_char_def)

lemma sasl_escape_Nil [simp]: "sasl_escape s = [] \<longleftrightarrow> s = []"
  by (cases s) (simp_all add: sasl_escape_def escape_char_def)

subsection \<open>UTF-8\<close>

text \<open>Replacing ASCII bytes by ASCII text keeps a string valid.\<close>

lemma utf8_map:
  assumes "utf8_valid bs" and ascii: "\<And>b. b < 0x80 \<Longrightarrow> list_all (\<lambda>x. x < 0x80) (f b)" and keep: "\<And>b. \<not> b < 0x80 \<Longrightarrow> f b = [b]"
    and rest: "utf8_valid tail"
  shows "utf8_valid (concat (map f bs) @ tail)"
  using assms(1)
proof (induction bs rule: utf8_valid.induct)
  case (2 a bs)
  have high: "\<not> x < (0x80::byte)" if "continuation x" for x using that by (auto simp: continuation_def)
  have all_ascii: "utf8_valid (xs @ ys) \<longleftrightarrow> utf8_valid ys" if "list_all (\<lambda>x. x < (0x80::byte)) xs" for xs ys
    using that by (induction xs) simp_all
  show ?case
  proof (cases "a < 0x80")
    case True
    with 2 show ?thesis using all_ascii [OF ascii [OF True]] by simp
  next
    case False
    then consider "0xC2 \<le> a" "a \<le> 0xDF" | "0xE0 \<le> a" "a \<le> 0xEF" | "0xF0 \<le> a" "a \<le> 0xF4"
      using 2 by (auto split: if_splits)
    then show ?thesis
    proof cases
      case c: 1
      with False obtain x xs where bs: "bs = x # xs" "continuation x" "utf8_valid xs" using 2 by (auto split: list.splits)
      moreover have "utf8_valid (concat (map f xs) @ tail)" using c False bs 2 by auto
      ultimately show ?thesis using False c by (simp add: keep high)
    next
      case c: 2
      then have no: "\<not> a \<le> 0xDF" by (auto simp: word_le_nat_alt)
      with c False obtain x y xs where bs: "bs = x # y # xs" "continuation x" "continuation y" "utf8_valid xs"
        "a = 0xE0 \<longrightarrow> 0xA0 \<le> x" "a = 0xED \<longrightarrow> x \<le> 0x9F" using 2 by (auto split: list.splits)
      moreover have "utf8_valid (concat (map f xs) @ tail)" using c False no bs 2 by auto
      ultimately show ?thesis using False c no by (simp add: keep high)
    next
      case c: 3
      then have no: "\<not> a \<le> 0xDF" "\<not> a \<le> 0xEF" by (auto simp: word_le_nat_alt)
      with c False obtain x y z xs where bs: "bs = x # y # z # xs" "continuation x" "continuation y" "continuation z" "utf8_valid xs"
        "a = 0xF0 \<longrightarrow> 0x90 \<le> x" "a = 0xF4 \<longrightarrow> x \<le> 0x8F" using 2 by (auto split: list.splits)
      moreover have "utf8_valid (concat (map f xs) @ tail)" using c False no bs 2 by auto
      ultimately show ?thesis using False c no by (simp add: keep high)
    qed
  qed
qed (simp add: rest)

lemma is_str_append: "is_str a \<Longrightarrow> is_str b \<Longrightarrow> is_str (a @ b)"
  using utf8_map [of "as_bytes a" "\<lambda>x. [x]" "as_bytes b"] by (simp add: is_str_def as_bytes_def comp_def)

lemma is_str_ascii: "list_all (\<lambda>c. of_char c < (0x80::nat)) s \<Longrightarrow> is_str s"
proof (induction s)
  case (Cons c s)
  then have "byte_of_char c < 0x80"
    by (simp add: byte_of_char_def word_less_nat_alt unat_of_nat take_bit_eq_mod)
  with Cons show ?case by (simp add: is_str_def as_bytes_def)
qed (simp add: is_str_def as_bytes_def)

lemma is_str_escape: "is_str s \<Longrightarrow> is_str (sasl_escape s)"
proof -
  assume s: "is_str s"
  define f where "f b = as_bytes (escape_char (char_of_byte b))" for b
  have f: "as_bytes (escape_char c) = f (byte_of_char c)" for c by (simp add: f_def)
  have c: "char_of_byte b = c \<Longrightarrow> b = byte_of_char c" for b c by auto
  have "as_bytes (sasl_escape s) = concat (map f (as_bytes s))"
    by (simp add: sasl_escape_def as_bytes_def map_concat comp_def f [unfolded as_bytes_def])
  moreover have "utf8_valid (concat (map f (as_bytes s)) @ [])"
  proof (rule utf8_map)
    fix b :: byte
    consider "char_of_byte b = CHR '',''" | "char_of_byte b = CHR ''=''" | "char_of_byte b \<noteq> CHR '',''" "char_of_byte b \<noteq> CHR ''=''" by blast
    note cases = this
    show "list_all (\<lambda>x. x < 0x80) (f b)" if "b < 0x80"
      using cases by cases (use that in \<open>simp_all add: f_def escape_char_def as_bytes_def\<close>, simp_all add: byte_of_char_def)
    show "f b = [b]" if "\<not> b < 0x80"
      using cases by cases (use that c [of b] in \<open>auto simp: f_def escape_char_def as_bytes_def byte_of_char_def\<close>)
  qed (use s in \<open>simp_all add: is_str_def\<close>)
  ultimately show ?thesis by (simp add: is_str_def)
qed

section \<open>Libraries\<close>

definition crypto_ok :: "ScramLib \<Rightarrow> bool" where
  "crypto_ok lib \<longleftrightarrow> (\<forall>h x. length (hash_digest lib h x) = hash_len h) \<and>
     (\<forall>h key data. \<exists>m. hash_hmac lib h key data = Some m \<and> length m = hash_len h)"

definition base64_char :: "char \<Rightarrow> bool" where
  "base64_char c \<longleftrightarrow> is_ascii_alphabetic c \<or> in_range 0x30 0x39 (of_char c) \<or> c \<in> set ''+/=''"

definition base64_ok :: "ScramLib \<Rightarrow> bool" where
  "base64_ok lib \<longleftrightarrow> (\<forall>b. base64_decode lib (base64_encode lib b) = Some b) \<and> (\<forall>b. list_all base64_char (base64_encode lib b))"

lemma base64_encoded:
  assumes "base64_ok lib"
  shows "base64_decode lib (base64_encode lib b) = Some b" and "CHR '','' \<notin> set (base64_encode lib b)" and "is_str (base64_encode lib b)"
proof -
  show "base64_decode lib (base64_encode lib b) = Some b" using assms by (simp add: base64_ok_def)
  have all: "list_all base64_char (base64_encode lib b)" using assms by (simp add: base64_ok_def)
  have "\<not> base64_char (CHR '','')" by (simp add: base64_char_def is_ascii_alphabetic_def in_range_def)
  with all show "CHR '','' \<notin> set (base64_encode lib b)" by (auto simp: list_all_iff)
  have "of_char c < (0x80 :: nat)" if "base64_char c" for c
    using that by (auto simp: base64_char_def is_ascii_alphabetic_def in_range_def)
  with all show "is_str (base64_encode lib b)" by (intro is_str_ascii) (auto simp: list_all_iff)
qed

section \<open>The exchange\<close>

text \<open>Everything a final message must satisfy, and the answer to it.\<close>

definition accepts :: "ScramLib \<Rightarrow> ScramServer \<Rightarrow> string \<Rightarrow> string \<Rightarrow> bytes \<Rightarrow> string \<Rightarrow> bool" where
  "accepts lib s without proof64 data out \<longleftrightarrow>
     (\<exists>channel attributes proof client_signature server_signature.
        (let h = verifier_hash (sv_verifier s); v = verifier_data_of (sv_verifier s);
             message = as_bytes (client_first_bare s @ '','' @ server_first s @ '','' @ without)
         in split_on (CHR '','') without = (''c='' @ channel) # (''r='' @ sv_nonce s) # attributes \<and>
            check_extensions attributes = Inr () \<and>
            base64_decode lib channel = Some (as_bytes (sv_gs2_header s) @ data) \<and>
            base64_decode lib proof64 = Some proof \<and> length proof = hash_len h \<and>
            hash_hmac lib h (stored_key v) message = Some client_signature \<and>
            hash_digest lib h (xor_bytes proof client_signature) = stored_key v \<and>
            hash_hmac lib h (server_key v) message = Some server_signature \<and>
            out = ''v='' @ base64_encode lib server_signature))"

lemma ok_or_Inr: "ok_or e x = Inr a \<longleftrightarrow> x = Some a"
  by (cases x) simp_all

lemma ok_then_Inr: "ok_then m f = Inr b \<longleftrightarrow> (\<exists>a. m = Inr a \<and> f a = Inr b)"
  by (cases m) simp_all

lemma verify_Inr:
  "verify lib h v message proof = Inr signature \<longleftrightarrow>
     length proof = hash_len h \<and> (\<exists>client_signature. hash_hmac lib h (stored_key v) message = Some client_signature \<and>
       hash_digest lib h (xor_bytes proof client_signature) = stored_key v) \<and>
     hash_hmac lib h (server_key v) message = Some signature"
  by (auto simp: verify_def keyed_hash_def ok_or_Inr ok_then_Inr Let_def)

lemma if_Inl_Inr: "(if c then Inl e else m) = Inr a \<longleftrightarrow> \<not> c \<and> m = Inr a"
  by simp

lemma channel_matches:
  "length d \<noteq> length h + length b \<or> take (length h) d \<noteq> h \<or> drop (length h) d \<noteq> b \<longleftrightarrow> d \<noteq> h @ b" for d h b :: bytes
  by (metis append_eq_conv_conj append_take_drop_id length_append)

lemmas Inr_simps = ok_or_Inr ok_then_Inr if_Inl_Inr next_attribute_Inr

lemma finish_split:
  assumes "length input \<le> MAX_SCRAM_BYTES" and "from_utf8 input = Some line" and "rfind '',p='' line = Some i"
  shows "finish lib s input data = Inr out \<longleftrightarrow>
    CHR '','' \<notin> set (drop (i + 3) line) \<and> accepts lib s (take i line) (drop (i + 3) line) data out"
proof -
  have len: "\<not> MAX_SCRAM_BYTES < length input" using assms(1) by simp
  show ?thesis
    unfolding finish_def accepts_def if_not_P [OF len] assms(2,3) ok_or_simps ok_then_simps Let_def channel_matches Inr_simps verify_Inr
      split_paired_Ex prod.case
    by (auto simp: verify_Inr)
qed

lemma finish_exact:
  "finish lib s input data = Inr out \<longleftrightarrow>
     length input \<le> MAX_SCRAM_BYTES \<and>
     (\<exists>without proof64. CHR '','' \<notin> set proof64 \<and> is_str (without @ '',p='' @ proof64) \<and>
        input = as_bytes (without @ '',p='' @ proof64) \<and> accepts lib s without proof64 data out)"
  (is "?l \<longleftrightarrow> ?r")
proof
  assume l: ?l
  then obtain line i where line: "length input \<le> MAX_SCRAM_BYTES" "from_utf8 input = Some line" "rfind '',p='' line = Some i"
    by (auto simp: finish_def Inr_simps not_less)
  have "line = take i line @ '',p='' @ drop (i + 3) line" using rfind_Some [OF line(3)] by (simp add: numeral_3_eq_3)
  moreover have "is_str line" "input = as_bytes line" using line(2) by (auto simp: from_utf8_Some)
  moreover note l [unfolded finish_split [OF line]]
  ultimately show ?r using line(1) by metis
next
  assume ?r
  then obtain w p where r: "length input \<le> MAX_SCRAM_BYTES" "CHR '','' \<notin> set p" "is_str (w @ '',p='' @ p)" "input = as_bytes (w @ '',p='' @ p)"
    "accepts lib s w p data out" by blast
  have find: "rfind '',p='' (w @ '',p='' @ p) = Some (length w)" using rfind_found [of "CHR '',''" "''p=''" p w] r(2) by simp
  have "from_utf8 input = Some (w @ '',p='' @ p)" using r(3,4) by (simp add: from_utf8_as_bytes)
  from finish_split [OF r(1) this find] r(2,5) show ?l by simp
qed

section \<open>A client\<close>

text \<open>
  The messages of a client that follows RFC 5802: the first, the keys it derives from its password, and the final message in answer
  to the server's first.
\<close>

definition client_bare :: "string \<Rightarrow> string \<Rightarrow> string" where
  "client_bare user nonce = ''n='' @ sasl_escape user @ '',r='' @ nonce"

definition binding_flag :: "BindingType option \<Rightarrow> string" where
  "binding_flag b = (case b of None \<Rightarrow> ''n'' | Some TlsExporter \<Rightarrow> ''p=tls-exporter'' | Some TlsServerEndPoint \<Rightarrow> ''p=tls-server-end-point'')"

definition client_authzid :: "string option \<Rightarrow> string" where
  "client_authzid authzid = (case authzid of None \<Rightarrow> [] | Some a \<Rightarrow> ''a='' @ sasl_escape a)"

definition client_gs2 :: "BindingType option \<Rightarrow> string option \<Rightarrow> string" where
  "client_gs2 b authzid = binding_flag b @ '','' @ client_authzid authzid @ '',''"

definition client_first :: "BindingType option \<Rightarrow> string option \<Rightarrow> string \<Rightarrow> string \<Rightarrow> string" where
  "client_first b authzid user nonce = client_gs2 b authzid @ client_bare user nonce"

record ClientKeys =
  client_key :: bytes
  ck_stored_key :: bytes
  ck_server_key :: bytes

definition client_keys :: "ScramLib \<Rightarrow> ScramHash \<Rightarrow> bytes \<Rightarrow> bytes \<Rightarrow> nat \<Rightarrow> ClientKeys" where
  "client_keys lib h password s16 n =
     (let salted = pbkdf2_hmac lib h password s16 n; key = the (hash_hmac lib h salted (as_bytes ''Client Key'')) in
      \<lparr>client_key = key, ck_stored_key = hash_digest lib h key, ck_server_key = the (hash_hmac lib h salted (as_bytes ''Server Key''))\<rparr>)"

definition client_without_proof :: "ScramLib \<Rightarrow> BindingType option \<Rightarrow> string option \<Rightarrow> bytes \<Rightarrow> string \<Rightarrow> string" where
  "client_without_proof lib b authzid data nonce =
     ''c='' @ base64_encode lib (as_bytes (client_gs2 b authzid) @ data) @ '',r='' @ nonce"

definition client_message :: "string \<Rightarrow> string \<Rightarrow> string \<Rightarrow> bytes" where
  "client_message head first without = as_bytes (head @ '','' @ first @ '','' @ without)"

definition client_proof :: "ScramLib \<Rightarrow> ScramHash \<Rightarrow> ClientKeys \<Rightarrow> bytes \<Rightarrow> bytes" where
  "client_proof lib h k message = xor_bytes (client_key k) (the (hash_hmac lib h (ck_stored_key k) message))"

lemma nonce_text:
  assumes "valid_nonce s"
  shows "CHR '','' \<notin> set s" and "is_str s"
proof -
  have c: "c \<noteq> CHR '','' \<and> of_char c \<le> (0x7e :: nat)" if "c \<in> set s" for c
    using assms that by (simp add: valid_nonce_def list_all_iff)
  then show "CHR '','' \<notin> set s" by blast
  have "of_char c < (0x80 :: nat)" if "c \<in> set s" for c using c [OF that] by linarith
  then show "is_str s" by (intro is_str_ascii) (simp add: list_all_iff)
qed

lemma flag_text: "CHR '','' \<notin> set (binding_flag b)" "is_str (binding_flag b)"
proof -
  have "binding_flag b \<in> {''n'', ''p=tls-exporter'', ''p=tls-server-end-point''}"
    by (cases b; cases "the b") (simp_all add: binding_flag_def)
  moreover have "is_str ''n''" "is_str ''p=tls-exporter''" "is_str ''p=tls-server-end-point''" by (rule is_str_ascii, simp)+
  ultimately show "CHR '','' \<notin> set (binding_flag b)" "is_str (binding_flag b)" by auto
qed

lemma authzid_text: "CHR '','' \<notin> set (client_authzid a)" "pred_option is_str a \<Longrightarrow> is_str (client_authzid a)"
proof -
  have a: "is_str ''a=''" "is_str []" by (rule is_str_ascii, simp)+
  show "CHR '','' \<notin> set (client_authzid a)" by (cases a) (simp_all add: client_authzid_def escape_comma_free)
  show "is_str (client_authzid a)" if "pred_option is_str a"
    using that a is_str_append [OF a(1) is_str_escape] by (cases a) (simp_all add: client_authzid_def)
qed

lemma client_first_accepted:
  assumes "pred_option is_str authzid" and user: "is_str user" "user \<noteq> []" "saslprep lib user = Some user"
    and nonce: "valid_nonce nonce" and b: "(b = None) \<longleftrightarrow> \<not> is_plus m"
    and len: "length (client_first b authzid user nonce) \<le> MAX_SCRAM_BYTES"
  shows "client_first_parse lib m (as_bytes (client_first b authzid user nonce)) offered =
    Inr \<lparr>cf_mechanism = m, cf_binding = b, cf_gs2_header = client_gs2 b authzid, cf_bare = client_bare user nonce,
      cf_username = user, cf_authzid = authzid, cf_nonce = nonce\<rparr>"
proof -
  let ?f = "binding_flag b" and ?a = "client_authzid authzid" and ?bare = "client_bare user nonce"
  let ?t = "client_first b authzid user nonce"
  have t: "?t = ?f @ CHR '','' # ?a @ CHR '','' # ?bare" by (simp add: client_first_def client_gs2_def)
  have "is_str ''n=''" "is_str '',r=''" "is_str '',''" by (rule is_str_ascii, simp)+
  then have "is_str ?t" using flag_text authzid_text(2) [OF assms(1)] nonce_text(2) [OF nonce] is_str_escape [OF user(1)]
    unfolding client_first_def client_gs2_def client_bare_def by (intro is_str_append) simp_all
  then have utf8: "from_utf8 (as_bytes ?t) = Some ?t" by (rule from_utf8_as_bytes)
  have c1: "find_char (CHR '','') ?t = Some (length ?f)" unfolding t by (rule find_char_append [OF flag_text(1)])
  have d1: "drop (length ?f + 1) ?t = ?a @ CHR '','' # ?bare" unfolding t by simp
  have c2: "find_char (CHR '','') (drop (length ?f + 1) ?t) = Some (length ?a)"
    unfolding d1 by (rule find_char_append [OF authzid_text(1)])
  have parts: "take (length ?f) ?t = ?f" "drop (length ?f + 1) (take (length ?f + 1 + length ?a) ?t) = ?a"
    "drop (length ?f + 1 + length ?a + 1) ?t = ?bare" "take (length ?f + 1 + length ?a + 1) ?t = client_gs2 b authzid"
    unfolding t by (simp_all add: client_gs2_def)
  have gs2: "gs2_binding m offered ?f = Inr b"
    using b by (cases b; cases "the b") (simp_all add: gs2_binding_def binding_flag_def)
  have az: "gs2_authzid ?a = Inr authzid"
    by (cases authzid) (simp_all add: gs2_authzid_def client_authzid_def starts_with_def strip_prefix_def unescape_escape)
  have "split_on (CHR '','') ?bare = [''n='' @ sasl_escape user, ''r='' @ nonce]"
    using split_on_append [of "CHR '',''" "''n='' @ sasl_escape user" "''r='' @ nonce"] split_on_single [of "CHR '',''" "''r='' @ nonce"]
      escape_comma_free [of user] nonce_text(1) [OF nonce] by (simp add: client_bare_def)
  then have attributes: "next_attribute ''n='' (split_on (CHR '','') ?bare) = Inr (sasl_escape user, [''r='' @ nonce])"
    "next_attribute ''r='' [''r='' @ nonce] = Inr (nonce, [])" by (simp_all only: next_attribute_Inr)
  show ?thesis
    using len user(2,3) nonce
    by (simp only: client_first_parse_def utf8 c1 c2 option.map parts gs2 az attributes unescape_escape ok_or_simps ok_then_simps Let_def prod.case)
      (simp add: as_bytes_def check_extensions_def)
qed

lemma crypto_hmac: "crypto_ok lib \<Longrightarrow> hash_hmac lib h key data = Some (the (hash_hmac lib h key data))"
  "crypto_ok lib \<Longrightarrow> length (the (hash_hmac lib h key data)) = hash_len h"
  by (metis crypto_ok_def option.sel)+

lemma xor_bytes_involutive: "length a = length b \<Longrightarrow> xor_bytes (xor_bytes a b) b = a"
  by (induction a b rule: list_induct2) (simp_all add: xor_bytes_def xor.assoc)

lemma derive_prepared_hash: "derive_prepared lib h password s16 n = Inr v \<Longrightarrow> \<exists>d. v = verifier_of h d"
  by (auto simp: derive_prepared_def Inr_simps)

lemma derived_keys:
  assumes "crypto_ok lib" and "derive_prepared lib h password s16 n = Inr v"
  shows "verifier_hash v = h" and "salt (verifier_data_of v) = s16" and "verifier_iterations v = n"
    and "stored_key (verifier_data_of v) = ck_stored_key (client_keys lib h password s16 n)"
    and "server_key (verifier_data_of v) = ck_server_key (client_keys lib h password s16 n)"
    and "minimum_iterations h \<le> n"
proof -
  let ?k = "client_keys lib h password s16 n"
  have "v = verifier_of h \<lparr>salt = s16, iterations = n, stored_key = ck_stored_key ?k, server_key = ck_server_key ?k\<rparr> \<and> minimum_iterations h \<le> n"
    using assms(2) by (auto simp: derive_prepared_def derive_keys_def scram_keyed_hash_def check_iterations_def client_keys_def Let_def
        Inr_simps not_less)
  then show "verifier_hash v = h" "salt (verifier_data_of v) = s16" "verifier_iterations v = n"
    "stored_key (verifier_data_of v) = ck_stored_key ?k" "server_key (verifier_data_of v) = ck_server_key ?k" "minimum_iterations h \<le> n"
    by (cases h; simp add: verifier_of_def verifier_hash_def verifier_data_of_def verifier_iterations_def)+
qed

lemma decimal_ascii: "list_all (\<lambda>c. of_char c < (0x80::nat)) (decimal n)"
proof (induction n rule: decimal.induct)
  case (1 n)
  have "of_char (digit k) < (0x80::nat)" if "k < 10" for k using that by (simp add: digit_def)
  with 1 show ?case by (subst decimal.simps) simp
qed

lemma client_final_accepted:
  assumes crypto: "crypto_ok lib" and b64: "base64_ok lib" and v: "derive_prepared lib h password s16 n = Inr (sv_verifier s)"
    and header: "sv_gs2_header s = client_gs2 b authzid" and nonce: "CHR '','' \<notin> set (sv_nonce s)"
    and without: "without = client_without_proof lib b authzid data (sv_nonce s)"
    and message: "message = client_message (client_first_bare s) (server_first s) without"
    and k: "k = client_keys lib h password s16 n"
  shows "accepts lib s without (base64_encode lib (client_proof lib h k message)) data
    (''v='' @ base64_encode lib (the (hash_hmac lib h (ck_server_key k) message)))"
proof -
  let ?c = "base64_encode lib (as_bytes (client_gs2 b authzid) @ data)"
  note d = derived_keys [OF crypto v, folded k] and e = base64_encoded [OF b64]
  have split: "split_on (CHR '','') without = [''c='' @ ?c, ''r='' @ sv_nonce s]"
    using split_on_append [of "CHR '',''" "''c='' @ ?c" "''r='' @ sv_nonce s"] split_on_single [of "CHR '',''" "''r='' @ sv_nonce s"]
      e(2) [of "as_bytes (client_gs2 b authzid) @ data"] nonce by (simp add: without client_without_proof_def)
  let ?sig = "the (hash_hmac lib h (ck_stored_key k) message)"
  have len: "length (client_key k) = length ?sig" "length ?sig = hash_len h"
    using crypto_hmac(2) [OF crypto] by (simp_all add: k client_keys_def Let_def)
  have "ck_stored_key k = hash_digest lib h (client_key k)" by (simp add: k client_keys_def Let_def)
  then have proof_ok: "hash_digest lib h (xor_bytes (client_proof lib h k message) ?sig) = ck_stored_key k"
    unfolding client_proof_def xor_bytes_involutive [OF len(1)] by simp
  have "length (client_proof lib h k message) = hash_len h" using len by (simp add: client_proof_def xor_bytes_def)
  then show ?thesis
    unfolding accepts_def Let_def message [unfolded client_message_def, symmetric] d header
    by (intro exI [of _ ?c] exI [of _ "[]"] exI [of _ "client_proof lib h k message"] exI [of _ ?sig]
        exI [of _ "the (hash_hmac lib h (ck_server_key k) message)"] conjI)
      (use split e(1) proof_ok crypto_hmac(1) [OF crypto] in \<open>simp_all add: check_extensions_def\<close>)
qed

section \<open>Provisioning\<close>

lemma scan_password_exact:
  assumes "distinct seen" and "length seen \<le> 3"
  shows "length (fst (scan_password cs seen count)) = min 3 (card (set seen \<union> set cs)) \<and> snd (scan_password cs seen count) = count + length cs"
  using assms
proof (induction cs arbitrary: seen count)
  case Nil
  then show ?case by (simp add: distinct_card min_absorb2)
next
  case (Cons c cs)
  show ?case
  proof (cases "length seen < 3 \<and> c \<notin> set seen")
    case True
    with Cons.prems have "distinct (seen @ [c])" "length (seen @ [c]) \<le> 3" by auto
    from Cons.IH [OF this, of "count + 1"] True show ?thesis by (simp add: insert_commute Un_insert_right)
  next
    case False
    have "min 3 (card (set seen \<union> set cs)) = min 3 (card (set seen \<union> set (c # cs)))"
    proof (cases "c \<in> set seen")
      case False
      with \<open>\<not> (length seen < 3 \<and> c \<notin> set seen)\<close> Cons.prems have "3 \<le> card (set seen)" by (simp add: distinct_card)
      then have "3 \<le> card (set seen \<union> set cs)" "3 \<le> card (set seen \<union> set (c # cs))"
        by (meson List.finite_set card_mono finite_UnI le_trans sup_ge1)+
      then show ?thesis by simp
    qed (simp add: insert_absorb)
    with Cons.IH [OF Cons.prems, of "count + 1"] False show ?thesis by auto
  qed
qed

section \<open>Sample libraries\<close>

definition toy_encode :: "bytes \<Rightarrow> string" where
  "toy_encode bs = concat (map (\<lambda>b. [char_of (65 + unat b div 16), char_of (65 + unat b mod 16)]) bs)"

fun toy_decode :: "string \<Rightarrow> bytes option" where
  "toy_decode [] = Some []"
| "toy_decode (a # b # rest) = map_option (\<lambda>bs. word_of_nat (16 * (of_char a - 65) + (of_char b - 65)) # bs) (toy_decode rest)"
| "toy_decode _ = None"

definition toy_lib :: ScramLib where
  "toy_lib = \<lparr>hash_digest = (\<lambda>h x. replicate (hash_len h) (word_of_nat (length x))), hash_hmac = (\<lambda>h key data. Some (replicate (hash_len h) (word_of_nat (length data)))),
     pbkdf2_hmac = (\<lambda>h password s n. password @ s), saslprep = Some, unassigned_code_point = (\<lambda>_. False),
     base64_encode = toy_encode, base64_decode = toy_decode\<rparr>"

lemma toy_lib_ok: "crypto_ok toy_lib" "base64_ok toy_lib"
proof -
  show "crypto_ok toy_lib" by (simp add: crypto_ok_def toy_lib_def)
  have small: "unat (b :: byte) < 256" for b using unsigned_less [of b, where ?'a = nat] by simp
  have "toy_decode (toy_encode bs) = Some bs" for bs
  proof (induction bs)
    case (Cons b bs)
    have "unat b div 16 < 16" using small [of b] by simp
    then have "65 + unat b div 16 < 256" "65 + unat b mod 16 < 256" by simp_all
    then have "of_char (char_of (65 + unat b div 16) :: char) = 65 + unat b div 16" "of_char (char_of (65 + unat b mod 16) :: char) = 65 + unat b mod 16"
      by simp_all
    with Cons show ?case by (simp add: toy_encode_def)
  qed (simp add: toy_encode_def)
  moreover have "list_all base64_char (toy_encode bs)" for bs
  proof -
    have "base64_char (char_of (65 + k))" if "k < 16" for k :: nat
      using that by (simp add: base64_char_def is_ascii_alphabetic_def in_range_def)
    moreover have "unat b div 16 < 16" for b :: byte using small [of b] by simp
    ultimately show ?thesis by (induction bs) (simp_all add: toy_encode_def)
  qed
  ultimately show "base64_ok toy_lib" by (simp add: base64_ok_def toy_lib_def)
qed

section \<open>Properties\<close>

text \<open>
  C7. A login is accepted exactly when it should be. The server answers a final message with success if and only if the
  message is the right size and valid UTF-8, carries the nonce of this exchange, unknown extensions but no mandatory one, the
  GS2 header and channel binding of the connection, and a proof from which the client key recovered with the stored key hashes to the
  stored key; the answer is then the server's signature over the three messages exchanged.
\<close>

theorem scram_accepts_exactly:
  "finish lib s input data = Inr out \<longleftrightarrow>
     length input \<le> MAX_SCRAM_BYTES \<and>
     (\<exists>without proof64. CHR '','' \<notin> set proof64 \<and> is_str (without @ '',p='' @ proof64) \<and>
        input = as_bytes (without @ '',p='' @ proof64) \<and> accepts lib s without proof64 data out)"
  by (rule finish_exact)

text \<open>
  C8. A client that follows RFC 5802 and knows the password logs in, with every mechanism and channel binding: the
  server reads back its user name and authorization identity whatever characters they contain, accepts its proof, and answers with the signature the
  client computes from the same password, so the client can check the server in turn.
\<close>

theorem scram_completes:
  assumes "crypto_ok lib" and "base64_ok lib" and "derive_prepared lib (mechanism_hash m) password s16 n = Inr v"
    and "pred_option is_str authzid" and "is_str user" and "user \<noteq> []" and "saslprep lib user = Some user"
    and "valid_nonce cn" and "valid_nonce sn" and "(b = None) \<longleftrightarrow> \<not> is_plus m"
    and "length (client_first b authzid user cn) \<le> MAX_SCRAM_BYTES"
  shows "\<exists>cf server first without proof64. client_first_parse lib m (as_bytes (client_first b authzid user cn)) offered = Inr cf \<and>
    cf_username cf = user \<and> cf_authzid cf = authzid \<and> cf_binding cf = b \<and> start lib cf v sn = Inr (server, first) \<and>
    without = client_without_proof lib b authzid data (cn @ sn) \<and>
    proof64 = base64_encode lib (client_proof lib (mechanism_hash m) (client_keys lib (mechanism_hash m) password s16 n)
      (client_message (client_bare user cn) first without)) \<and>
    (length (without @ '',p='' @ proof64) \<le> MAX_SCRAM_BYTES \<longrightarrow>
      finish lib server (as_bytes (without @ '',p='' @ proof64)) data =
        Inr (''v='' @ base64_encode lib (the (hash_hmac lib (mechanism_hash m) (ck_server_key (client_keys lib (mechanism_hash m) password s16 n))
          (client_message (client_bare user cn) first without)))))"
proof -
  let ?h = "mechanism_hash m" and ?k = "client_keys lib (mechanism_hash m) password s16 n"
  note parse = client_first_accepted [OF assms(4-8,10,11), of offered]
  define first where "first = ''r='' @ (cn @ sn) @ '',s='' @ base64_encode lib (salt (verifier_data_of v)) @ '',i='' @ decimal (verifier_iterations v)"
  define s where "s = \<lparr>sv_verifier = v, sv_binding = b, sv_gs2_header = client_gs2 b authzid, client_first_bare = client_bare user cn,
    server_first = first, sv_nonce = cn @ sn\<rparr>"
  let ?w = "client_without_proof lib b authzid data (cn @ sn)"
  let ?m = "client_message (client_bare user cn) first ?w"
  let ?p = "base64_encode lib (client_proof lib ?h ?k ?m)"
  have comma: "CHR '','' \<notin> set (cn @ sn)" using nonce_text(1) [OF assms(8)] nonce_text(1) [OF assms(9)] by simp
  have "accepts lib s ?w ?p data (''v='' @ base64_encode lib (the (hash_hmac lib ?h (ck_server_key ?k) ?m)))"
    by (rule client_final_accepted [OF assms(1,2)]) (use assms(3) comma in \<open>simp_all add: s_def\<close>)
  moreover have "is_str (?w @ '',p='' @ ?p)"
  proof -
    have "is_str ''c=''" "is_str '',r=''" "is_str '',p=''" by (rule is_str_ascii, simp)+
    then show ?thesis unfolding client_without_proof_def
      by (intro is_str_append base64_encoded(3) [OF assms(2)] nonce_text(2) [OF assms(8)] nonce_text(2) [OF assms(9)])
  qed
  ultimately have "finish lib s (as_bytes (?w @ '',p='' @ ?p)) data = Inr (''v='' @ base64_encode lib (the (hash_hmac lib ?h (ck_server_key ?k) ?m)))"
    if "length (?w @ '',p='' @ ?p) \<le> MAX_SCRAM_BYTES"
    unfolding finish_exact using that base64_encoded(2) [OF assms(2)] by (auto simp: as_bytes_def)
  moreover have "start lib \<lparr>cf_mechanism = m, cf_binding = b, cf_gs2_header = client_gs2 b authzid, cf_bare = client_bare user cn,
      cf_username = user, cf_authzid = authzid, cf_nonce = cn\<rparr> v sn = Inr (s, first)"
    using derived_keys(1) [OF assms(1,3)] assms(9) by (simp add: start_def s_def first_def Let_def)
  ultimately show ?thesis using parse by fastforce
qed

theorem scram_completes_witness:
  "\<exists>v cf server first. derive_prepared toy_lib Sha256 (as_bytes ''secret'') (replicate 16 7) 4096 = Inr v \<and>
    client_first_parse toy_lib ScramSha256Plus (as_bytes (client_first (Some TlsExporter) None ''a,b=c'' ''nonce'')) True = Inr cf \<and>
    cf_username cf = ''a,b=c'' \<and> start toy_lib cf v ''more'' = Inr (server, first)"
proof -
  obtain v where v: "derive_prepared toy_lib (mechanism_hash ScramSha256Plus) (as_bytes ''secret'') (replicate 16 7) 4096 = Inr v"
    by (simp add: derive_prepared_def derive_keys_def scram_keyed_hash_def check_iterations_def minimum_iterations_def MIN_ITERATIONS_def
        mechanism_hash_def toy_lib_def Let_def)
  have "is_str ''a,b=c''" by (rule is_str_ascii) simp
  with scram_completes [OF toy_lib_ok v, of None "''a,b=c''" "''nonce''" "''more''" "Some TlsExporter" True "[]"] v
  show ?thesis
    by (auto simp: toy_lib_def valid_nonce_def is_plus_def mechanism_hash_def client_first_def client_gs2_def binding_flag_def client_authzid_def
        client_bare_def sasl_escape_def escape_char_def MAX_SCRAM_BYTES_def)
qed

text \<open>
  C38. Provisioning enforces the password policy: it refuses a password as weak exactly when its prepared form has fewer than 15 scalars or
  fewer than 3 distinct ones, and what it returns are the three verifiers derived from the prepared password, each with its own salt, at
  an iteration count every hash accepts.
\<close>

theorem provisioning_policy:
  assumes "prepare_password lib password = Inr prepared"
  shows "(provision_with_salt_source lib password n fill = Inl WeakPassword \<longleftrightarrow>
      length (str_chars prepared) < 15 \<or> card (set (str_chars prepared)) < 3) \<and>
    (\<forall>c. provision_with_salt_source lib password n fill = Inr c \<longrightarrow>
      10000 \<le> n \<and>
      (\<exists>v1 v256 v512 s1 s256 s512. c = credentials_all v1 v256 v512 \<and> fill 0 = Some s1 \<and> fill 1 = Some s256 \<and> fill 2 = Some s512 \<and>
        derive_prepared lib Sha1 (as_bytes prepared) s1 n = Inr (Sha1Verifier v1) \<and>
        derive_prepared lib Sha256 (as_bytes prepared) s256 n = Inr (Sha256Verifier v256) \<and>
        derive_prepared lib Sha512 (as_bytes prepared) s512 n = Inr (Sha512Verifier v512)))"
proof -
  note scan = scan_password_exact [of "[]" "str_chars prepared" 0, simplified]
  have weak: "(case scan_password (str_chars prepared) [] 0 of (seen, count) \<Rightarrow> count < 15 \<or> length seen < 3) \<longleftrightarrow>
      length (str_chars prepared) < 15 \<or> card (set (str_chars prepared)) < 3"
    using scan by (auto simp: split_beta)
  show ?thesis
  proof (intro conjI allI impI)
    show "provision_with_salt_source lib password n fill = Inl WeakPassword \<longleftrightarrow>
      length (str_chars prepared) < 15 \<or> card (set (str_chars prepared)) < 3"
      unfolding weak [symmetric] by (auto simp: provision_with_salt_source_def assms split_beta map_err_def Let_def split: sum.splits)
  next
    fix c assume c: "provision_with_salt_source lib password n fill = Inr c"
    show "10000 \<le> n" using c
      by (auto simp: provision_with_salt_source_def assms split_beta Inr_simps check_iterations_def minimum_iterations_def Let_def not_less)
    from c obtain s1 s256 s512 w1 w256 w512 where w: "fill 0 = Some s1" "fill 1 = Some s256" "fill 2 = Some s512"
        "derive_prepared lib Sha1 (as_bytes prepared) s1 n = Inr w1" "derive_prepared lib Sha256 (as_bytes prepared) s256 n = Inr w256"
        "derive_prepared lib Sha512 (as_bytes prepared) s512 n = Inr w512"
      and all: "(case (w1, w256, w512) of (Sha1Verifier d1, Sha256Verifier d256, Sha512Verifier d512) \<Rightarrow> Inr (credentials_all d1 d256 d512)
            | _ \<Rightarrow> Inl DerivationFailed) = Inr c"
      by (auto simp: provision_with_salt_source_def assms split_beta Inr_simps Let_def)
    obtain v1 v256 v512 where "w1 = Sha1Verifier v1" "w256 = Sha256Verifier v256" "w512 = Sha512Verifier v512"
      using derive_prepared_hash [OF w(4)] derive_prepared_hash [OF w(5)] derive_prepared_hash [OF w(6)] by (auto simp: verifier_of_def)
    with w all show "\<exists>v1 v256 v512 s1 s256 s512. c = credentials_all v1 v256 v512 \<and> fill 0 = Some s1 \<and> fill 1 = Some s256 \<and> fill 2 = Some s512 \<and>
        derive_prepared lib Sha1 (as_bytes prepared) s1 n = Inr (Sha1Verifier v1) \<and>
        derive_prepared lib Sha256 (as_bytes prepared) s256 n = Inr (Sha256Verifier v256) \<and>
        derive_prepared lib Sha512 (as_bytes prepared) s512 n = Inr (Sha512Verifier v512)"
      by auto
  qed
qed


theorem provisioning_policy_witness:
  "prepare_password toy_lib ''correct horse battery'' = Inr ''correct horse battery'' \<and>
   provision_with_salt_source toy_lib ''correct horse battery'' 10000 (\<lambda>i. Some (replicate 16 (word_of_nat i))) \<noteq> Inl WeakPassword \<and>
   provision_with_salt_source toy_lib ''aaaaaaaaaaaaaaaaaaaab'' 10000 (\<lambda>i. None) = Inl WeakPassword"
proof -
  have p: "prepare_password toy_lib s = Inr s" if "s \<noteq> []" for s
    using that by (simp add: prepare_password_def toy_lib_def list_ex_iff)
  have "str_chars ''correct horse battery'' = [99, 111, 114, 114, 101, 99, 116, 32, 104, 111, 114, 115, 101, 32, 98, 97, 116, 116, 101, 114, 121]"
    "str_chars ''aaaaaaaaaaaaaaaaaaaab'' = [97, 97, 97, 97, 97, 97, 97, 97, 97, 97, 97, 97, 97, 97, 97, 97, 97, 97, 97, 97, 98]"
    by (simp_all add: str_chars_def)
  then have weak: "\<not> (length (str_chars ''correct horse battery'') < 15 \<or> card (set (str_chars ''correct horse battery'')) < 3)"
    "length (str_chars ''aaaaaaaaaaaaaaaaaaaab'') < 15 \<or> card (set (str_chars ''aaaaaaaaaaaaaaaaaaaab'')) < 3"
    by (simp_all add: card_insert_if)
  have "provision_with_salt_source toy_lib ''correct horse battery'' 10000 (\<lambda>i. Some (replicate 16 (word_of_nat i))) \<noteq> Inl WeakPassword"
    using provisioning_policy [OF p, of "''correct horse battery''" 10000 "\<lambda>i. Some (replicate 16 (word_of_nat i))"] weak(1) by blast
  moreover have "provision_with_salt_source toy_lib ''aaaaaaaaaaaaaaaaaaaab'' 10000 (\<lambda>i. None) = Inl WeakPassword"
    using provisioning_policy [OF p, of "''aaaaaaaaaaaaaaaaaaaab''" 10000 "\<lambda>i. None"] weak(2) by blast
  ultimately show ?thesis using p by simp
qed

end
