(* ===== verification/C2s_Stream.thy ===== *)
theory C2s_Stream
  imports Stanza Scram
begin

text \<open>
  The stream of a client connection (\<open>lonewolf-core/src/c2s/stream/\<close> \<open>outcome.rs\<close>, \<open>header.rs\<close>, \<open>session/mod.rs\<close>, and the
  stream errors of \<open>lonewolf-xmpp/src/stream/mod.rs\<close>): why a stream closes, the stream header, and the session's reads and writes.

  What happens outside the connection is the record \<open>Io\<close>: the parser's events, whether each write reaches the peer, the
  random source, and what each storage snapshot shows. It is indexed by how many reads, writes, fills and snapshots came
  before, which the session counts. An action takes the session and returns its result with the session it leaves,
  so an action that fails keeps what it did. Deadlines and the shutdown signal, which can end a phase at any of
  its waits with an error, are not modelled.
\<close>

section \<open>Definitions\<close>

subsection \<open>Stream errors\<close>

definition STREAM_ERROR_NAMESPACE :: string where
  "STREAM_ERROR_NAMESPACE = ''urn:ietf:params:xml:ns:xmpp-streams''"

datatype StreamErrorCondition =
    BadFormat | BadNamespacePrefix | Conflict | ConnectionTimeout | HostGone | HostUnknown | ImproperAddressing
  | InternalServerError | InvalidFrom | InvalidNamespace | InvalidXml | NotAuthorized | NotWellFormed | PolicyViolation
  | RemoteConnectionFailed | Reset | ResourceConstraint | RestrictedXml | SeeOtherHost | SystemShutdown | UndefinedCondition
  | UnsupportedEncoding | UnsupportedFeature | UnsupportedStanzaType | UnsupportedVersion

definition stream_condition_from_name :: "string \<Rightarrow> StreamErrorCondition option" where
  "stream_condition_from_name name =
     (if name = ''bad-format'' then Some BadFormat
      else if name = ''bad-namespace-prefix'' then Some BadNamespacePrefix
      else if name = ''conflict'' then Some Conflict
      else if name = ''connection-timeout'' then Some ConnectionTimeout
      else if name = ''host-gone'' then Some HostGone
      else if name = ''host-unknown'' then Some HostUnknown
      else if name = ''improper-addressing'' then Some ImproperAddressing
      else if name = ''internal-server-error'' then Some InternalServerError
      else if name = ''invalid-from'' then Some InvalidFrom
      else if name = ''invalid-namespace'' then Some InvalidNamespace
      else if name = ''invalid-xml'' then Some InvalidXml
      else if name = ''not-authorized'' then Some NotAuthorized
      else if name = ''not-well-formed'' then Some NotWellFormed
      else if name = ''policy-violation'' then Some PolicyViolation
      else if name = ''remote-connection-failed'' then Some RemoteConnectionFailed
      else if name = ''reset'' then Some Reset
      else if name = ''resource-constraint'' then Some ResourceConstraint
      else if name = ''restricted-xml'' then Some RestrictedXml
      else if name = ''see-other-host'' then Some SeeOtherHost
      else if name = ''system-shutdown'' then Some SystemShutdown
      else if name = ''undefined-condition'' then Some UndefinedCondition
      else if name = ''unsupported-encoding'' then Some UnsupportedEncoding
      else if name = ''unsupported-feature'' then Some UnsupportedFeature
      else if name = ''unsupported-stanza-type'' then Some UnsupportedStanzaType
      else if name = ''unsupported-version'' then Some UnsupportedVersion
      else None)"

definition stream_condition_as_str :: "StreamErrorCondition \<Rightarrow> string" where
  "stream_condition_as_str c =
     (case c of
        BadFormat \<Rightarrow> ''bad-format''
      | BadNamespacePrefix \<Rightarrow> ''bad-namespace-prefix''
      | Conflict \<Rightarrow> ''conflict''
      | ConnectionTimeout \<Rightarrow> ''connection-timeout''
      | HostGone \<Rightarrow> ''host-gone''
      | HostUnknown \<Rightarrow> ''host-unknown''
      | ImproperAddressing \<Rightarrow> ''improper-addressing''
      | InternalServerError \<Rightarrow> ''internal-server-error''
      | InvalidFrom \<Rightarrow> ''invalid-from''
      | InvalidNamespace \<Rightarrow> ''invalid-namespace''
      | InvalidXml \<Rightarrow> ''invalid-xml''
      | NotAuthorized \<Rightarrow> ''not-authorized''
      | NotWellFormed \<Rightarrow> ''not-well-formed''
      | PolicyViolation \<Rightarrow> ''policy-violation''
      | RemoteConnectionFailed \<Rightarrow> ''remote-connection-failed''
      | Reset \<Rightarrow> ''reset''
      | ResourceConstraint \<Rightarrow> ''resource-constraint''
      | RestrictedXml \<Rightarrow> ''restricted-xml''
      | SeeOtherHost \<Rightarrow> ''see-other-host''
      | SystemShutdown \<Rightarrow> ''system-shutdown''
      | UndefinedCondition \<Rightarrow> ''undefined-condition''
      | UnsupportedEncoding \<Rightarrow> ''unsupported-encoding''
      | UnsupportedFeature \<Rightarrow> ''unsupported-feature''
      | UnsupportedStanzaType \<Rightarrow> ''unsupported-stanza-type''
      | UnsupportedVersion \<Rightarrow> ''unsupported-version'')"

definition stream_error_write_xml :: "StreamErrorCondition \<Rightarrow> string" where
  "stream_error_write_xml c =
     ''<stream:error><'' @ stream_condition_as_str c @ '' xmlns='' @ [CHR 0x27] @ STREAM_ERROR_NAMESPACE @ [CHR 0x27] @ ''/></stream:error>''"

subsection \<open>Parser events\<close>

text \<open>
  \<open>XmlIo\<close> is a read error of the transport, with whether the record guard detected a renegotiation; \<open>ParserArenaLimit\<close>
  is an allocation beyond the arena's limit.
\<close>

datatype ParseError =
    XmlIo bool | XmlSyntax | ParserBuild BuildError | ParserArenaLimit | ParserSizeLimit nat | TooManyAttributes
  | ParserInvalidXml | ParserNotWellFormed | ParserInvalidNamespace | ParserBadNamespacePrefix | UnboundNamespacePrefix
  | ParserUnsupportedEncoding | ParserRestrictedXml | UnexpectedEvent | UnexpectedEof | ParserFailed

text \<open>The second argument of \<open>ElementEvent\<close> is whether the element has attributes of its own.\<close>

datatype StreamEvent =
    StreamStart Element string bool
  | StanzaEvent Stanza
  | RejectedEvent RejectedStanza
  | ElementEvent Element bool
  | StreamEndEvent

subsection \<open>Close outcomes\<close>

datatype CloseOutcome =
    StreamEnd | PeerError StreamErrorCondition | ClosingTimeout | SystemShutdown | Eof | UnsupportedInput | UnsupportedStanzaType
  | SizeLimitExceeded | ParserLimitExceeded | ParserError | HostUnknown | InvalidTo | UnsupportedVersion | InvalidNamespace
  | BadNamespacePrefix | InvalidFrom | InvalidLanguage | InvalidXml | NotWellFormed | RestrictedXml | UnsupportedEncoding
  | StartTlsRejected | TlsFailure | CertificateInvalid | NoAuthenticationMechanism | AuthenticationTimeout | BindingTimeout
  | BindingAttemptsExceeded | EstablishmentTimeout | AuthenticationAttemptsExceeded | ChannelBindingReused | AccountDeleted
  | MailboxOverflow | InternalError | TransportError

definition from_io_error :: "bool \<Rightarrow> CloseOutcome" where
  "from_io_error renegotiation = (if renegotiation then TlsFailure else TransportError)"

definition from_parse_error :: "ParseError \<Rightarrow> CloseOutcome" where
  "from_parse_error e =
     (case e of
        XmlIo renegotiation \<Rightarrow> from_io_error renegotiation
      | ParserSizeLimit _ \<Rightarrow> SizeLimitExceeded
      | TooManyAttributes \<Rightarrow> ParserLimitExceeded
      | ParserBuild TreeLimitExceeded \<Rightarrow> ParserLimitExceeded
      | ParserArenaLimit \<Rightarrow> ParserLimitExceeded
      | ParserBuild Allocation \<Rightarrow> InternalError
      | ParserInvalidNamespace \<Rightarrow> InvalidNamespace
      | ParserBadNamespacePrefix \<Rightarrow> BadNamespacePrefix
      | ParserInvalidXml \<Rightarrow> InvalidXml
      | ParserNotWellFormed \<Rightarrow> NotWellFormed
      | UnboundNamespacePrefix \<Rightarrow> NotWellFormed
      | ParserRestrictedXml \<Rightarrow> RestrictedXml
      | ParserUnsupportedEncoding \<Rightarrow> UnsupportedEncoding
      | _ \<Rightarrow> ParserError)"

definition stream_condition :: "CloseOutcome \<Rightarrow> StreamErrorCondition option" where
  "stream_condition outcome =
     (case outcome of
        SystemShutdown \<Rightarrow> Some StreamErrorCondition.SystemShutdown
      | UnsupportedInput \<Rightarrow> Some NotAuthorized
      | SizeLimitExceeded \<Rightarrow> Some PolicyViolation
      | EstablishmentTimeout \<Rightarrow> Some PolicyViolation
      | AuthenticationTimeout \<Rightarrow> Some PolicyViolation
      | BindingTimeout \<Rightarrow> Some PolicyViolation
      | ParserLimitExceeded \<Rightarrow> Some PolicyViolation
      | ParserError \<Rightarrow> Some BadFormat
      | InvalidLanguage \<Rightarrow> Some BadFormat
      | InvalidTo \<Rightarrow> Some BadFormat
      | HostUnknown \<Rightarrow> Some StreamErrorCondition.HostUnknown
      | UnsupportedVersion \<Rightarrow> Some StreamErrorCondition.UnsupportedVersion
      | InvalidNamespace \<Rightarrow> Some StreamErrorCondition.InvalidNamespace
      | BadNamespacePrefix \<Rightarrow> Some StreamErrorCondition.BadNamespacePrefix
      | InvalidFrom \<Rightarrow> Some StreamErrorCondition.InvalidFrom
      | InvalidXml \<Rightarrow> Some StreamErrorCondition.InvalidXml
      | NotWellFormed \<Rightarrow> Some StreamErrorCondition.NotWellFormed
      | RestrictedXml \<Rightarrow> Some StreamErrorCondition.RestrictedXml
      | UnsupportedEncoding \<Rightarrow> Some StreamErrorCondition.UnsupportedEncoding
      | AuthenticationAttemptsExceeded \<Rightarrow> Some PolicyViolation
      | NoAuthenticationMechanism \<Rightarrow> Some PolicyViolation
      | ChannelBindingReused \<Rightarrow> Some PolicyViolation
      | BindingAttemptsExceeded \<Rightarrow> Some PolicyViolation
      | UnsupportedStanzaType \<Rightarrow> Some StreamErrorCondition.UnsupportedStanzaType
      | CertificateInvalid \<Rightarrow> Some Reset
      | AccountDeleted \<Rightarrow> Some NotAuthorized
      | MailboxOverflow \<Rightarrow> Some ResourceConstraint
      | InternalError \<Rightarrow> Some InternalServerError
      | _ \<Rightarrow> None)"

subsection \<open>Stream headers\<close>

definition STREAM_FOOTER :: string where
  "STREAM_FOOTER = ''</stream:stream>''"

record ClientHeader =
  ch_host :: string
  response_to :: "string option"
  client_content_namespace :: bool

datatype ResponseVersion = Omitted | Current | ZeroMajor string

definition is_ascii_digit :: "char \<Rightarrow> bool" where
  "is_ascii_digit c \<longleftrightarrow> in_range 0x30 0x39 (of_char c)"

definition normalized_component :: "string \<Rightarrow> string" where
  "normalized_component component =
     (let normalized = dropWhile (\<lambda>c. c = CHR ''0'') component in if normalized = [] then ''0'' else normalized)"

definition version_components :: "string \<Rightarrow> (string \<times> string) option" where
  "version_components text =
     (case split_once (CHR ''.'') text of
        None \<Rightarrow> None
      | Some (major, minor) \<Rightarrow>
          if major = [] \<or> minor = [] \<or> \<not> list_all is_ascii_digit major \<or> \<not> list_all is_ascii_digit minor then None
          else Some (normalized_component major, normalized_component minor))"

definition attribute :: "Element \<Rightarrow> string \<Rightarrow> string \<Rightarrow> string option" where
  "attribute e name namespace =
     map_option at_value (find (\<lambda>a. at_name a = name \<and> at_namespace a = namespace) (el_attributes e))"

definition response_version_from_header :: "Element \<Rightarrow> ResponseVersion" where
  "response_version_from_header h =
     (case attribute h ''version'' [] of
        None \<Rightarrow> Omitted
      | Some text \<Rightarrow>
          (case version_components text of
             Some (major, minor) \<Rightarrow> if major = ''0'' then ZeroMajor minor else Current
           | None \<Rightarrow> Current))"

record Hosts =
  default_host_name :: string
  host_names :: "string list"

definition is_local_host :: "Hosts \<Rightarrow> string \<Rightarrow> bool" where
  "is_local_host hosts d \<longleftrightarrow> d \<in> set (host_names hosts)"

text \<open>\<open>lang_ok\<close> is the language tag parser.\<close>

definition validate_header :: "UnicodeData \<Rightarrow> (string \<Rightarrow> bool) \<Rightarrow> Element \<Rightarrow> string \<Rightarrow> bool \<Rightarrow> Hosts
    \<Rightarrow> (CloseOutcome, ClientHeader) result" where
  "validate_header u lang_ok h content_namespace extra_header_namespaces hosts =
     (if extra_header_namespaces \<or> content_namespace \<notin> {[], CLIENT_NAMESPACE, STREAM_NAMESPACE} then Inl InvalidNamespace
      else
        ok_then (ok_or UnsupportedVersion (attribute h ''version'' [])) (\<lambda>text.
        ok_then (ok_or UnsupportedVersion (version_components text)) (\<lambda>(major, _).
          if major = ''0'' then Inl UnsupportedVersion
          else if pred_option (\<lambda>lang. lang_ok lang) (attribute h ''lang'' XML_NAMESPACE) then
            ok_then
              (case attribute h ''to'' [] of
                 Some to \<Rightarrow>
                   ok_then (map_err (\<lambda>_. InvalidTo) (parse_in u to)) (\<lambda>jid.
                   (let jid = resolve jid in
                    if localpart jid \<noteq> None \<or> resourcepart jid \<noteq> None then Inl InvalidTo
                    else if \<not> is_local_host hosts (domainpart jid) then Inl HostUnknown
                    else Inr (domainpart jid)))
               | None \<Rightarrow> Inr (default_host_name hosts)) (\<lambda>host.
            ok_then
              (transpose_map (\<lambda>from.
                 ok_then (map_err (\<lambda>_. InvalidFrom) (parse_in u from)) (\<lambda>jid.
                   Inr (ref_text (resolve (jid_bare jid))))) (attribute h ''from'' [])) (\<lambda>response_to.
              Inr \<lparr>ch_host = host, response_to = response_to,
                client_content_namespace = (content_namespace = CLIENT_NAMESPACE)\<rparr>))
          else Inl InvalidLanguage)))"

definition response_to_from_header :: "UnicodeData \<Rightarrow> Element \<Rightarrow> string option" where
  "response_to_from_header u h =
     (case attribute h ''from'' [] of
        None \<Rightarrow> None
      | Some from \<Rightarrow> (case parse_in u from of Inl _ \<Rightarrow> None | Inr jid \<Rightarrow> Some (ref_text (resolve (jid_bare jid)))))"

fun escape_attribute :: "string \<Rightarrow> string" where
  "escape_attribute [] = []"
| "escape_attribute (ch # s) =
     (if ch = CHR ''&'' then ''&amp;''
      else if ch = CHR ''<'' then ''&lt;''
      else if ch = CHR 0x27 then ''&apos;''
      else if ch = CHR 0x22 then ''&quot;''
      else if ch = CHR 0x0A then ''&#xA;''
      else if ch = CHR 0x0D then ''&#xD;''
      else if ch = CHR 0x09 then ''&#x9;''
      else [ch]) @ escape_attribute s"

definition hex_digit :: "nat \<Rightarrow> char" where
  "hex_digit n = (if n < 10 then char_of (48 + n) else char_of (87 + n))"

definition hex_bytes :: "bytes \<Rightarrow> string" where
  "hex_bytes bs = concat (map (\<lambda>b. [hex_digit (unat b div 16), hex_digit (unat b mod 16)]) bs)"

definition apostrophe :: string where
  "apostrophe = [CHR 0x27]"

definition response_header_xml :: "bytes option \<Rightarrow> string \<Rightarrow> string option \<Rightarrow> bool \<Rightarrow> ResponseVersion
    \<Rightarrow> (CloseOutcome, string) result" where
  "response_header_xml fill host to client_namespace response =
     ok_then (ok_or InternalError fill) (\<lambda>id.
       Inr (''<?xml version='' @ apostrophe @ ''1.0'' @ apostrophe @ ''?><stream:stream xmlns:stream='' @ apostrophe @
         ''http://etherx.jabber.org/streams'' @ apostrophe @
         (if client_namespace then '' xmlns='' @ apostrophe @ ''jabber:client'' @ apostrophe else []) @
         '' from='' @ apostrophe @ escape_attribute host @ apostrophe @ '' id='' @ apostrophe @ hex_bytes id @ apostrophe @
         (case response of
            Omitted \<Rightarrow> []
          | Current \<Rightarrow> '' version='' @ apostrophe @ ''1.0'' @ apostrophe
          | ZeroMajor minor \<Rightarrow> '' version='' @ apostrophe @ ''0.'' @ minor @ apostrophe) @
         '' xml:lang='' @ apostrophe @ ''en'' @ apostrophe @
         (case to of None \<Rightarrow> [] | Some to \<Rightarrow> '' to='' @ apostrophe @ escape_attribute to @ apostrophe) @ ''>''))"

definition stream_error_xml :: "CloseOutcome \<Rightarrow> string option" where
  "stream_error_xml outcome = map_option (\<lambda>c. stream_error_write_xml c @ STREAM_FOOTER) (stream_condition outcome)"

subsection \<open>Actions\<close>

type_synonym ('s, 'a) act = "'s \<Rightarrow> (CloseOutcome, 'a) result \<times> 's"

definition act_return :: "'a \<Rightarrow> ('s, 'a) act" where
  "act_return a s = (Inr a, s)"

definition act_fail :: "CloseOutcome \<Rightarrow> ('s, 'a) act" where
  "act_fail e s = (Inl e, s)"

definition act_then :: "('s, 'a) act \<Rightarrow> ('a \<Rightarrow> ('s, 'b) act) \<Rightarrow> ('s, 'b) act" where
  "act_then m f s = (case m s of (Inl e, s') \<Rightarrow> (Inl e, s') | (Inr a, s') \<Rightarrow> f a s')"

definition act_of :: "(CloseOutcome, 'a) result \<Rightarrow> ('s, 'a) act" where
  "act_of r s = (r, s)"

text \<open>
  \<open>flush_at\<close> says whether a write reaches the transport, \<open>fill_at\<close> gives the bytes of a call of the random source for
  a length, and \<open>snapshot_at\<close> what a read transaction sees.
\<close>

record Io =
  unicode :: UnicodeData
  scram_lib :: ScramLib
  lang_ok :: "string \<Rightarrow> bool"
  event_at :: "nat \<Rightarrow> (ParseError, StreamEvent option) result"
  flush_at :: "nat \<Rightarrow> CloseOutcome option"
  fill_at :: "nat \<Rightarrow> nat \<Rightarrow> bytes option"
  snapshot_at :: "nat \<Rightarrow> (AccountError, Tables) result"

record Session =
  host :: string
  intact :: bool
  is_open :: bool
  reader_failed :: bool
  sent :: "string list"
  events :: nat
  flushes :: nat
  fills :: nat
  snapshots :: nat

subsection \<open>Reading\<close>

definition read_event :: "'y Io_scheme \<Rightarrow> 'z Session_scheme \<Rightarrow> (ParseError, StreamEvent option) result \<times> 'z Session_scheme" where
  "read_event io s =
     (let r = event_at io (events s) in (r, s\<lparr>events := events s + 1, reader_failed := isl r\<rparr>))"

definition reader_next_event :: "'y Io_scheme \<Rightarrow> ('z Session_scheme, StreamEvent option) act" where
  "reader_next_event io s =
     (case read_event io s of
        (Inr event, s) \<Rightarrow> (Inr event, s)
      | (Inl UnexpectedEof, s) \<Rightarrow> (Inl Eof, s)
      | (Inl e, s) \<Rightarrow> (Inl (from_parse_error e), s))"

fun peer_condition :: "Node list \<Rightarrow> StreamErrorCondition option \<Rightarrow> StreamErrorCondition" where
  "peer_condition [] condition = (case condition of None \<Rightarrow> UndefinedCondition | Some c \<Rightarrow> c)"
| "peer_condition (ElementNode child # rest) condition =
     (if el_namespace child = STREAM_ERROR_NAMESPACE \<and> el_name child \<noteq> ''text'' then
        if condition \<noteq> None then UndefinedCondition
        else peer_condition rest
          (Some (case stream_condition_from_name (el_name child) of None \<Rightarrow> UndefinedCondition | Some c \<Rightarrow> c))
      else peer_condition rest condition)"
| "peer_condition (TextNode _ # rest) condition = peer_condition rest condition"

definition peer_stream_error :: "StreamEvent \<Rightarrow> StreamErrorCondition option" where
  "peer_stream_error event =
     (case event of
        ElementEvent e _ \<Rightarrow>
          if el_namespace e \<noteq> ''http://etherx.jabber.org/streams'' \<or> el_name e \<noteq> ''error'' then None
          else Some (peer_condition (el_children e) None)
      | _ \<Rightarrow> None)"

definition next_event :: "'y Io_scheme \<Rightarrow> ('z Session_scheme, StreamEvent option) act" where
  "next_event io =
     act_then (reader_next_event io) (\<lambda>event.
       case Option.bind event peer_stream_error of
         Some condition \<Rightarrow> act_fail (PeerError condition)
       | None \<Rightarrow> act_return event)"

definition namespace_error :: "StreamEvent \<Rightarrow> CloseOutcome option" where
  "namespace_error event =
     (case event of
        StanzaEvent s \<Rightarrow> if h_namespace (header s) \<noteq> Client then Some InvalidNamespace else None
      | RejectedEvent r \<Rightarrow> if r_namespace r \<noteq> Client then Some InvalidNamespace else None
      | ElementEvent e _ \<Rightarrow> if el_namespace e = SERVER_NAMESPACE then Some InvalidNamespace else None
      | _ \<Rightarrow> None)"

subsection \<open>Writing\<close>

definition send :: "'y Io_scheme \<Rightarrow> string \<Rightarrow> ('z Session_scheme, unit) act" where
  "send io xml s =
     (let s' = s\<lparr>flushes := flushes s + 1\<rparr> in
      case flush_at io (flushes s) of
        None \<Rightarrow> (Inr (), s'\<lparr>intact := True, sent := sent s @ [xml]\<rparr>)
      | Some e \<Rightarrow> (Inl e, s'\<lparr>intact := False\<rparr>))"

definition random_fill :: "'y Io_scheme \<Rightarrow> nat \<Rightarrow> 'z Session_scheme \<Rightarrow> bytes option \<times> 'z Session_scheme" where
  "random_fill io n s = (fill_at io (fills s) n, s\<lparr>fills := fills s + 1\<rparr>)"

definition send_header :: "'y Io_scheme \<Rightarrow> ClientHeader \<Rightarrow> ('z Session_scheme, unit) act" where
  "send_header io h s =
     (case random_fill io 16 s of
        (fill, s) \<Rightarrow>
          act_then (act_of (response_header_xml fill (host s) (response_to h) (client_content_namespace h) Current)) (\<lambda>xml.
          act_then (send io xml) (\<lambda>_ s. (Inr (), s\<lparr>is_open := True\<rparr>))) s)"

text \<open>\<open>reject_header\<close> answers with a header and gives the outcome with which the stream closes.\<close>

definition reject_header :: "'y Io_scheme \<Rightarrow> string option \<Rightarrow> bool \<Rightarrow> ResponseVersion \<Rightarrow> CloseOutcome \<Rightarrow> ('z Session_scheme, 'a) act" where
  "reject_header io to client_namespace response outcome s =
     (case random_fill io 16 s of
        (fill, s) \<Rightarrow>
          act_then (act_of (response_header_xml fill (host s) to client_namespace response)) (\<lambda>xml.
          act_then (send io xml) (\<lambda>_ s. (Inl outcome, s\<lparr>is_open := True\<rparr>))) s)"

subsection \<open>The client's header\<close>

definition refuse_header :: "'y Io_scheme \<Rightarrow> Element \<Rightarrow> string \<Rightarrow> CloseOutcome \<Rightarrow> ('z Session_scheme, 'a) act" where
  "refuse_header io h content_namespace outcome =
     reject_header io (response_to_from_header (unicode io) h) (content_namespace = CLIENT_NAMESPACE)
       (response_version_from_header h) outcome"

definition read_header :: "'y Io_scheme \<Rightarrow> Hosts \<Rightarrow> ('z Session_scheme, ClientHeader) act" where
  "read_header io hosts s =
     (case read_event io s of
        (Inr (Some (StreamStart h content_namespace extra)), s) \<Rightarrow>
          (case validate_header (unicode io) (lang_ok io) h content_namespace extra hosts of
             Inr h \<Rightarrow> (Inr h, s)
           | Inl outcome \<Rightarrow> refuse_header io h content_namespace outcome s)
      | (Inl UnexpectedEof, s) \<Rightarrow> (Inl Eof, s)
      | (Inl e, s) \<Rightarrow>
          (let outcome = from_parse_error e in
           if outcome = TlsFailure then (Inl outcome, s) else reject_header io None False Current outcome s)
      | (Inr _, s) \<Rightarrow> reject_header io None False Current ParserError s)"

section \<open>Action lemmas\<close>

lemma act_simps [simp]:
  "act_return a s = (Inr a, s)"
  "act_fail e s = (Inl e, s)"
  "act_of r s = (r, s)"
  by (simp_all add: act_return_def act_fail_def act_of_def)

lemma act_then_Inr:
  "act_then m f s = (Inr b, t) \<longleftrightarrow> (\<exists>a s'. m s = (Inr a, s') \<and> f a s' = (Inr b, t))"
  by (auto simp: act_then_def split: prod.splits sum.splits)

lemma act_then_Inl:
  "act_then m f s = (Inl e, t) \<longleftrightarrow> m s = (Inl e, t) \<or> (\<exists>a s'. m s = (Inr a, s') \<and> f a s' = (Inl e, t))"
  by (auto simp: act_then_def split: prod.splits sum.splits)

lemma send_Inr:
  "send io xml s = (Inr r, t) \<longleftrightarrow>
     flush_at io (flushes s) = None \<and> t = s\<lparr>flushes := flushes s + 1, intact := True, sent := sent s @ [xml]\<rparr>"
  by (auto simp: send_def Let_def split: option.splits)

lemma reject_header_fails [simp]: "reject_header io to ns v outcome s \<noteq> (Inr a, t)"
  by (auto simp: reject_header_def random_fill_def act_then_Inr)

end
