(* ===== verification/Spec2Isabelle.thy ===== *)
theory Spec2Isabelle
  imports Admission Delivery_Order Content_Stores Roster_Mirror Xml_Reading Roster_Steps C2s_Stream
begin

text \<open>
  Verification development for lonewolf, an XMPP server in Rust (the workspace under \<open>src/crates\<close>).

  \<^bold>\<open>The program.\<close> Client and server connections pass admission control (\<open>lonewolf-core/src/admission\<close>), their
  XML becomes stanzas (\<open>lonewolf-xmpp\<close>), and stanzas go to the handlers of extensions
  (\<open>lonewolf-extension\<close>). A handler reads or writes the stores (\<open>lonewolf-storage\<close>) in one transaction and returns
  effects: the accounts it concerns and the deliveries to make. The server commits the transaction and fixes the place of the
  effects in the delivery order (\<open>lonewolf-core/src/order\<close>) in one step, so that deliveries to an account follow the
  order of its changes. Administration creates and deletes accounts; a deletion lets every extension forget the account.

  \<^bold>\<open>Conventions.\<close> Integers are \<open>nat\<close> with the width written at each operation (\<open>checked_add 64\<close>, \<open>saturating_add 64\<close>, wrapping
  sums as \<open>mod 2 ^ 64\<close>); bytes are \<open>8 word\<close>; a \<open>str\<close> is a list of its UTF-8 bytes as characters. A fallible
  operation returns a sum with the error on the left, chained by \<open>ok_then\<close> as \<open>?\<close> does; \<open>None\<close> around it is a panic or a loop that does not end.
  A storage operation takes the state of the write transaction and returns it; the error case has no state, as every caller drops the
  transaction. Asynchronous code is modelled by its steps in the order the awaits fix them; where two tasks interleave
  (admission counters, the delivery order) the step is the section under the lock or the atomic operation, and the theorems hold for
  every interleaving. Libraries are parameters with named hypotheses: Unicode preparation (\<open>UnicodeData\<close>, hypotheses \<open>stable_profiles\<close> and
  \<open>control_free\<close>), redb's largest value, RFC 3339 formatting of a time, the digest of the decoy verifier.

  \<^bold>\<open>Theories\<close>, with the code they model and what they show:

  \<^item> \<open>Lw_Prelude\<close>: results, fixed-width arithmetic and list lemmas all theories share.
  \<^item> \<open>Token_Bucket\<close> (\<open>lonewolf-util/src/token_bucket.rs\<close>): grants in any window stay within burst plus rate times time;
    refilling twice is refilling once; the delay reported is exact (locale \<open>credit_bucket\<close>).
  \<^item> \<open>Admission\<close> (\<open>admission/attempt_limit.rs\<close>, \<open>connection_limit.rs\<close>, \<open>rejection_report.rs\<close>, \<open>c2s/unauthenticated_limit.rs\<close>): per
    source the attempts stay within the rate and the live connections within the limit, for all interleavings; the tables are bounded; counters are
    exact (locale \<open>permit_pool\<close>); no rejection is lost from the reports.
  \<^item> \<open>Delivery_Order\<close> (\<open>order/mod.rs\<close>): tickets refine an abstract order in which a ticket may deliver when no older conflicting one waits;
    signalled tickets exclude each other (locale \<open>turn_order\<close>); every ticket is signalled once the older ones are released.
  \<^item> \<open>Redb_Tables\<close> (\<open>lonewolf-storage/src/redb\<close>): byte formats, ordered tables (locale \<open>ordered_table\<close>) and transactions.
  \<^item> \<open>Jid\<close> (\<open>lonewolf-xmpp/src/jid\<close>): parsing, preparation and composition of addresses, with their round trips.
  \<^item> \<open>Account_Store\<close> (\<open>lonewolf-storage/src/account\<close>): keys, the credential record format and its round trip, account operations, paged
    listing, the decoy secret.
  \<^item> \<open>Roster_Store\<close> (\<open>lonewolf-storage/src/roster\<close>): item and request rows, versions, quotas; every reachable store is readable, quotas and limits are exact,
    clearing removes everything of one owner and nothing else.
  \<^item> \<open>Content_Stores\<close> (\<open>offline\<close>, \<open>private\<close>, \<open>vcard\<close> of \<open>lonewolf-storage\<close>): offline messages refine a mailbox per account; private XML and vCards change
    as a whole or not at all (locale \<open>owner_store\<close> for what a deletion relies on).
  \<^item> \<open>Roster_State\<close>, \<open>Roster_Mirror\<close> (\<open>lonewolf-extension/src/roster/state.rs\<close>): the subscription transitions over the record \<open>WriteTransaction\<close>; the locale
    \<open>roster_writes\<close> is the contract they need of a store, interpreted on redb; each keeps the two rosters in step.
  \<^item> \<open>Xml_Tree\<close>, \<open>Xml_Reading\<close>, \<open>Stanza\<close> (\<open>lonewolf-xmpp/src/stanza\<close>): elements with interned namespaces, their two writers, a reader of the written form;
    stanzas, their builder, error replies, and the checks on incoming frames.
  \<^item> \<open>Extension\<close> (\<open>lonewolf-extension/src/\<close> \<open>delivery.rs\<close>, \<open>presence.rs\<close>, \<open>iq.rs\<close>): requests, errors, effects and how a delivery runs.
  \<^item> \<open>Roster_Xml\<close>, \<open>Roster_Handlers\<close>, \<open>Roster_Cleanup\<close> (\<open>lonewolf-extension/src/roster/\<close> \<open>xml.rs\<close>, \<open>mod.rs\<close>, \<open>subscription.rs\<close>): every query, presence and deletion
    handler of the roster extension, with the loops over the stored rows as \<open>partial_function\<close>s that are proved to end (locale \<open>cursor\<close>).
  \<^item> \<open>Offline_Handlers\<close> (\<open>lonewolf-extension/src/offline\<close>): which messages are kept, how they are stamped, the queue's limit.
  \<^item> \<open>Account_Deletion\<close> (\<open>lonewolf-core/src/account_deletion.rs\<close>): the deletion transaction over the account handlers (locale \<open>account_handler\<close>): it ends, succeeds on
    readable stores, and leaves no trace.
  \<^item> \<open>Roster_Steps\<close>: the server as a step relation over the whole database (\<open>server_step\<close>): in every reachable database the local rosters agree, and
    presence goes only where the rosters grant it.

  \<^bold>\<open>Bounds and fuel.\<close> No loop of the model runs on fuel: loops over lists and tables recurse on them, the cursor loops are
  \<open>partial_function\<close>s shown to return, and the paged listing of accounts takes a page count, with the theorem that one page more than the
  number of accounts is enough. Limits of the code (depth, node and byte limits of XML, JID and record sizes, quotas) are definitions with the
  code's constants.

  \<^bold>\<open>Not modelled.\<close> The arena, the buffer pool and the core dispatcher (\<open>lonewolf-util\<close>) and all socket, TLS, DNS and HTTP code
  (\<open>lonewolf-core/src/c2s\<close>, \<open>s2s\<close>, \<open>hosts\<close>, \<open>lonewolf-acme\<close>, \<open>lonewolf-admin\<close>, \<open>lonewolf-metrics\<close>, \<open>lonewolfctl\<close>): memory management and
  input/output whose behaviour lies in the runtime and the libraries. The XML tokenizer is a library; the reader of
  \<open>Xml_Reading\<close> stands for it on what the writers produce. Metrics and logging have no effect on the rest. Configuration and
  command-line parsing are declarative. The router's session tables and the remaining extensions are not modelled yet.
\<close>

end
